(* ===== verification/Prelude.thy ===== *)
theory Prelude
  imports Main "HOL-Library.Word" "HOL-Library.List_Lexorder" "HOL-Library.Char_ord"
    "HOL-Library.Product_Lexorder" "HOL-Library.Option_ord" "HOL-Library.Multiset"
begin

unbundle bit_operations_syntax

text \<open>
  Shared vocabulary of the development: the machine integers of the Rust sources, a value for
  a Rust panic, slices with Rust's bounds rule, little-endian integers, and the generic lemmas on
  lists and maps that more than one component uses.

  \<open>u8\<close> to \<open>u64\<close> are words of their width and \<open>usize\<close> is 64 bits wide, as on every target the
  program is built for.  A byte buffer is a list of \<open>u8\<close>.  A \<^verbatim>\<open>String\<close> is a \<open>string\<close>, the list of
  its bytes.
\<close>

type_synonym u8 = "8 word"
type_synonym u16 = "16 word"
type_synonym u32 = "32 word"
type_synonym u64 = "64 word"
type_synonym usize = "64 word"

named_theorems layout_simps \<open>sizes and offsets of the binary layouts\<close>
named_theorems step_defs \<open>one-step unfoldings of the handlers\<close>

section \<open>Panics\<close>

text \<open>
  A Rust expression that may panic is a value of \<open>outcome\<close>.  Errors that the code returns are
  values of a sum type or of \<open>option\<close> and never \<open>Panic\<close>.
\<close>

datatype 'a outcome = Done 'a | Panic

fun outcome_bind :: "'a outcome \<Rightarrow> ('a \<Rightarrow> 'b outcome) \<Rightarrow> 'b outcome" where
  "outcome_bind (Done x) f = f x"
| "outcome_bind Panic f = Panic"

lemma outcome_bind_eq_Done_iff:
  "outcome_bind m f = Done y \<longleftrightarrow> (\<exists>x. m = Done x \<and> f x = Done y)"
  by (cases m) auto

section \<open>Sum results\<close>

text \<open>\<open>try r f\<close> is the \<open>?\<close> operator of Rust: the error is returned, the value is passed on.\<close>

fun try_bind :: "'e + 'a \<Rightarrow> ('a \<Rightarrow> 'e + 'b) \<Rightarrow> 'e + 'b" where
  "try_bind (Inl e) f = Inl e"
| "try_bind (Inr x) f = f x"

lemma try_bind_eq_Inr_iff:
  "try_bind m f = Inr y \<longleftrightarrow> (\<exists>x. m = Inr x \<and> f x = Inr y)"
  by (cases m) auto

lemma try_bind_eq_Inl_iff:
  "try_bind m f = Inl e \<longleftrightarrow> m = Inl e \<or> (\<exists>x. m = Inr x \<and> f x = Inl e)"
  by (cases m) auto

lemma try_bind_cong [fundef_cong]:
  "m = m' \<Longrightarrow> (\<And>x. m' = Inr x \<Longrightarrow> f x = g x) \<Longrightarrow> try_bind m f = try_bind m' g"
  by (cases m') auto

section \<open>Fallible operations on a state\<close>

text \<open>
  A \<^verbatim>\<open>&mut self\<close> method that returns a \<^verbatim>\<open>Result\<close> maps a state to the result and the new state; the
  state after an error is kept, as in the code.  \<open>sbind\<close> is \<^verbatim>\<open>let x = m?; f\<close>.
\<close>

type_synonym ('s, 'e, 'a) op = "'s \<Rightarrow> ('e + 'a) \<times> 's"

definition sreturn :: "'a \<Rightarrow> ('s, 'e, 'a) op" where
  "sreturn x s = (Inr x, s)"

definition sfail :: "'e \<Rightarrow> ('s, 'e, 'a) op" where
  "sfail e s = (Inl e, s)"

definition supdate :: "('s \<Rightarrow> 's) \<Rightarrow> ('s, 'e, unit) op" where
  "supdate f s = (Inr (), f s)"

definition sread :: "('s \<Rightarrow> 'a) \<Rightarrow> ('s, 'e, 'a) op" where
  "sread f s = (Inr (f s), s)"

definition sbind :: "('s, 'e, 'a) op \<Rightarrow> ('a \<Rightarrow> ('s, 'e, 'b) op) \<Rightarrow> ('s, 'e, 'b) op" where
  "sbind m f s = (case m s of (Inl e, s') \<Rightarrow> (Inl e, s') | (Inr x, s') \<Rightarrow> f x s')"

definition sthen :: "('s, 'e, 'a) op \<Rightarrow> ('s, 'e, 'b) op \<Rightarrow> ('s, 'e, 'b) op" where
  "sthen m n = sbind m (\<lambda>_. n)"

definition swhen :: "bool \<Rightarrow> ('s, 'e, unit) op \<Rightarrow> ('s, 'e, unit) op" where
  "swhen b m = (if b then m else sreturn ())"

primrec sfor :: "('a \<Rightarrow> ('s, 'e, unit) op) \<Rightarrow> 'a list \<Rightarrow> ('s, 'e, unit) op" where
  "sfor f [] = sreturn ()"
| "sfor f (x # xs) = sthen (f x) (sfor f xs)"

lemma sthen_assoc: "sthen (sthen a b) c = sthen a (sthen b c)"
  by (rule ext) (auto simp: sthen_def sbind_def split: prod.split sum.split)

lemma sbind_sthen: "sbind (sthen a b) f = sthen a (sbind b f)"
  by (rule ext) (auto simp: sthen_def sbind_def split: prod.split sum.split)

lemma sthen_return_left [simp]: "sthen (sreturn ()) m = m"
  by (rule ext) (simp add: sthen_def sbind_def sreturn_def)

lemma sthen_return_any [simp]: "sthen (sreturn x) m = m"
  by (rule ext) (simp add: sthen_def sbind_def sreturn_def)

lemma sbind_return [simp]: "sbind (sreturn x) f = f x"
  by (rule ext) (simp add: sbind_def sreturn_def)

lemma sthen_return_right [simp]: "sthen m (sreturn ()) = m"
  by (rule ext) (auto simp: sthen_def sbind_def sreturn_def split: prod.split sum.split)

lemma swhen_simps [simp]: "swhen True m = m" "swhen False m = sreturn ()"
  by (simp_all add: swhen_def)

lemma sfor_append: "sfor f (xs @ ys) = sthen (sfor f xs) (sfor f ys)"
  by (induction xs) (simp_all add: sthen_assoc)

lemma sbind_eq_Inr_iff:
  "sbind m f s = (Inr y, s'') \<longleftrightarrow> (\<exists>x s'. m s = (Inr x, s') \<and> f x s' = (Inr y, s''))"
  by (auto simp: sbind_def split: prod.splits sum.splits)

lemma sthen_eq_Inr_iff:
  "sthen m n s = (Inr y, s'') \<longleftrightarrow> (\<exists>x s'. m s = (Inr x, s') \<and> n s' = (Inr y, s''))"
  by (simp add: sthen_def sbind_eq_Inr_iff)

lemma sreturn_eq_iff [simp]: "sreturn x s = (Inr y, s') \<longleftrightarrow> y = x \<and> s' = s"
  by (auto simp: sreturn_def)

lemma sfail_neq [simp]: "sfail e s \<noteq> (Inr y, s')"
  by (simp add: sfail_def)

lemma supdate_eq_iff [simp]: "supdate f s = (Inr y, s') \<longleftrightarrow> s' = f s"
  by (auto simp: supdate_def)

lemma sread_eq_iff [simp]: "sread f s = (Inr y, s') \<longleftrightarrow> y = f s \<and> s' = s"
  by (auto simp: sread_def)

lemma swhen_eq_Inr_iff:
  "swhen b m s = (Inr y, s') \<longleftrightarrow> (if b then m s = (Inr y, s') else s' = s)"
  by (auto simp: swhen_def)

lemmas op_success = sbind_eq_Inr_iff sthen_eq_Inr_iff swhen_eq_Inr_iff

section \<open>Lists\<close>

text \<open>\<open>succeeds P m\<close>: from a state with \<open>P\<close> the operation returns a value, in a state with \<open>P\<close>.\<close>

definition succeeds :: "('s \<Rightarrow> bool) \<Rightarrow> ('s, 'e, 'a) op \<Rightarrow> bool" where
  "succeeds P m \<longleftrightarrow> (\<forall>s. P s \<longrightarrow> (\<exists>x s'. m s = (Inr x, s') \<and> P s'))"

lemma succeedsD: "succeeds P m \<Longrightarrow> P s \<Longrightarrow> m s = (r, s') \<Longrightarrow> (\<exists>x. r = Inr x) \<and> P s'"
  by (fastforce simp: succeeds_def)

lemma succeedsE:
  assumes "succeeds P m" "P s"
  obtains x s' where "m s = (Inr x, s')" "P s'"
  using assms by (auto simp: succeeds_def)

lemma succeeds_sreturn: "succeeds P (sreturn x)"
  by (simp add: succeeds_def sreturn_def)

lemma succeeds_supdate: "(\<And>s. P s \<Longrightarrow> P (f s)) \<Longrightarrow> succeeds P (supdate f)"
  by (simp add: succeeds_def supdate_def)

lemma succeeds_sread: "succeeds P (sread f)"
  by (simp add: succeeds_def sread_def)

lemma succeeds_sbind: "succeeds P m \<Longrightarrow> (\<And>x. succeeds P (f x)) \<Longrightarrow> succeeds P (sbind m f)"
  by (fastforce simp: succeeds_def sbind_def)

lemma succeeds_sthen: "succeeds P m \<Longrightarrow> succeeds P n \<Longrightarrow> succeeds P (sthen m n)"
  by (simp add: sthen_def succeeds_sbind)

lemma succeeds_swhen: "succeeds P m \<Longrightarrow> succeeds P (swhen b m)"
  by (cases b) (simp_all add: succeeds_sreturn)

lemma succeeds_sfor: "(\<And>x. succeeds P (f x)) \<Longrightarrow> succeeds P (sfor f xs)"
  by (induction xs) (simp_all add: succeeds_sreturn succeeds_sthen)

lemmas succeeds_rules = succeeds_sreturn succeeds_sread succeeds_sbind succeeds_sthen succeeds_swhen succeeds_sfor

lemma set_map_filter_iff: "y \<in> set (List.map_filter g xs) \<longleftrightarrow> (\<exists>x \<in> set xs. g x = Some y)"
  by (induction xs) (auto split: option.split)

section \<open>Derived orders\<close>

text \<open>
  A type whose order is \<^verbatim>\<open>derive(PartialOrd, Ord)\<close> or an explicit comparison is ordered by an injective
  key; the facts below are the axioms of a linear order for it.
\<close>

locale ordered_by_key =
  fixes key :: "'a \<Rightarrow> 'k::linorder"
  assumes key_inject: "key a = key b \<Longrightarrow> a = b"
begin

lemma key_less: "(key a < key b) = (key a \<le> key b \<and> \<not> key b \<le> key a)"
  by (rule less_le_not_le)

lemma key_refl: "key a \<le> key a"
  by (rule order_refl)

lemma key_trans: "key a \<le> key b \<Longrightarrow> key b \<le> key c \<Longrightarrow> key a \<le> key c"
  by (rule order_trans)

lemma key_antisym: "key a \<le> key b \<Longrightarrow> key b \<le> key a \<Longrightarrow> a = b"
  by (rule key_inject) (rule antisym)

lemma key_linear: "key a \<le> key b \<or> key b \<le> key a"
  by (rule linear)

lemmas order_facts = key_less key_refl key_trans key_antisym key_linear

end

section \<open>Slices\<close>

text \<open>\<open>subrange i j xs\<close> is \<open>xs[i..j]\<close> for indices in range.\<close>

definition subrange :: "nat \<Rightarrow> nat \<Rightarrow> 'a list \<Rightarrow> 'a list" where
  "subrange i j xs = take (j - i) (drop i xs)"

text \<open>\<open>get_range i j xs\<close> is \<open>xs.get(i..j)\<close>: \<open>None\<close> when the range is reversed or out of bounds.\<close>

definition get_range :: "nat \<Rightarrow> nat \<Rightarrow> 'a list \<Rightarrow> 'a list option" where
  "get_range i j xs = (if i \<le> j \<and> j \<le> length xs then Some (subrange i j xs) else None)"

lemma length_subrange [simp]: "j \<le> length xs \<Longrightarrow> length (subrange i j xs) = j - i"
  by (auto simp: subrange_def min_def)

lemma subrange_append_left: "i \<le> j \<Longrightarrow> j \<le> length xs \<Longrightarrow> subrange i j (xs @ ys) = subrange i j xs"
  by (simp add: subrange_def)

lemma subrange_append_right:
  "length xs \<le> i \<Longrightarrow> subrange i j (xs @ ys) = subrange (i - length xs) (j - length xs) ys"
  by (simp add: subrange_def)

lemma subrange_prefix: "subrange 0 (length xs) (xs @ ys) = xs"
  by (simp add: subrange_def)

lemma subrange_infix:
  "i = length xs \<Longrightarrow> j = i + length ys \<Longrightarrow> subrange i j (xs @ ys @ zs) = ys"
  by (simp add: subrange_def)

lemma subrange_whole [simp]: "subrange 0 (length xs) xs = xs"
  by (simp add: subrange_def)

lemma get_range_eq_Some_iff:
  "get_range i j xs = Some ys \<longleftrightarrow> i \<le> j \<and> j \<le> length xs \<and> ys = subrange i j xs"
  by (auto simp: get_range_def)

lemma get_range_length: "get_range i j xs = Some ys \<Longrightarrow> length ys = j - i"
  by (auto simp: get_range_def split: if_splits)

section \<open>Little-endian integers\<close>

primrec le_val :: "u8 list \<Rightarrow> nat" where
  "le_val [] = 0"
| "le_val (b # bs) = unat b + 256 * le_val bs"

primrec le_bytes :: "nat \<Rightarrow> nat \<Rightarrow> u8 list" where
  "le_bytes 0 v = []"
| "le_bytes (Suc n) v = word_of_nat v # le_bytes n (v div 256)"

lemma length_le_bytes [simp]: "length (le_bytes n v) = n"
  by (induction n arbitrary: v) auto

lemma le_val_le_bytes: "v < 256 ^ n \<Longrightarrow> le_val (le_bytes n v) = v"
proof (induction n arbitrary: v)
  case 0
  then show ?case by simp
next
  case (Suc n)
  then have "v div 256 < 256 ^ n"
    by (simp add: less_mult_imp_div_less mult.commute)
  with Suc.IH have "le_val (le_bytes n (v div 256)) = v div 256" by blast
  then show ?case by (simp add: unat_of_nat)
qed

lemma le_val_bound: "le_val bs < 256 ^ length bs"
proof (induction bs)
  case (Cons b bs)
  have "unat b < 256" using unsigned_less [of b, where ?'a = nat] by simp
  with Cons show ?case by simp
qed simp

lemma le_bytes_le_val: "le_bytes (length bs) (le_val bs) = bs"
proof (induction bs)
  case (Cons b bs)
  have b: "unat b < 256" using unsigned_less [of b, where ?'a = nat] by simp
  have "(word_of_nat (unat b + 256 * le_val bs) :: u8) = word_of_nat (unat b)"
    by (simp only: word_unat_eq_iff unat_of_nat take_bit_eq_mod) simp
  moreover have "(unat b + 256 * le_val bs) div 256 = le_val bs" using b by simp
  ultimately show ?case using Cons by simp
qed simp

definition u64_from_le :: "u8 list \<Rightarrow> u64" where
  "u64_from_le bs = word_of_nat (le_val bs)"

definition u32_from_le :: "u8 list \<Rightarrow> u32" where
  "u32_from_le bs = word_of_nat (le_val bs)"

definition u16_from_le :: "u8 list \<Rightarrow> u16" where
  "u16_from_le bs = word_of_nat (le_val bs)"

definition u64_to_le :: "u64 \<Rightarrow> u8 list" where
  "u64_to_le w = le_bytes 8 (unat w)"

definition u32_to_le :: "u32 \<Rightarrow> u8 list" where
  "u32_to_le w = le_bytes 4 (unat w)"

definition u16_to_le :: "u16 \<Rightarrow> u8 list" where
  "u16_to_le w = le_bytes 2 (unat w)"

lemma length_to_le [simp]:
  "length (u64_to_le w) = 8" "length (u32_to_le v) = 4" "length (u16_to_le u) = 2"
  by (simp_all add: u64_to_le_def u32_to_le_def u16_to_le_def)

lemma u64_roundtrip [simp]: "u64_from_le (u64_to_le w) = w"
  using unsigned_less [of w, where ?'a = nat] by (simp add: u64_from_le_def u64_to_le_def le_val_le_bytes)

lemma u32_roundtrip [simp]: "u32_from_le (u32_to_le w) = w"
  using unsigned_less [of w, where ?'a = nat] by (simp add: u32_from_le_def u32_to_le_def le_val_le_bytes)

lemma u16_roundtrip [simp]: "u16_from_le (u16_to_le w) = w"
  using unsigned_less [of w, where ?'a = nat] by (simp add: u16_from_le_def u16_to_le_def le_val_le_bytes)

lemma u16_to_from: "length bs = 2 \<Longrightarrow> u16_to_le (u16_from_le bs) = bs"
  using le_val_bound [of bs] le_bytes_le_val [of bs]
  by (simp add: u16_to_le_def u16_from_le_def unat_of_nat take_bit_nat_eq_self_iff)

section \<open>Words\<close>

definition saturating_sub :: "'a::len word \<Rightarrow> 'a word \<Rightarrow> 'a word" where
  "saturating_sub a b = (if b \<le> a then a - b else 0)"

lemma unat_saturating_sub: "unat (saturating_sub a b) = unat a - unat b"
  by (simp add: saturating_sub_def unat_sub word_le_nat_alt)

definition checked_add :: "'a::len word \<Rightarrow> 'a word \<Rightarrow> 'a word option" where
  "checked_add a b = (let s = a + b in if s < a then None else Some s)"

lemma unat_add_no_wrap:
  "unat (a :: 'a::len word) + unat b < 2 ^ LENGTH('a) \<Longrightarrow> unat (a + b) = unat a + unat b"
  by (simp add: unat_word_ariths)

lemma word_add_overflow:
  assumes "2 ^ LENGTH('a) \<le> unat (a :: 'a::len word) + unat b"
  shows "a + b < a"
proof -
  have lt: "unat a < 2 ^ LENGTH('a)" "unat b < 2 ^ LENGTH('a)"
    using unsigned_less [of a, where ?'a = nat] unsigned_less [of b, where ?'a = nat] by simp_all
  have "unat (a + b) = (unat a + unat b) mod 2 ^ LENGTH('a)" by (simp add: unat_word_ariths)
  also have "\<dots> = (unat a + unat b - 2 ^ LENGTH('a)) mod 2 ^ LENGTH('a)"
    using assms by (rule le_mod_geq)
  also have "\<dots> = unat a + unat b - 2 ^ LENGTH('a)"
    using lt by (intro mod_less) linarith
  finally have "unat (a + b) < unat a" using assms lt by linarith
  then show ?thesis by (simp add: word_less_nat_alt)
qed

lemma checked_add_eq_Some:
  "checked_add a b = Some c \<longleftrightarrow> unat a + unat b < 2 ^ LENGTH('a) \<and> c = (a :: 'a::len word) + b"
proof (cases "unat a + unat b < 2 ^ LENGTH('a)")
  case True
  then have "\<not> a + b < a" by (simp add: word_less_nat_alt unat_add_no_wrap)
  with True show ?thesis by (auto simp: checked_add_def Let_def)
next
  case False
  then show ?thesis using word_add_overflow [of a b] by (simp add: checked_add_def Let_def)
qed

section \<open>Text\<close>

text \<open>The standard library's UTF-8 check on the bytes of a would-be \<^verbatim>\<open>str\<close>.\<close>

definition utf8_cont :: "u8 \<Rightarrow> bool" where
  "utf8_cont b \<longleftrightarrow> 0x80 \<le> b \<and> b \<le> 0xBF"

fun utf8_valid :: "u8 list \<Rightarrow> bool" where
  "utf8_valid [] = True"
| "utf8_valid (b # bs) =
     (if b < 0x80 then utf8_valid bs
      else case bs of
        [] \<Rightarrow> False
      | c # cs \<Rightarrow>
          if 0xC2 \<le> b \<and> b \<le> 0xDF then utf8_cont c \<and> utf8_valid cs
          else case cs of
            [] \<Rightarrow> False
          | d # ds \<Rightarrow>
              if b = 0xE0 then 0xA0 \<le> c \<and> c \<le> 0xBF \<and> utf8_cont d \<and> utf8_valid ds
              else if b = 0xED then 0x80 \<le> c \<and> c \<le> 0x9F \<and> utf8_cont d \<and> utf8_valid ds
              else if 0xE1 \<le> b \<and> b \<le> 0xEF then utf8_cont c \<and> utf8_cont d \<and> utf8_valid ds
              else case ds of
                [] \<Rightarrow> False
              | e # es \<Rightarrow>
                  if b = 0xF0 then 0x90 \<le> c \<and> c \<le> 0xBF \<and> utf8_cont d \<and> utf8_cont e \<and> utf8_valid es
                  else if b = 0xF4 then 0x80 \<le> c \<and> c \<le> 0x8F \<and> utf8_cont d \<and> utf8_cont e \<and> utf8_valid es
                  else 0xF1 \<le> b \<and> b \<le> 0xF3 \<and> utf8_cont c \<and> utf8_cont d \<and> utf8_cont e \<and> utf8_valid es)"

definition string_bytes :: "string \<Rightarrow> u8 list" where
  "string_bytes s = map (\<lambda>c. word_of_nat (of_char c)) s"

definition bytes_string :: "u8 list \<Rightarrow> string" where
  "bytes_string bs = map (\<lambda>b. char_of (unat b)) bs"

lemma bytes_string_bytes [simp]: "bytes_string (string_bytes s) = s"
proof -
  have "of_char c < (256 :: nat)" for c :: char by simp
  then show ?thesis
    by (simp add: bytes_string_def string_bytes_def comp_def unat_of_nat take_bit_nat_eq_self_iff
        map_idI take_bit_of_nat [symmetric])
qed

text \<open>\<open>display_nat\<close> is the decimal display of an unsigned integer, \<open>parse_unsigned\<close> its \<^verbatim>\<open>FromStr\<close>: an
  optional plus sign, at least one digit, and no overflow at any step.\<close>

definition digit_char :: "nat \<Rightarrow> char" where
  "digit_char d = char_of (48 + d)"

definition digit_value :: "char \<Rightarrow> nat option" where
  "digit_value c = (let n = of_char c in if 48 \<le> n \<and> n \<le> 57 then Some (n - 48) else None)"

fun display_nat :: "nat \<Rightarrow> string" where
  "display_nat n = (if n < 10 then [digit_char n] else display_nat (n div 10) @ [digit_char (n mod 10)])"

declare display_nat.simps [simp del]

fun parse_digits :: "nat \<Rightarrow> nat \<Rightarrow> string \<Rightarrow> nat option" where
  "parse_digits w acc [] = Some acc"
| "parse_digits w acc (c # cs) =
     (case digit_value c of
        None \<Rightarrow> None
      | Some d \<Rightarrow> let v = acc * 10 + d in if v < 2 ^ w then parse_digits w v cs else None)"

definition parse_unsigned :: "nat \<Rightarrow> string \<Rightarrow> nat option" where
  "parse_unsigned w s =
     (let ds = (case s of CHR ''+'' # cs \<Rightarrow> cs | _ \<Rightarrow> s) in
      if ds = [] then None else parse_digits w 0 ds)"

definition parse_u64 :: "string \<Rightarrow> u64 option" where
  "parse_u64 s = map_option word_of_nat (parse_unsigned 64 s)"

lemma digit_value_digit_char [simp]: "d < 10 \<Longrightarrow> digit_value (digit_char d) = Some d"
  by (simp add: digit_value_def digit_char_def)

lemma digit_char_neq [simp]:
  "d < 10 \<Longrightarrow> digit_char d \<noteq> CHR ''+''" "d < 10 \<Longrightarrow> digit_char d \<noteq> CHR ''.''"
  "d < 10 \<Longrightarrow> digit_char d \<noteq> CHR ''/''"
proof -
  assume "d < 10"
  then have v: "digit_value (digit_char d) = Some d" by simp
  have "digit_value CHR ''+'' = None" "digit_value CHR ''.'' = None" "digit_value CHR ''/'' = None"
    by (simp_all add: digit_value_def)
  with v show "digit_char d \<noteq> CHR ''+''" "digit_char d \<noteq> CHR ''.''" "digit_char d \<noteq> CHR ''/''"
    by auto
qed

lemmas digit_char_neq' [simp] = digit_char_neq [THEN not_sym]

lemma set_display_nat: "set (display_nat n) \<subseteq> digit_char ` {..<10}"
  by (induction n rule: display_nat.induct) (subst display_nat.simps, auto)

lemma display_nat_not_Nil [simp]: "display_nat n \<noteq> []"
  by (subst display_nat.simps) simp

lemma parse_digits_append:
  "parse_digits w acc (xs @ ys) = Option.bind (parse_digits w acc xs) (\<lambda>v. parse_digits w v ys)"
  by (induction w acc xs rule: parse_digits.induct) (auto simp: Let_def split: option.split)

lemma parse_digits_display: "n < 2 ^ w \<Longrightarrow> parse_digits w 0 (display_nat n) = Some n"
proof (induction n rule: display_nat.induct)
  case (1 n)
  show ?case
  proof (cases "n < 10")
    case True
    then show ?thesis using 1 by (subst display_nat.simps) simp
  next
    case False
    have "n div 10 < 2 ^ w" using 1(2) by (meson div_le_dividend le_less_trans)
    with 1 False have "parse_digits w 0 (display_nat (n div 10)) = Some (n div 10)" by simp
    then show ?thesis using False 1(2)
      by (subst display_nat.simps) (simp add: parse_digits_append)
  qed
qed

lemma parse_unsigned_display: "n < 2 ^ w \<Longrightarrow> parse_unsigned w (display_nat n) = Some n"
proof -
  assume n: "n < 2 ^ w"
  obtain c cs where c: "display_nat n = c # cs" by (cases "display_nat n") auto
  then have "c \<noteq> CHR ''+''" using set_display_nat [of n] by auto
  then have "(case display_nat n of CHR ''+'' # cs \<Rightarrow> cs | _ \<Rightarrow> display_nat n) = display_nat n"
    by (simp add: c split: char.split bool.split)
  with n show ?thesis by (simp add: parse_unsigned_def Let_def parse_digits_display)
qed

lemma parse_u64_display [simp]: "parse_u64 (display_nat (unat v)) = Some v"
  using unsigned_less [of v, where ?'a = nat] by (simp add: parse_u64_def parse_unsigned_display)

end
