(* ===== verification/Append_Vec.thy ===== *)
theory Append_Vec
  imports Prelude
begin

text \<open>
  The AppendVec storage file: \<^verbatim>\<open>src/append_vec.rs\<close> and the account iterators of \<^verbatim>\<open>src/lib.rs\<close>.
  An AppendVec is a byte buffer of which the first \<open>current_len\<close> bytes hold accounts, each laid
  out as \<^verbatim>\<open>StoredMeta\<close> (48 bytes), \<^verbatim>\<open>AccountMeta\<close> (49 bytes padded to 56), the hash (32 bytes) and the
  account data, every part starting on an 8-byte boundary.  Offsets are words, as in the code, and
  the iterators are partial functions: that they return is a theorem.

  A Rust \<^verbatim>\<open>bool\<close> read from a raw byte other than 0 or 1 is undefined behaviour; the model reads
  such a byte as \<open>True\<close>.  Integers are little-endian, as on the targets of the program.
  Additions wrap, as in the release profile.
\<close>

section \<open>Data\<close>

type_synonym pubkey = "u8 list"

record stored_meta =
  write_version :: u64
  data_len :: u64
  sm_pubkey :: pubkey

record account_meta =
  lamports :: u64
  rent_epoch :: u64
  am_owner :: pubkey
  executable :: bool

record stored_account_meta =
  meta :: stored_meta
  account_meta :: account_meta
  sa_data :: "u8 list"
  sa_offset :: usize
  stored_size :: usize
  sa_hash :: "u8 list"

record append_vec =
  av_slot :: u64
  av_id :: u64
  av_map :: "u8 list"
  av_current_len :: usize
  av_file_size :: u64

text \<open>An in-memory \<^verbatim>\<open>Account\<close>, the target of \<^verbatim>\<open>clone_account\<close> and the source of an \<^verbatim>\<open>AccountMeta\<close>.\<close>

record account =
  ac_lamports :: u64
  ac_data :: "u8 list"
  ac_owner :: pubkey
  ac_executable :: bool
  ac_rent_epoch :: u64

definition account_meta_from :: "account \<Rightarrow> account_meta" where
  "account_meta_from a = \<lparr>lamports = ac_lamports a, rent_epoch = ac_rent_epoch a,
     am_owner = ac_owner a, executable = ac_executable a\<rparr>"

definition account_meta_default :: account_meta where
  "account_meta_default = \<lparr>lamports = 0, rent_epoch = 0, am_owner = replicate 32 0,
     executable = False\<rparr>"

definition account_meta_from_option :: "account option \<Rightarrow> account_meta" where
  "account_meta_from_option ao =
     (case ao of Some a \<Rightarrow> account_meta_from a | None \<Rightarrow> account_meta_default)"

definition clone_account :: "stored_account_meta \<Rightarrow> account" where
  "clone_account s = \<lparr>ac_lamports = lamports (account_meta s), ac_data = sa_data s,
     ac_owner = am_owner (account_meta s), ac_executable = executable (account_meta s),
     ac_rent_epoch = rent_epoch (account_meta s)\<rparr>"

section \<open>Construction\<close>

datatype io_error =
    OpenFailed
  | MapFailed
  | ReadFailed
  | TooSmallFileSize usize
  | TooLargeFileSize usize
  | CurrentLenTooLarge usize
  | NotFound
  | InvalidData
  | OsError nat

definition MAXIMUM_APPEND_VEC_FILE_SIZE :: u64 where
  "MAXIMUM_APPEND_VEC_FILE_SIZE = 16 * 1024 * 1024 * 1024"

definition sanitize_len_and_size :: "usize \<Rightarrow> usize \<Rightarrow> io_error + unit" where
  "sanitize_len_and_size current_len file_size =
     (if file_size = 0 then Inl (TooSmallFileSize file_size)
      else if MAXIMUM_APPEND_VEC_FILE_SIZE < file_size then Inl (TooLargeFileSize file_size)
      else if file_size < current_len then Inl (CurrentLenTooLarge file_size)
      else Inr ())"

definition av_len :: "append_vec \<Rightarrow> usize" where
  "av_len av = av_current_len av"

definition av_is_empty :: "append_vec \<Rightarrow> bool" where
  "av_is_empty av \<longleftrightarrow> av_len av = 0"

definition capacity :: "append_vec \<Rightarrow> u64" where
  "capacity av = av_file_size av"

definition remaining_bytes :: "append_vec \<Rightarrow> u64" where
  "remaining_bytes av = saturating_sub (capacity av) (av_len av)"

text \<open>
  \<open>file\<close> is what the operating system gives for the path: \<open>None\<close> if it cannot be opened, otherwise
  the bytes of the file.  \<open>map_ok\<close> says whether the memory map succeeds.
\<close>

definition new_from_file ::
  "u8 list option \<Rightarrow> bool \<Rightarrow> usize \<Rightarrow> u64 \<Rightarrow> u64 \<Rightarrow> io_error + append_vec" where
  "new_from_file file map_ok current_len slot ident =
     (case file of
        None \<Rightarrow> Inl OpenFailed
      | Some bytes \<Rightarrow>
          let file_size = word_of_nat (length bytes) in
          try_bind (sanitize_len_and_size current_len file_size) (\<lambda>_.
            if \<not> map_ok then Inl MapFailed
            else Inr \<lparr>av_slot = slot, av_id = ident, av_map = bytes,
                      av_current_len = current_len, av_file_size = file_size\<rparr>))"

text \<open>
  A reader is the bytes it still delivers and whether it then fails instead of reporting the end.
  \<^verbatim>\<open>io::copy\<close> from \<^verbatim>\<open>reader.take(current_len)\<close> stops at \<open>current_len\<close> bytes or at the end; the
  anonymous map is zero where nothing was copied.
\<close>

record reader =
  rd_bytes :: "u8 list"
  rd_fails :: bool

definition new_from_reader ::
  "reader \<Rightarrow> bool \<Rightarrow> usize \<Rightarrow> u64 \<Rightarrow> u64 \<Rightarrow> io_error + append_vec" where
  "new_from_reader rd map_ok current_len slot ident =
     (let n = unat current_len; got = take n (rd_bytes rd) in
      if \<not> map_ok then Inl MapFailed
      else if rd_fails rd \<and> length (rd_bytes rd) < n then Inl ReadFailed
      else Inr \<lparr>av_slot = slot, av_id = ident, av_map = got @ replicate (n - length got) 0,
                av_current_len = current_len, av_file_size = current_len\<rparr>)"

section \<open>Reading\<close>

definition ALIGN_BOUNDARY_OFFSET :: usize where
  "ALIGN_BOUNDARY_OFFSET = 8"

definition u64_align :: "usize \<Rightarrow> usize" where
  "u64_align addr = (addr + (ALIGN_BOUNDARY_OFFSET - 1)) AND NOT (ALIGN_BOUNDARY_OFFSET - 1)"

text \<open>
  Indexing the map past its end panics; \<open>get_slice\<close> itself only compares with \<open>current_len\<close>.
\<close>

definition get_slice :: "append_vec \<Rightarrow> usize \<Rightarrow> usize \<Rightarrow> (u8 list \<times> usize) option outcome" where
  "get_slice av offset sz =
     (let nxt = offset + sz; overflow = nxt < offset in
      if overflow \<or> av_len av < nxt then Done None
      else if unat nxt \<le> length (av_map av)
           then Done (Some (subrange (unat offset) (unat nxt) (av_map av), u64_align nxt))
           else Panic)"

text \<open>\<^verbatim>\<open>get_type::<T>\<close> reads \<^verbatim>\<open>size_of::<T>()\<close> bytes and casts them; \<open>decode\<close> is the cast.\<close>

definition get_type ::
  "usize \<Rightarrow> (u8 list \<Rightarrow> 'a) \<Rightarrow> append_vec \<Rightarrow> usize \<Rightarrow> ('a \<times> usize) option outcome" where
  "get_type size_of decode av offset =
     (case get_slice av offset size_of of
        Panic \<Rightarrow> Panic
      | Done None \<Rightarrow> Done None
      | Done (Some (bytes, nxt)) \<Rightarrow> Done (Some (decode bytes, nxt)))"

definition decode_stored_meta :: "u8 list \<Rightarrow> stored_meta" where
  "decode_stored_meta bs = \<lparr>write_version = u64_from_le (subrange 0 8 bs),
     data_len = u64_from_le (subrange 8 16 bs), sm_pubkey = subrange 16 48 bs\<rparr>"

definition decode_account_meta :: "u8 list \<Rightarrow> account_meta" where
  "decode_account_meta bs = \<lparr>lamports = u64_from_le (subrange 0 8 bs),
     rent_epoch = u64_from_le (subrange 8 16 bs), am_owner = subrange 16 48 bs,
     executable = (bs ! 48 \<noteq> 0)\<rparr>"

definition size_of_stored_meta :: usize where "size_of_stored_meta = 48"
definition size_of_account_meta :: usize where "size_of_account_meta = 56"
definition size_of_hash :: usize where "size_of_hash = 32"

lemmas [layout_simps] = size_of_stored_meta_def size_of_account_meta_def size_of_hash_def

fun option_outcome_bind ::
  "'a option outcome \<Rightarrow> ('a \<Rightarrow> 'b option outcome) \<Rightarrow> 'b option outcome" where
  "option_outcome_bind Panic f = Panic"
| "option_outcome_bind (Done None) f = Done None"
| "option_outcome_bind (Done (Some x)) f = f x"

definition get_account ::
  "append_vec \<Rightarrow> usize \<Rightarrow> (stored_account_meta \<times> usize) option outcome" where
  "get_account av offset =
     option_outcome_bind (get_type size_of_stored_meta decode_stored_meta av offset) (\<lambda>(m, n1).
     option_outcome_bind (get_type size_of_account_meta decode_account_meta av n1) (\<lambda>(am, n2).
     option_outcome_bind (get_type size_of_hash (\<lambda>bs. bs) av n2) (\<lambda>(h, n3).
     option_outcome_bind (get_slice av n3 (data_len m)) (\<lambda>(d, n4).
       Done (Some (\<lparr>meta = m, account_meta = am, sa_data = d, sa_offset = offset,
                    stored_size = n4 - offset, sa_hash = h\<rparr>, n4))))))"

section \<open>Iteration\<close>

text \<open>\<^verbatim>\<open>AppendVecAccounts::next\<close>: the item, if any, and the iterator's new offset.\<close>

definition append_vec_accounts_next ::
  "append_vec \<Rightarrow> usize \<Rightarrow> (stored_account_meta option \<times> usize) outcome" where
  "append_vec_accounts_next av offset =
     (case get_account av offset of
        Panic \<Rightarrow> Panic
      | Done None \<Rightarrow> Done (None, offset)
      | Done (Some (a, nxt)) \<Rightarrow> Done (Some a, nxt))"

partial_function (option) accounts_from ::
  "append_vec \<Rightarrow> usize \<Rightarrow> stored_account_meta list outcome option" where
  "accounts_from av offset =
     (case append_vec_accounts_next av offset of
        Panic \<Rightarrow> Some Panic
      | Done (None, _) \<Rightarrow> Some (Done [])
      | Done (Some a, nxt) \<Rightarrow>
          Option.bind (accounts_from av nxt) (\<lambda>r. Some (outcome_bind r (\<lambda>as. Done (a # as)))))"

definition append_vec_accounts :: "append_vec \<Rightarrow> stored_account_meta list outcome option" where
  "append_vec_accounts av = accounts_from av 0"

text \<open>The older iterator first collects the offsets and then reads each account again.\<close>

partial_function (option) offsets_from ::
  "append_vec \<Rightarrow> usize \<Rightarrow> usize list outcome option" where
  "offsets_from av offset =
     (case get_account av offset of
        Panic \<Rightarrow> Some Panic
      | Done None \<Rightarrow> Some (Done [])
      | Done (Some (_, nxt)) \<Rightarrow>
          Option.bind (offsets_from av nxt) (\<lambda>r. Some (outcome_bind r (\<lambda>os. Done (offset # os)))))"

record stored_account_meta_handle =
  h_append_vec :: append_vec
  h_offset :: usize

definition handle_access :: "stored_account_meta_handle \<Rightarrow> stored_account_meta option outcome" where
  "handle_access h =
     option_outcome_bind (get_account (h_append_vec h) (h_offset h)) (\<lambda>(a, _). Done (Some a))"

definition append_vec_iter ::
  "append_vec \<Rightarrow> stored_account_meta_handle list outcome option" where
  "append_vec_iter av =
     Option.bind (offsets_from av 0) (\<lambda>r.
       Some (outcome_bind r (\<lambda>os. Done (map (\<lambda>off. \<lparr>h_append_vec = av, h_offset = off\<rparr>) os))))"

section \<open>Alignment\<close>

text \<open>\<open>align8\<close> is the alignment macro on natural numbers.\<close>

definition align8 :: "nat \<Rightarrow> nat" where
  "align8 n = (n + 7) div 8 * 8"

lemma and_not_mask_3: "(w :: usize) AND NOT (mask 3) = push_bit 3 (drop_bit 3 w)"
  by (auto intro!: bit_eqI simp: bit_simps)

lemma align_mask: "ALIGN_BOUNDARY_OFFSET - 1 = mask 3"
  by (simp add: ALIGN_BOUNDARY_OFFSET_def mask_eq_exp_minus_1)

lemma unat_u64_align:
  assumes "unat a + 7 < 2 ^ 64"
  shows "unat (u64_align a) = align8 (unat a)"
proof -
  have s: "unat (a + 7) = unat a + 7"
    using assms by (subst unat_add_no_wrap) simp_all
  have "u64_align a = push_bit 3 (drop_bit 3 (a + 7))"
    by (simp only: u64_align_def align_mask and_not_mask_3) (simp add: mask_eq_exp_minus_1)
  also have "unat \<dots> = unat (a + 7) div 8 * 8 mod 2 ^ 64"
    by (simp only: push_bit_eq_mult unat_word_ariths unat_drop_bit_eq drop_bit_eq_div)
      (simp add: mult.commute)
  also have "\<dots> = (unat a + 7) div 8 * 8"
    using assms by (simp add: s del: unat_plus_simple)
  finally show ?thesis by (simp add: align8_def)
qed

lemma align8_ge: "n \<le> align8 n" and align8_lt: "align8 n < n + 8" and align8_dvd: "8 dvd align8 n"
  by (auto simp: align8_def)

lemma align8_id: "8 dvd n \<Longrightarrow> align8 n = n"
  by (auto simp: align8_def)

lemma align8_add: "8 dvd n \<Longrightarrow> align8 (n + m) = n + align8 m"
proof (elim dvdE)
  fix k assume n: "n = 8 * k"
  have "n + m + 7 = (m + 7) + 8 * k" by (simp add: n)
  then have "(n + m + 7) div 8 = k + (m + 7) div 8" by (metis div_mult_self2 zero_neq_numeral)
  then show "align8 (n + m) = n + align8 m" by (simp add: align8_def n)
qed

lemma align8_mono: "m \<le> n \<Longrightarrow> align8 m \<le> align8 n"
  by (simp add: align8_def div_le_mono)

section \<open>Well-formed AppendVecs\<close>

text \<open>
  \<open>av_wf\<close>: the used length lies inside the mapped bytes and leaves room for one alignment below
  \<open>2 ^ 64\<close>.  Under it no read panics, and the word offsets of the code are the natural numbers of
  \<open>account_at\<close>, the specification of one account read.
\<close>

definition av_wf :: "append_vec \<Rightarrow> bool" where
  "av_wf av \<longleftrightarrow> unat (av_current_len av) \<le> length (av_map av) \<and> unat (av_current_len av) + 8 \<le> 2 ^ 64"

lemma get_slice_wf:
  assumes "av_wf av"
  shows "get_slice av off sz =
    Done (if unat off + unat sz \<le> unat (av_current_len av)
          then Some (subrange (unat off) (unat off + unat sz) (av_map av),
                     word_of_nat (align8 (unat off + unat sz)))
          else None)"
proof (cases "unat off + unat sz < 2 ^ 64")
  case True
  then have s: "unat (off + sz) = unat off + unat sz" by (intro unat_add_no_wrap) simp
  have no: "\<not> off + sz < off" using s by (simp add: word_less_nat_alt)
  have le: "\<not> av_len av < off + sz \<longleftrightarrow> unat off + unat sz \<le> unat (av_current_len av)"
    by (simp add: av_len_def word_less_nat_alt s not_less)
  have al: "u64_align (off + sz) = word_of_nat (align8 (unat off + unat sz))"
    if "unat off + unat sz \<le> unat (av_current_len av)"
  proof -
    have "unat (off + sz) + 7 < 2 ^ 64" using that assms by (simp add: av_wf_def s)
    then have "unat (u64_align (off + sz)) = align8 (unat off + unat sz)"
      by (simp add: unat_u64_align s)
    then show ?thesis by (metis of_nat_unat ucast_id)
  qed
  show ?thesis
    using assms al by (auto simp: get_slice_def Let_def no s le av_wf_def)
next
  case False
  then have "unat (off + sz) < unat off"
    using unsigned_less [of off, where ?'a = nat] unsigned_less [of sz, where ?'a = nat]
    by (auto simp: unat_word_ariths not_less mod_if)
  then have ov: "off + sz < off" by (simp add: word_less_nat_alt)
  have "unat (av_current_len av) < unat off + unat sz"
    using False unsigned_less [of "av_current_len av", where ?'a = nat] by simp
  then show ?thesis by (simp add: get_slice_def Let_def ov)
qed


lemma get_type_wf:
  assumes "av_wf av"
  shows "get_type sz dec av off =
    Done (if unat off + unat sz \<le> unat (av_current_len av)
          then Some (dec (subrange (unat off) (unat off + unat sz) (av_map av)),
                     word_of_nat (align8 (unat off + unat sz)))
          else None)"
  by (simp add: get_type_def get_slice_wf [OF assms])

definition account_at :: "u8 list \<Rightarrow> nat \<Rightarrow> nat \<Rightarrow> (stored_account_meta \<times> nat) option" where
  "account_at bytes len n =
     (if len < n + 136 then None
      else let m = decode_stored_meta (subrange n (n + 48) bytes);
               fin = n + 136 + unat (data_len m) in
        if len < fin then None
        else Some (\<lparr>meta = m,
          account_meta = decode_account_meta (subrange (n + 48) (n + 104) bytes),
          sa_data = subrange (n + 136) fin bytes, sa_offset = word_of_nat n,
          stored_size = word_of_nat (align8 fin - n),
          sa_hash = subrange (n + 104) (n + 136) bytes\<rparr>, align8 fin))"

lemma get_account_wf:
  assumes wf: "av_wf av" and al: "8 dvd unat off"
  shows "get_account av off = Done (map_option (map_prod id word_of_nat)
    (account_at (av_map av) (unat (av_current_len av)) (unat off)))"
proof -
  let ?n = "unat off" and ?c = "unat (av_current_len av)"
  note gt = get_type_wf [OF wf] and gs = get_slice_wf [OF wf]
  have a: "align8 (?n + 48) = ?n + 48" "align8 (?n + 104) = ?n + 104" "align8 (?n + 136) = ?n + 136"
    "align8 (104 + ?n) = ?n + 104" "align8 (136 + ?n) = ?n + 136"
    using al by (simp_all add: align8_id dvd_add)
  have u: "unat (word_of_nat k :: usize) = k" if "k \<le> ?c" for k
    using that unsigned_less [of "av_current_len av", where ?'a = nat]
    by (simp add: unat_of_nat take_bit_nat_eq_self_iff)
  have w: "unat (off + word_of_nat k) = ?n + k" if "?n + k \<le> ?c" for k
    using u [OF that] by simp
  note ws = w [of 48, simplified] w [of 104, simplified] w [of 136, simplified]
  show ?thesis
  proof (cases "?n + 136 \<le> ?c")
    case False
    consider "?c < ?n + 48" | "?n + 48 \<le> ?c" "?c < ?n + 104" | "?n + 104 \<le> ?c" "?c < ?n + 136"
      using False by linarith
    then show ?thesis
      by cases (simp_all add: get_account_def account_at_def gt layout_simps a u ws)
  next
    case True
    let ?m = "decode_stored_meta (subrange ?n (?n + 48) (av_map av))"
    let ?e = "align8 (?n + 136 + unat (data_len ?m))"
    have st: "word_of_nat ?e - off = word_of_nat (?e - ?n)"
    proof -
      have "?n \<le> ?e" using align8_ge [of "?n + 136 + unat (data_len ?m)"] by simp
      then show ?thesis by (simp add: of_nat_diff)
    qed
    show ?thesis
      using True st by (simp add: get_account_def account_at_def gt gs layout_simps a u ws Let_def add.commute [of _ ?n])
  qed
qed

lemma account_at_SomeD:
  assumes "account_at bytes len n = Some (a, n')"
  shows "n + 136 \<le> n'" "8 dvd n'" "n' < len + 8" "n + 136 + unat (data_len (meta a)) \<le> len"
    "n' = align8 (n + 136 + unat (data_len (meta a)))"
  using assms align8_ge align8_lt [of "n + 136 + unat (data_len (meta a))"] align8_dvd
  by (auto simp: account_at_def Let_def split: if_splits intro: order_trans [OF _ align8_ge])

function accounts_spec :: "u8 list \<Rightarrow> nat \<Rightarrow> nat \<Rightarrow> stored_account_meta list" where
  "accounts_spec bytes len n =
     (case account_at bytes len n of None \<Rightarrow> [] | Some (a, n') \<Rightarrow> a # accounts_spec bytes len n')"
  by auto
termination
  by (relation "measure (\<lambda>(bytes, len, n). len + 8 - n)")
    (use account_at_SomeD(1,3) in \<open>force\<close>)+

declare accounts_spec.simps [simp del]

lemma accounts_from_spec:
  assumes "av_wf av" "8 dvd n" "n < 2 ^ 64"
  shows "accounts_from av (word_of_nat n) =
    Some (Done (accounts_spec (av_map av) (unat (av_current_len av)) n))"
  using assms(2,3)
proof (induction "av_map av" "unat (av_current_len av)" n rule: accounts_spec.induct)
  case (1 n)
  have u: "unat (word_of_nat n :: usize) = n"
    using "1.prems" by (simp add: unat_of_nat take_bit_nat_eq_self_iff)
  have g: "get_account av (word_of_nat n) = Done (map_option (map_prod id word_of_nat)
    (account_at (av_map av) (unat (av_current_len av)) n))"
    using get_account_wf [OF assms(1), of "word_of_nat n"] "1.prems" by (simp add: u)
  show ?case
  proof (cases "account_at (av_map av) (unat (av_current_len av)) n")
    case None
    then show ?thesis
      by (subst accounts_from.simps, subst accounts_spec.simps)
        (simp add: append_vec_accounts_next_def g)
  next
    case (Some p)
    obtain a n' where p: "p = (a, n')" by (cases p)
    note d = account_at_SomeD [OF Some [unfolded p]]
    have "n' < 2 ^ 64" using d(3) assms(1) by (simp add: av_wf_def)
    with "1.hyps" [OF Some p [symmetric]] d(2) show ?thesis
      by (subst accounts_from.simps, subst accounts_spec.simps)
        (simp add: append_vec_accounts_next_def g Some p)
  qed
qed

lemma append_vec_accounts_total:
  assumes "av_wf av"
  shows "append_vec_accounts av =
    Some (Done (accounts_spec (av_map av) (unat (av_current_len av)) 0))"
  using accounts_from_spec [OF assms, of 0] by (simp add: append_vec_accounts_def)


lemma handle_access_eq:
  "handle_access h = (case get_account (h_append_vec h) (h_offset h) of
     Panic \<Rightarrow> Panic | Done None \<Rightarrow> Done None | Done (Some (a, n)) \<Rightarrow> Done (Some a))"
  by (simp add: handle_access_def split: outcome.split option.split)

lemma offsets_from_spec:
  assumes "av_wf av" "8 dvd n" "n < 2 ^ 64"
  shows "offsets_from av (word_of_nat n) =
      Some (Done (map sa_offset (accounts_spec (av_map av) (unat (av_current_len av)) n))) \<and>
    map (\<lambda>a. handle_access \<lparr>h_append_vec = av, h_offset = sa_offset a\<rparr>)
        (accounts_spec (av_map av) (unat (av_current_len av)) n) =
      map (\<lambda>a. Done (Some a)) (accounts_spec (av_map av) (unat (av_current_len av)) n)"
  using assms(2,3)
proof (induction "av_map av" "unat (av_current_len av)" n rule: accounts_spec.induct)
  case (1 n)
  have u: "unat (word_of_nat n :: usize) = n"
    using "1.prems" by (simp add: unat_of_nat take_bit_nat_eq_self_iff)
  have g: "get_account av (word_of_nat n) = Done (map_option (map_prod id word_of_nat)
    (account_at (av_map av) (unat (av_current_len av)) n))"
    using get_account_wf [OF assms(1), of "word_of_nat n"] "1.prems" by (simp add: u)
  show ?case
  proof (cases "account_at (av_map av) (unat (av_current_len av)) n")
    case None
    then have s: "accounts_spec (av_map av) (unat (av_current_len av)) n = []"
      by (subst accounts_spec.simps) simp
    show ?thesis unfolding s by (subst offsets_from.simps) (simp add: g None)
  next
    case (Some p)
    obtain a n' where p: "p = (a, n')" by (cases p)
    note d = account_at_SomeD [OF Some [unfolded p]]
    have o: "sa_offset a = word_of_nat n"
      using Some p by (auto simp: account_at_def Let_def split: if_splits)
    have "n' < 2 ^ 64" using d(3) assms(1) by (simp add: av_wf_def)
    note ih = "1.hyps" [OF Some p [symmetric] d(2) this]
    have s: "accounts_spec (av_map av) (unat (av_current_len av)) n =
      a # accounts_spec (av_map av) (unat (av_current_len av)) n'"
      by (subst accounts_spec.simps) (simp add: Some p)
    show ?thesis unfolding s
      by (subst offsets_from.simps)
        (use ih in \<open>simp add: g Some p o handle_access_eq\<close>)
  qed
qed

text \<open>\<open>accounts_tile\<close>: the accounts follow each other without a gap, each inside the used bytes.\<close>

primrec accounts_tile :: "nat \<Rightarrow> nat \<Rightarrow> stored_account_meta list \<Rightarrow> bool" where
  "accounts_tile len n [] \<longleftrightarrow> True"
| "accounts_tile len n (a # as) \<longleftrightarrow>
     unat (sa_offset a) = n \<and> 8 dvd n \<and>
     length (sa_data a) = unat (data_len (meta a)) \<and>
     n + 136 + length (sa_data a) \<le> len \<and>
     length (sm_pubkey (meta a)) = 32 \<and> length (am_owner (account_meta a)) = 32 \<and>
     length (sa_hash a) = 32 \<and>
     unat (stored_size a) = align8 (136 + length (sa_data a)) \<and>
     accounts_tile len (n + unat (stored_size a)) as"

lemma accounts_spec_tile:
  assumes "len \<le> length bytes" "len + 8 \<le> 2 ^ 64" "8 dvd n"
  shows "accounts_tile len n (accounts_spec bytes len n)"
  using assms
proof (induction bytes len n rule: accounts_spec.induct)
  case (1 bytes len n)
  show ?case
  proof (cases "account_at bytes len n")
    case None
    then show ?thesis by (subst accounts_spec.simps) simp
  next
    case (Some p)
    obtain a n' where p: "p = (a, n')" by (cases p)
    note d = account_at_SomeD [OF Some [unfolded p]]
    have al: "align8 (n + 136 + k) = n + align8 (136 + k)" for k
      using "1.prems"(3) align8_add [of n "136 + k"] by (simp add: add.assoc)
    have n': "n' = n + align8 (136 + unat (data_len (meta a)))" using d(5) al by simp
    have f: "unat (sa_offset a) = n" "length (sa_data a) = unat (data_len (meta a))"
      "length (sm_pubkey (meta a)) = 32" "length (am_owner (account_meta a)) = 32"
      "length (sa_hash a) = 32" "unat (stored_size a) = align8 (136 + unat (data_len (meta a)))"
      using Some p d(3,4) n' "1.prems"
      by (auto simp: account_at_def Let_def decode_stored_meta_def decode_account_meta_def
          unat_of_nat take_bit_nat_eq_self_iff split: if_splits)
    have t: "accounts_tile len n' (accounts_spec bytes len n')"
      using "1.IH" [OF Some p [symmetric]] "1.prems" d(2) by simp
    show ?thesis
      using f d(4) t n' "1.prems"(3) by (subst accounts_spec.simps) (simp add: Some p)
  qed
qed

section \<open>Encoding\<close>

definition encode_stored_meta :: "stored_meta \<Rightarrow> u8 list" where
  "encode_stored_meta m = u64_to_le (write_version m) @ u64_to_le (data_len m) @ sm_pubkey m"

definition encode_account_meta :: "account_meta \<Rightarrow> u8 list" where
  "encode_account_meta m = u64_to_le (lamports m) @ u64_to_le (rent_epoch m) @ am_owner m @
     [of_bool (executable m)] @ replicate 7 0"

definition encode_account :: "stored_account_meta \<Rightarrow> u8 list" where
  "encode_account a =
     encode_stored_meta (meta a) @ encode_account_meta (account_meta a) @ sa_hash a @ sa_data a @
     replicate (align8 (136 + length (sa_data a)) - (136 + length (sa_data a))) 0"

definition valid_account :: "stored_account_meta \<Rightarrow> bool" where
  "valid_account a \<longleftrightarrow> length (sm_pubkey (meta a)) = 32 \<and> length (am_owner (account_meta a)) = 32 \<and>
     length (sa_hash a) = 32 \<and> unat (data_len (meta a)) = length (sa_data a)"

primrec located :: "nat \<Rightarrow> stored_account_meta list \<Rightarrow> stored_account_meta list" where
  "located n [] = []"
| "located n (a # as) =
     a\<lparr>sa_offset := word_of_nat n, stored_size := word_of_nat (length (encode_account a))\<rparr>
     # located (n + length (encode_account a)) as"

lemma length_encode_account:
  "valid_account a \<Longrightarrow> length (encode_account a) = align8 (136 + length (sa_data a))"
  using align8_ge [of "136 + length (sa_data a)"]
  by (simp add: encode_account_def encode_stored_meta_def encode_account_meta_def valid_account_def)

lemma decode_encode_stored_meta:
  "length (sm_pubkey m) = 32 \<Longrightarrow> decode_stored_meta (encode_stored_meta m) = m"
  by (cases m) (simp add: decode_stored_meta_def encode_stored_meta_def subrange_def)

lemma decode_encode_account_meta:
  "length (am_owner m) = 32 \<Longrightarrow> decode_account_meta (encode_account_meta m) = m"
  by (cases m) (simp add: decode_account_meta_def encode_account_meta_def subrange_def nth_append)

lemma account_at_encode:
  assumes v: "valid_account a" and al: "8 dvd length pre"
    and len: "len = length pre + length (encode_account a) + k"
  shows "account_at (pre @ encode_account a @ post) len (length pre) =
    Some (a\<lparr>sa_offset := word_of_nat (length pre), stored_size := word_of_nat (length (encode_account a))\<rparr>,
      length pre + length (encode_account a))"
proof -
  let ?n = "length pre" and ?pad = "replicate (align8 (136 + length (sa_data a)) - (136 + length (sa_data a))) 0"
  let ?sm = "encode_stored_meta (meta a)" and ?am = "encode_account_meta (account_meta a)"
  have l: "length ?sm = 48" "length ?am = 56" "length (sa_hash a) = 32"
    "unat (data_len (meta a)) = length (sa_data a)"
    using v by (simp_all add: valid_account_def encode_stored_meta_def encode_account_meta_def)
  have e: "pre @ encode_account a @ post =
    pre @ ?sm @ ?am @ sa_hash a @ sa_data a @ (?pad @ post)"
    by (simp add: encode_account_def)
  have s1: "subrange ?n (?n + 48) (pre @ encode_account a @ post) = ?sm"
    and s2: "subrange (?n + 48) (?n + 104) (pre @ encode_account a @ post) = ?am"
    and s3: "subrange (?n + 104) (?n + 136) (pre @ encode_account a @ post) = sa_hash a"
    and s4: "subrange (?n + 136) (?n + 136 + length (sa_data a)) (pre @ encode_account a @ post) = sa_data a"
    unfolding e using l by (simp_all add: subrange_def)
  have al': "align8 (?n + 136 + m) = ?n + align8 (136 + m)" for m
    using al align8_add [of ?n "136 + m"] by (simp add: add.assoc)
  have le: "136 + length (sa_data a) \<le> length (encode_account a)"
    using align8_ge [of "136 + length (sa_data a)"] v by (simp add: length_encode_account)
  have r: "\<lparr>meta = meta a, account_meta = account_meta a, sa_data = sa_data a, sa_offset = x,
    stored_size = y, sa_hash = sa_hash a\<rparr> = a\<lparr>sa_offset := x, stored_size := y\<rparr>" for x y
    by (cases a) simp
  show ?thesis
    using v le unfolding account_at_def s1 s2 s3 Let_def
    by (simp add: len l s4 r al' length_encode_account valid_account_def
        decode_encode_stored_meta decode_encode_account_meta)
qed


lemma accounts_spec_encode:
  assumes "\<forall>a \<in> set as. valid_account a" "8 dvd length pre"
    "len = length pre + length (concat (map encode_account as))"
  shows "accounts_spec (pre @ concat (map encode_account as) @ post) len (length pre) =
    located (length pre) as"
  using assms
proof (induction as arbitrary: pre)
  case Nil
  then show ?case by (subst accounts_spec.simps) (simp add: account_at_def)
next
  case (Cons a as)
  let ?rest = "concat (map encode_account as)"
  have at: "account_at (pre @ encode_account a @ (?rest @ post)) len (length pre) =
    Some (a\<lparr>sa_offset := word_of_nat (length pre), stored_size := word_of_nat (length (encode_account a))\<rparr>,
      length pre + length (encode_account a))"
    using Cons.prems by (intro account_at_encode [where k = "length ?rest"]) simp_all
  have "8 dvd length (encode_account a)"
    using Cons.prems(1) by (simp add: length_encode_account align8_dvd)
  then have "accounts_spec ((pre @ encode_account a) @ ?rest @ post) len (length (pre @ encode_account a)) =
    located (length (pre @ encode_account a)) as"
    using Cons.prems by (intro Cons.IH) (simp_all add: add.assoc)
  with at show ?case
    by (subst accounts_spec.simps) (simp add: add.assoc)
qed

definition zero_account :: stored_account_meta where
  "zero_account = \<lparr>meta = \<lparr>write_version = 0, data_len = 0, sm_pubkey = replicate 32 0\<rparr>,
     account_meta = account_meta_default, sa_data = [], sa_offset = 0, stored_size = 0,
     sa_hash = replicate 32 0\<rparr>"

lemma le_bytes_0: "le_bytes n 0 = replicate n 0"
  by (induction n) auto

lemma encode_zero_account: "encode_account zero_account = replicate 136 0"
proof -
  have "(0 :: u8) # xs = replicate 1 0 @ xs" for xs by simp
  then have "encode_account zero_account = replicate 8 0 @ replicate 8 0 @ replicate 32 0 @
    replicate 8 0 @ replicate 8 0 @ replicate 32 0 @ replicate 1 0 @ replicate 7 0 @ replicate 32 0"
    by (simp add: encode_account_def zero_account_def encode_stored_meta_def align8_def
        encode_account_meta_def account_meta_default_def u64_to_le_def le_bytes_0 del: replicate.simps
        replicate_Suc replicate_0)
  then show ?thesis by (simp only: replicate_add [symmetric]) simp
qed

lemma concat_replicate_replicate: "concat (replicate n (replicate m x)) = replicate (n * m) x"
  by (induction n) (auto simp: replicate_add)

lemma valid_zero_account: "valid_account zero_account"
  by (simp add: valid_account_def zero_account_def account_meta_default_def)

lemma new_from_reader_wf:
  assumes "new_from_reader rd ok len slot ident = Inr av" "unat len + 8 \<le> 2 ^ 64"
  shows "av_wf av"
  using assms by (auto simp: new_from_reader_def av_wf_def Let_def split: if_splits)

lemma new_from_file_wf:
  assumes "new_from_file file ok len slot ident = Inr av" "\<And>bs. file = Some bs \<Longrightarrow> length bs < 2 ^ 64"
  shows "av_wf av"
  using assms
  by (auto simp: new_from_file_def av_wf_def Let_def sanitize_len_and_size_def try_bind_eq_Inr_iff
      MAXIMUM_APPEND_VEC_FILE_SIZE_def word_less_nat_alt not_less unat_of_nat take_bit_nat_eq_self_iff
      split: if_splits option.splits)


section \<open>Properties\<close>

text \<open>C14: Reading back what was written: an AppendVec whose used bytes are the concatenated
  encodings of a list of accounts, followed by anything, iterates to exactly those accounts, in
  order, each with the offset and the stored size of its place in the file.\<close>

theorem append_vec_roundtrip:
  assumes "\<forall>a \<in> set as. valid_account a"
    and "length (concat (map encode_account as)) + 8 \<le> 2 ^ 64"
    and "av_map av = concat (map encode_account as) @ rest"
    and "av_current_len av = word_of_nat (length (concat (map encode_account as)))"
  shows "append_vec_accounts av = Some (Done (located 0 as))"
proof -
  let ?bs = "concat (map encode_account as)"
  have u: "unat (av_current_len av) = length ?bs"
    using assms(2,4) by (simp add: unat_of_nat take_bit_nat_eq_self_iff)
  then have "av_wf av" using assms(2,3) by (simp add: av_wf_def)
  then show ?thesis
    using accounts_spec_encode [OF assms(1), of "[]" "length ?bs" rest] u
    by (simp add: append_vec_accounts_total assms(3))
qed

definition sample_account :: stored_account_meta where
  "sample_account = zero_account\<lparr>meta := \<lparr>write_version = 7, data_len = 3, sm_pubkey = replicate 32 1\<rparr>,
     sa_data := [1, 2, 3]\<rparr>"

lemma append_vec_roundtrip_witness:
  "append_vec_accounts \<lparr>av_slot = 5, av_id = 9,
     av_map = concat (map encode_account [sample_account, zero_account]) @ [255],
     av_current_len = word_of_nat (length (concat (map encode_account [sample_account, zero_account]))),
     av_file_size = 281\<rparr> = Some (Done (located 0 [sample_account, zero_account]))"
proof (rule append_vec_roundtrip)
  show v: "\<forall>a \<in> set [sample_account, zero_account]. valid_account a"
    using valid_zero_account by (simp add: valid_account_def sample_account_def zero_account_def account_meta_default_def)
  show "length (concat (map encode_account [sample_account, zero_account])) + 8 \<le> 2 ^ 64"
    using v by (simp add: length_encode_account sample_account_def zero_account_def align8_def)
qed simp_all

text \<open>C15: On every well-formed AppendVec, whatever bytes it holds, the iterator returns: it neither
  runs forever nor indexes the map out of bounds, and the accounts it yields tile the file from
  offset 0, each 8-byte aligned, with its data and all its fixed fields inside the used bytes.\<close>

theorem append_vec_accounts_safe:
  assumes "av_wf av"
  shows "\<exists>as. append_vec_accounts av = Some (Done as) \<and> accounts_tile (unat (av_current_len av)) 0 as"
  using append_vec_accounts_total [OF assms] accounts_spec_tile assms by (auto simp: av_wf_def)

lemma append_vec_accounts_safe_witness:
  "\<exists>as. append_vec_accounts \<lparr>av_slot = 1, av_id = 2, av_map = replicate 200 255, av_current_len = 200,
     av_file_size = 200\<rparr> = Some (Done as) \<and> accounts_tile 200 0 as"
  using append_vec_accounts_safe [of "\<lparr>av_slot = 1, av_id = 2, av_map = replicate 200 255,
     av_current_len = 200, av_file_size = 200\<rparr>"] by (simp add: av_wf_def)

text \<open>C34: Both iterators agree: the handles collected by the older iterator carry the offsets of
  the accounts the newer one yields, and accessing a handle gives that account.\<close>

theorem append_vec_iter_accounts:
  assumes "av_wf av"
  shows "\<exists>hs as. append_vec_iter av = Some (Done hs) \<and> append_vec_accounts av = Some (Done as) \<and>
    map h_offset hs = map sa_offset as \<and> map handle_access hs = map (\<lambda>a. Done (Some a)) as"
  using append_vec_accounts_total [OF assms] offsets_from_spec [OF assms, of 0]
  by (simp add: append_vec_iter_def comp_def)

lemma append_vec_iter_accounts_witness:
  "\<exists>hs as. append_vec_iter \<lparr>av_slot = 1, av_id = 2, av_map = replicate 300 0, av_current_len = 280,
     av_file_size = 300\<rparr> = Some (Done hs) \<and>
    append_vec_accounts \<lparr>av_slot = 1, av_id = 2, av_map = replicate 300 0, av_current_len = 280,
     av_file_size = 300\<rparr> = Some (Done as) \<and>
    map h_offset hs = map sa_offset as \<and> map handle_access hs = map (\<lambda>a. Done (Some a)) as"
  by (rule append_vec_iter_accounts) (simp add: av_wf_def)

text \<open>C35: Opening a file succeeds exactly when it can be opened and mapped, is not empty, is at most
  16 GiB and holds at least the used length the manifest claims; the AppendVec is then well formed.\<close>

theorem new_from_file_ok:
  assumes "length bytes < 2 ^ 64"
  shows "(case new_from_file (Some bytes) ok len slot ident of
      Inr av \<Rightarrow> av_wf av \<and> av_map av = bytes \<and> av_current_len av = len \<and> av_slot av = slot \<and>
        av_id av = ident \<and> ok \<and> 0 < length bytes \<and> length bytes \<le> 16 * 1024 * 1024 * 1024 \<and>
        unat len \<le> length bytes
    | Inl e \<Rightarrow> \<not> (ok \<and> 0 < length bytes \<and> length bytes \<le> 16 * 1024 * 1024 * 1024 \<and>
        unat len \<le> length bytes))"
proof -
  have u: "unat (word_of_nat (length bytes) :: usize) = length bytes"
    using assms by (simp add: unat_of_nat take_bit_nat_eq_self_iff)
  then have z: "(word_of_nat (length bytes) :: usize) = 0 \<longleftrightarrow> bytes = []"
    by (metis length_0_conv unat_0 word_unat_eq_iff)
  show ?thesis
    by (auto simp: new_from_file_def sanitize_len_and_size_def Let_def z u word_less_nat_alt
        MAXIMUM_APPEND_VEC_FILE_SIZE_def av_wf_def)
qed

lemma new_from_file_ok_witness:
  "case new_from_file (Some [1, 2, 3]) True 2 4 2 of
      Inr av \<Rightarrow> av_wf av \<and> av_map av = [1, 2, 3] \<and> av_current_len av = 2 \<and> av_slot av = 4 \<and>
        av_id av = 2 | Inl e \<Rightarrow> False"
  using new_from_file_ok [of "[1, 2, 3]" True 2 4 2] by (simp split: sum.splits)



end
