(* ===== verification/Rows.thy ===== *)
theory Rows
  imports Append_Vec "HOL-Library.AList"
begin

text \<open>
  What is written and where: the rows of the ClickHouse tables, the snapshot kinds with their
  policies and the table groups of \<^verbatim>\<open>clickhouse.rs\<close>, the Metaplex account types of
  \<^verbatim>\<open>mpl_metadata.rs\<close>, and the record \<open>externals\<close> of the third-party decoders and printers the
  importer calls (Solana's base58 display of a key, the SPL token unpackers, the Borsh decoders,
  serde\_json).  Hash maps are association lists with distinct keys, read with \<^term>\<open>map_of\<close>.
\<close>

section \<open>Maps that keep the newest version\<close>

text \<open>
  \<open>entry(k).and_modify(|c| if v > *c { *c = v }).or_insert(v)\<close>.
\<close>

definition upsert_max :: "'k \<Rightarrow> 'v :: linorder \<Rightarrow> ('k \<times> 'v) list \<Rightarrow> ('k \<times> 'v) list" where
  "upsert_max k v al = AList.update k (case map_of al k of None \<Rightarrow> v | Some c \<Rightarrow> if c < v then v else c) al"

definition max_opt :: "'v :: linorder option \<Rightarrow> 'v option \<Rightarrow> 'v option" where
  "max_opt a b = (case (a, b) of (None, y) \<Rightarrow> y | (x, None) \<Rightarrow> x | (Some x, Some y) \<Rightarrow> Some (max x y))"

lemma max_opt_simps [simp]: "max_opt None y = y" "max_opt x None = x"
  "max_opt (Some a) (Some b) = Some (max a b)"
  by (simp_all add: max_opt_def split: option.split)

lemma max_opt_commute: "max_opt a b = max_opt b a"
  by (cases a; cases b) (simp_all add: max.commute)

lemma max_opt_assoc: "max_opt (max_opt a b) c = max_opt a (max_opt b c)"
  by (cases a; cases b; cases c) (simp_all add: max.assoc)

lemma max_opt_left_commute: "max_opt a (max_opt b c) = max_opt b (max_opt a c)"
  by (metis max_opt_assoc max_opt_commute)

lemmas max_opt_ac = max_opt_commute max_opt_left_commute max_opt_assoc

lemma map_of_upsert_max:
  "map_of (upsert_max k v al) = (map_of al)(k := max_opt (map_of al k) (Some v))"
  by (auto simp: upsert_max_def update_conv max_def split: option.split)

lemma distinct_upsert_max: "distinct (map fst al) \<Longrightarrow> distinct (map fst (upsert_max k v al))"
  unfolding upsert_max_def by (rule distinct_update)

text \<open>The union of two such maps, as a fold over the second.\<close>

definition merge_max :: "('k \<times> 'v :: linorder) list \<Rightarrow> ('k \<times> 'v) list \<Rightarrow> ('k \<times> 'v) list" where
  "merge_max al bl = fold (\<lambda>(k, v). upsert_max k v) bl al"

lemma map_of_merge_max:
  assumes "distinct (map fst bl)"
  shows "map_of (merge_max al bl) k = max_opt (map_of al k) (map_of bl k)"
  using assms
proof (induction bl arbitrary: al)
  case (Cons p bl)
  obtain k' v where p: "p = (k', v)" by (cases p)
  have "map_of (merge_max al (p # bl)) k =
    max_opt (map_of (upsert_max k' v al) k) (map_of bl k)"
    using Cons by (simp add: merge_max_def p)
  moreover have "map_of bl k' = None" using Cons.prems by (simp add: p map_of_eq_None_iff)
  ultimately show ?case by (simp add: map_of_upsert_max p)
qed (simp add: merge_max_def)

lemma distinct_merge_max: "distinct (map fst al) \<Longrightarrow> distinct (map fst (merge_max al bl))"
  by (induction bl arbitrary: al) (auto simp: merge_max_def distinct_upsert_max split_def)

section \<open>Kinds and groups\<close>

datatype snapshot_kind = Full | Incremental

datatype zero_balance_policy = ExcludeFromFullBaseline | Retain

fun collect_close_tombstones :: "snapshot_kind \<Rightarrow> bool" where
  "collect_close_tombstones Full = False"
| "collect_close_tombstones Incremental = True"

fun zero_balance_token_account_policy :: "snapshot_kind \<Rightarrow> zero_balance_policy" where
  "zero_balance_token_account_policy Full = ExcludeFromFullBaseline"
| "zero_balance_token_account_policy Incremental = Retain"

fun snapshot_kind_as_str :: "snapshot_kind \<Rightarrow> string" where
  "snapshot_kind_as_str Full = ''full''"
| "snapshot_kind_as_str Incremental = ''incremental''"

definition writes_live_amount :: "zero_balance_policy \<Rightarrow> u64 \<Rightarrow> bool" where
  "writes_live_amount policy amount \<longleftrightarrow> 0 < amount \<or> policy = Retain"

datatype table_group = Active | Backup

fun group_as_str :: "table_group \<Rightarrow> string" where
  "group_as_str Active = ''active''"
| "group_as_str Backup = ''backup''"

fun group_suffix :: "table_group \<Rightarrow> string" where
  "group_suffix Active = ''''"
| "group_suffix Backup = ''_bak''"

definition group_table :: "table_group \<Rightarrow> string \<Rightarrow> string" where
  "group_table g base = base @ group_suffix g"

definition ACCOUNT_TABLE :: string where "ACCOUNT_TABLE = ''raw_account''"
definition TOKEN_MINT_TABLE :: string where "TOKEN_MINT_TABLE = ''raw_token_mint''"
definition TOKEN_METADATA_TABLE :: string where "TOKEN_METADATA_TABLE = ''raw_token_metadata''"

definition RAW_TABLES :: "string list" where
  "RAW_TABLES = [ACCOUNT_TABLE, TOKEN_MINT_TABLE, TOKEN_METADATA_TABLE]"

definition GROUP_HOT_TABLES :: "string list" where
  "GROUP_HOT_TABLES = [''hot_token_account_state'', ''hot_token_info'', ''hot_wallet_token_balance'']"

definition GROUP_MERGE_TABLES :: "string list" where
  "GROUP_MERGE_TABLES = [ACCOUNT_TABLE, TOKEN_MINT_TABLE, TOKEN_METADATA_TABLE,
     ''hot_token_account_state'', ''hot_token_info'', ''hot_wallet_token_balance'']"

lemmas table_name_defs = ACCOUNT_TABLE_def TOKEN_MINT_TABLE_def TOKEN_METADATA_TABLE_def

lemma group_tables_disjoint:
  "set (map (group_table Active) GROUP_MERGE_TABLES) \<inter> set (map (group_table Backup) GROUP_MERGE_TABLES) = {}"
  by (simp add: GROUP_MERGE_TABLES_def group_table_def table_name_defs)

lemma group_tables_raw_hot: "set GROUP_MERGE_TABLES = set RAW_TABLES \<union> set GROUP_HOT_TABLES"
  by (auto simp: GROUP_MERGE_TABLES_def RAW_TABLES_def GROUP_HOT_TABLES_def)

section \<open>Rows\<close>

record account_row =
  ar_pubkey :: string
  ar_owner :: string
  ar_lamports :: u64
  ar_data_len :: u64
  ar_executable :: bool
  ar_updated_slot :: u64

record token_account_row =
  ta_pubkey :: string
  ta_mint :: string
  ta_owner :: string
  ta_amount :: u64
  ta_delegate :: "string option"
  ta_delegated_amount :: u64
  ta_state :: u8
  ta_close_authority :: "string option"
  ta_is_deleted :: u8
  ta_updated_slot :: u64

record token_mint_row =
  tm_mint :: string
  tm_mint_authority :: "string option"
  tm_supply :: u64
  tm_decimals :: u8
  tm_is_initialized :: bool
  tm_freeze_authority :: "string option"
  tm_updated_slot :: u64

record token_metadata_row =
  md_mint :: string
  md_name :: string
  md_symbol :: string
  md_uri :: string
  md_update_authority :: string
  md_is_mutable :: bool
  md_token_standard :: "u8 option"
  md_seller_fee_basis_points :: u16
  md_creators :: "string list"
  md_extensions :: string
  md_updated_slot :: u64

datatype row =
    RAccount account_row
  | RTokenAccount token_account_row
  | RTokenMint token_mint_row
  | RTokenMetadata token_metadata_row

section \<open>Decoded accounts\<close>

text \<open>The fields of the SPL token states that the importer reads.\<close>

record token_account =
  tka_mint :: pubkey
  tka_owner :: pubkey
  tka_amount :: u64
  tka_delegate :: "pubkey option"
  tka_delegated_amount :: u64
  tka_state :: u8
  tka_close_authority :: "pubkey option"

record token_mint =
  tkm_mint_authority :: "pubkey option"
  tkm_supply :: u64
  tkm_decimals :: u8
  tkm_is_initialized :: bool
  tkm_freeze_authority :: "pubkey option"

datatype account_key =
    Uninitialized | EditionV1 | MasterEditionV1 | ReservationListV1 | MetadataV1
  | ReservationListV2 | MasterEditionV2 | EditionMarker | UseAuthorityRecord | CollectionAuthorityRecord

record mpl_creator =
  cr_address :: pubkey
  cr_verified :: bool
  cr_share :: u8

record mpl_data =
  mp_name :: string
  mp_symbol :: string
  mp_uri :: string
  mp_seller_fee_basis_points :: u16
  mp_creators :: "mpl_creator list option"

record mpl_metadata =
  mp_update_authority :: pubkey
  mp_mint :: pubkey
  mp_data :: mpl_data
  mp_primary_sale_happened :: bool
  mp_is_mutable :: bool

record mpl_collection =
  col_verified :: bool
  col_key :: pubkey

record mpl_uses =
  use_method :: u8
  use_remaining :: u64
  use_total :: u64

record mpl_metadata_ext =
  edition_nonce :: "u8 option"

record mpl_metadata_ext_v1_2 =
  token_standard :: "u8 option"
  mx_collection :: "mpl_collection option"
  mx_uses :: "mpl_uses option"

datatype json =
    JNull
  | JString string
  | JNumber nat
  | JObject "(string \<times> json) list"

text \<open>
  The third-party code the importer calls.  The Borsh decoders consume a prefix of the bytes and
  return the rest.
\<close>

record externals =
  pubkey_string :: "pubkey \<Rightarrow> string"
  spl_token_id :: pubkey
  token_2022_id :: pubkey
  mpl_metadata_id :: pubkey
  spl_account_len :: nat
  spl_mint_len :: nat
  spl_unpack_account :: "u8 list \<Rightarrow> token_account option"
  spl_unpack_mint :: "u8 list \<Rightarrow> token_mint option"
  t22_unpack_account :: "u8 list \<Rightarrow> token_account option"
  t22_unpack_mint :: "u8 list \<Rightarrow> token_mint option"
  borsh_account_key :: "u8 list \<Rightarrow> (account_key \<times> u8 list) option"
  borsh_metadata :: "u8 list \<Rightarrow> (mpl_metadata \<times> u8 list) option"
  borsh_metadata_ext :: "u8 list \<Rightarrow> (mpl_metadata_ext \<times> u8 list) option"
  borsh_metadata_ext_v1_2 :: "u8 list \<Rightarrow> (mpl_metadata_ext_v1_2 \<times> u8 list) option"
  json_to_string :: "json list \<Rightarrow> string option"

type_synonym token_pair = "string \<times> string"

end
