(* ===== verification/Sink.thy ===== *)
theory Sink
  imports Rows
begin

text \<open>
  \<^verbatim>\<open>ClickhouseSink\<close>: four open INSERT streams, one per table, with their batch and age limits.  The
  client library's \<^verbatim>\<open>Inserter\<close> is the record \<open>ins_ops\<close> of its operations; what the code relies on is
  the locale \<open>inserter\<close>.  The four streams are a function of the table, their counters and opening
  times too; clock readings come from an arbitrary sequence.  The semaphore that limits concurrent
  finalisations only delays them, unless it is closed.  Row and byte counts are natural numbers.
\<close>

section \<open>Inserters\<close>

record quantities =
  q_rows :: nat
  q_bytes :: nat
  q_transactions :: nat

definition quantities_zero :: quantities where
  "quantities_zero = \<lparr>q_rows = 0, q_bytes = 0, q_transactions = 0\<rparr>"

record 'i ins_ops =
  op_new :: "string \<Rightarrow> 'i"
  op_write :: "row \<Rightarrow> 'i \<Rightarrow> (string + unit) \<times> 'i"
  op_pending_rows :: "'i \<Rightarrow> nat"
  op_pending_bytes :: "'i \<Rightarrow> nat"
  op_force_commit :: "'i \<Rightarrow> (string + quantities) \<times> 'i"
  op_end :: "'i \<Rightarrow> (string + quantities) \<times> 'i"

definition MAX_BATCH_ROWS :: nat where "MAX_BATCH_ROWS = 1000000"
definition MAX_BATCH_BYTES :: nat where "MAX_BATCH_BYTES = 256 * 1024 * 1024"
definition BATCH_LIMIT_CHECK_INTERVAL :: u16 where "BATCH_LIMIT_CHECK_INTERVAL = 1024"
definition FLUSH_CHECK_INTERVAL :: u16 where "FLUSH_CHECK_INTERVAL = 1024"

text \<open>Durations are milliseconds.\<close>

definition MAX_OPEN_INSERT_AGE :: nat where "MAX_OPEN_INSERT_AGE = 5000"

lemmas sink_limits = MAX_BATCH_ROWS_def MAX_BATCH_BYTES_def BATCH_LIMIT_CHECK_INTERVAL_def
  FLUSH_CHECK_INTERVAL_def MAX_OPEN_INSERT_AGE_def

text \<open>The gate: \<open>None\<close> without a semaphore, otherwise whether it has been closed.\<close>

type_synonym insert_gate = "bool option"

definition acquire_insert_permit :: "insert_gate \<Rightarrow> string + unit" where
  "acquire_insert_permit gate = (if gate = Some True then Inl ''semaphore closed'' else Inr ())"

definition force_commit_with_gate ::
  "'i ins_ops \<Rightarrow> insert_gate \<Rightarrow> 'i \<Rightarrow> (string + quantities) \<times> 'i" where
  "force_commit_with_gate ops gate i =
     (if op_pending_rows ops i = 0 then (Inr quantities_zero, i)
      else case acquire_insert_permit gate of
        Inl e \<Rightarrow> (Inl e, i)
      | Inr _ \<Rightarrow> op_force_commit ops i)"

definition end_with_gate ::
  "'i ins_ops \<Rightarrow> insert_gate \<Rightarrow> 'i \<Rightarrow> (string + quantities) \<times> 'i" where
  "end_with_gate ops gate i =
     (if op_pending_rows ops i = 0 then (Inr quantities_zero, i)
      else case acquire_insert_permit gate of
        Inl e \<Rightarrow> (Inl e, i)
      | Inr _ \<Rightarrow> op_end ops i)"

definition check_batch_limit ::
  "'i ins_ops \<Rightarrow> insert_gate \<Rightarrow> 'i \<Rightarrow> u16 \<Rightarrow> (string + unit) \<times> 'i \<times> u16" where
  "check_batch_limit ops gate i rows_since =
     (let n = rows_since + 1 in
      if n \<noteq> BATCH_LIMIT_CHECK_INTERVAL then (Inr (), i, n)
      else if MAX_BATCH_ROWS \<le> op_pending_rows ops i \<or> MAX_BATCH_BYTES \<le> op_pending_bytes ops i
      then (case force_commit_with_gate ops gate i of
          (Inl e, i') \<Rightarrow> (Inl e, i', n)
        | (Inr _, i') \<Rightarrow> (Inr (), i', 0))
      else (Inr (), i, 0))"

definition force_aged_inserter ::
  "'i ins_ops \<Rightarrow> insert_gate \<Rightarrow> nat \<Rightarrow> 'i \<Rightarrow> nat option \<Rightarrow> (string + unit) \<times> 'i \<times> nat option" where
  "force_aged_inserter ops gate now i opened_at =
     (if op_pending_rows ops i = 0 then (Inr (), i, None)
      else case opened_at of
        None \<Rightarrow> (Inr (), i, None)
      | Some started \<Rightarrow>
          if MAX_OPEN_INSERT_AGE \<le> now - started
          then (case force_commit_with_gate ops gate i of
              (Inl e, i') \<Rightarrow> (Inl e, i', opened_at)
            | (Inr _, i') \<Rightarrow> (Inr (), i', None))
          else (Inr (), i, opened_at))"

section \<open>The sink\<close>

datatype sink_table = TAccount | TTokenAccount | TTokenMint | TTokenMetadata

fun sink_table_name :: "table_group \<Rightarrow> sink_table \<Rightarrow> string" where
  "sink_table_name g TAccount = group_table g ACCOUNT_TABLE"
| "sink_table_name g TTokenAccount = group_table g ''hot_token_account_state''"
| "sink_table_name g TTokenMint = group_table g TOKEN_MINT_TABLE"
| "sink_table_name g TTokenMetadata = group_table g TOKEN_METADATA_TABLE"

record 'i sink =
  sk_gate :: insert_gate
  sk_inserter :: "sink_table \<Rightarrow> 'i"
  sk_rows_since :: "sink_table \<Rightarrow> u16"
  sk_flush_check_counter :: u16
  sk_opened_at :: "sink_table \<Rightarrow> nat option"
  sk_clock :: "nat \<Rightarrow> nat"
  sk_readings :: nat

type_synonym ('i, 'a) sink_op = "('i sink, string, 'a) op"

definition sink_new :: "'i ins_ops \<Rightarrow> insert_gate \<Rightarrow> table_group \<Rightarrow> (nat \<Rightarrow> nat) \<Rightarrow> 'i sink" where
  "sink_new ops gate g clock = \<lparr>sk_gate = gate, sk_inserter = (\<lambda>t. op_new ops (sink_table_name g t)),
     sk_rows_since = (\<lambda>_. 0), sk_flush_check_counter = 0, sk_opened_at = (\<lambda>_. None),
     sk_clock = clock, sk_readings = 0\<rparr>"

definition instant_now :: "('i, nat) sink_op" where
  "instant_now s = (Inr (sk_clock s (sk_readings s)), s\<lparr>sk_readings := Suc (sk_readings s)\<rparr>)"

definition pending_empty :: "'i ins_ops \<Rightarrow> 'i sink \<Rightarrow> sink_table \<Rightarrow> bool" where
  "pending_empty ops s t \<longleftrightarrow> op_pending_rows ops (sk_inserter s t) = 0"

definition clear_open_timestamp_if_empty :: "'i ins_ops \<Rightarrow> 'i sink \<Rightarrow> 'i sink" where
  "clear_open_timestamp_if_empty ops s =
     s\<lparr>sk_opened_at := (\<lambda>t. if pending_empty ops s t then None else sk_opened_at s t)\<rparr>"

definition has_pending_rows :: "'i ins_ops \<Rightarrow> 'i sink \<Rightarrow> bool" where
  "has_pending_rows ops s \<longleftrightarrow> \<not> pending_empty ops s TAccount \<or> \<not> pending_empty ops s TTokenAccount \<or>
     \<not> pending_empty ops s TTokenMint \<or> \<not> pending_empty ops s TTokenMetadata"

text \<open>The steps of a \<^verbatim>\<open>write_*\<close> method on the stream of its table.\<close>

definition stamp_if_empty :: "'i ins_ops \<Rightarrow> sink_table \<Rightarrow> ('i, unit) sink_op" where
  "stamp_if_empty ops t s =
     (if pending_empty ops s t
      then sbind instant_now (\<lambda>now. supdate (\<lambda>s. s\<lparr>sk_opened_at := (sk_opened_at s)(t := Some now)\<rparr>)) s
      else (Inr (), s))"

definition inserter_write :: "'i ins_ops \<Rightarrow> sink_table \<Rightarrow> row \<Rightarrow> ('i, unit) sink_op" where
  "inserter_write ops t r s =
     (case op_write ops r (sk_inserter s t) of
        (res, i') \<Rightarrow> (res, s\<lparr>sk_inserter := (sk_inserter s)(t := i')\<rparr>))"

definition sink_check_batch :: "'i ins_ops \<Rightarrow> sink_table \<Rightarrow> ('i, unit) sink_op" where
  "sink_check_batch ops t s =
     (case check_batch_limit ops (sk_gate s) (sk_inserter s t) (sk_rows_since s t) of
        (res, i', n) \<Rightarrow> (res, s\<lparr>sk_inserter := (sk_inserter s)(t := i'),
                              sk_rows_since := (sk_rows_since s)(t := n)\<rparr>))"

definition write_row :: "'i ins_ops \<Rightarrow> sink_table \<Rightarrow> row \<Rightarrow> ('i, unit) sink_op" where
  "write_row ops t r =
     sthen (stamp_if_empty ops t)
    (sthen (inserter_write ops t r)
    (sthen (sink_check_batch ops t)
           (supdate (clear_open_timestamp_if_empty ops))))"

definition write_account :: "'i ins_ops \<Rightarrow> account_row \<Rightarrow> ('i, unit) sink_op" where
  "write_account ops r = write_row ops TAccount (RAccount r)"

definition write_token_account :: "'i ins_ops \<Rightarrow> token_account_row \<Rightarrow> ('i, unit) sink_op" where
  "write_token_account ops r = write_row ops TTokenAccount (RTokenAccount r)"

definition write_token_mint :: "'i ins_ops \<Rightarrow> token_mint_row \<Rightarrow> ('i, unit) sink_op" where
  "write_token_mint ops r = write_row ops TTokenMint (RTokenMint r)"

definition write_token_metadata :: "'i ins_ops \<Rightarrow> token_metadata_row \<Rightarrow> ('i, unit) sink_op" where
  "write_token_metadata ops r = write_row ops TTokenMetadata (RTokenMetadata r)"

definition sink_force_aged :: "'i ins_ops \<Rightarrow> nat \<Rightarrow> sink_table \<Rightarrow> ('i, unit) sink_op" where
  "sink_force_aged ops now t s =
     (case force_aged_inserter ops (sk_gate s) now (sk_inserter s t) (sk_opened_at s t) of
        (res, i', opened) \<Rightarrow> (res, s\<lparr>sk_inserter := (sk_inserter s)(t := i'),
                                   sk_opened_at := (sk_opened_at s)(t := opened)\<rparr>))"

definition sink_tables :: "sink_table list" where
  "sink_tables = [TAccount, TTokenAccount, TTokenMint, TTokenMetadata]"

definition maybe_force_commit :: "'i ins_ops \<Rightarrow> ('i, unit) sink_op" where
  "maybe_force_commit ops =
     sthen (supdate (\<lambda>s. s\<lparr>sk_flush_check_counter := sk_flush_check_counter s + 1\<rparr>))
    (sbind (sread sk_flush_check_counter) (\<lambda>n.
       if n \<noteq> FLUSH_CHECK_INTERVAL then sreturn ()
       else sthen (supdate (\<lambda>s. s\<lparr>sk_flush_check_counter := 0\<rparr>))
           (sbind instant_now (\<lambda>now. sfor (sink_force_aged ops now) sink_tables))))"

definition sink_force_commit :: "'i ins_ops \<Rightarrow> sink_table \<Rightarrow> ('i, unit) sink_op" where
  "sink_force_commit ops t s =
     (case force_commit_with_gate ops (sk_gate s) (sk_inserter s t) of
        (res, i') \<Rightarrow> ((case res of Inl e \<Rightarrow> Inl e | Inr _ \<Rightarrow> Inr ()), s\<lparr>sk_inserter := (sk_inserter s)(t := i')\<rparr>))"

definition force_commit_all :: "'i ins_ops \<Rightarrow> ('i, unit) sink_op" where
  "force_commit_all ops s =
     (if \<not> has_pending_rows ops s then (Inr (), s)
      else sthen (sfor (sink_force_commit ops) sink_tables)
             (supdate (\<lambda>s. s\<lparr>sk_opened_at := (\<lambda>_. None)\<rparr>)) s)"

definition sink_end_one :: "'i ins_ops \<Rightarrow> sink_table \<Rightarrow> ('i, unit) sink_op" where
  "sink_end_one ops t s =
     (case end_with_gate ops (sk_gate s) (sk_inserter s t) of
        (res, i') \<Rightarrow> ((case res of Inl e \<Rightarrow> Inl e | Inr _ \<Rightarrow> Inr ()), s\<lparr>sk_inserter := (sk_inserter s)(t := i')\<rparr>))"

definition sink_end :: "'i ins_ops \<Rightarrow> ('i, unit) sink_op" where
  "sink_end ops = sfor (sink_end_one ops) sink_tables"

section \<open>Views of a sink\<close>

text \<open>The rows a stream has taken, confirmed or not.\<close>

definition sink_taken :: "('i \<Rightarrow> row list) \<Rightarrow> ('i \<Rightarrow> row list) \<Rightarrow> 'i sink \<Rightarrow> sink_table \<Rightarrow> row list" where
  "sink_taken committed pending s t = committed (sk_inserter s t) @ pending (sk_inserter s t)"

text \<open>
  The invariant of a sink between calls: a stream is stamped exactly when it has pending rows, its
  batch counter is in range and bounds its pending rows, and the flush counter is in range.
\<close>

definition sink_inv :: "('i \<Rightarrow> row list) \<Rightarrow> 'i sink \<Rightarrow> bool" where
  "sink_inv pending s \<longleftrightarrow> sk_flush_check_counter s < 1024 \<and>
     (\<forall>t. sk_rows_since s t < 1024 \<and>
       length (pending (sk_inserter s t)) < 1000000 + unat (sk_rows_since s t) \<and>
       (pending (sk_inserter s t) = [] \<longleftrightarrow> sk_opened_at s t = None))"

section \<open>What the client library promises\<close>

text \<open>
  \<open>committed i\<close> are the rows the stream has had confirmed, \<open>pending i\<close> the rows handed to it since.
  A successful write adds one pending row, a successful commit or end confirms all pending rows, in
  order; a failure confirms at most a prefix of them and invents nothing.
\<close>

locale inserter =
  fixes ops :: "'i ins_ops"
    and committed :: "'i \<Rightarrow> row list"
    and pending :: "'i \<Rightarrow> row list"
  assumes new_empty: "committed (op_new ops table) = [] \<and> pending (op_new ops table) = []"
    and pending_rows: "op_pending_rows ops i = length (pending i)"
    and write_ok: "op_write ops r i = (Inr u, i') \<Longrightarrow> committed i' = committed i \<and> pending i' = pending i @ [r]"
    and commit_ok: "op_force_commit ops i = (Inr q, i') \<Longrightarrow> committed i' = committed i @ pending i \<and> pending i' = []"
    and end_ok: "op_end ops i = (Inr q, i') \<Longrightarrow> committed i' = committed i @ pending i \<and> pending i' = []"
begin

abbreviation taken :: "'i sink \<Rightarrow> sink_table \<Rightarrow> row list" where
  "taken \<equiv> sink_taken committed pending"

lemmas taken_def = sink_taken_def

lemma pending_zero: "op_pending_rows ops i = 0 \<longleftrightarrow> pending i = []"
  by (simp add: pending_rows)

lemma pending_empty_iff: "pending_empty ops s t \<longleftrightarrow> pending (sk_inserter s t) = []"
  by (simp add: pending_empty_def pending_zero)

lemma gate_commit:
  assumes "force_commit_with_gate ops gate i = (Inr q, i')"
  shows "committed i' = committed i @ pending i \<and> pending i' = []"
  using assms commit_ok by (auto simp: force_commit_with_gate_def pending_zero split: if_splits sum.splits)

lemma gate_end:
  assumes "end_with_gate ops gate i = (Inr q, i')"
  shows "committed i' = committed i @ pending i \<and> pending i' = []"
  using assms end_ok by (auto simp: end_with_gate_def pending_zero split: if_splits sum.splits)

lemma check_batch_ok:
  assumes "check_batch_limit ops gate i n = (Inr u, i', n')"
  shows "committed i' @ pending i' = committed i @ pending i"
    and "n < 1024 \<Longrightarrow> length (pending i) \<le> 1000000 + unat n \<Longrightarrow>
      n' < 1024 \<and> length (pending i') < 1000000 + unat n' \<or> n' < 1024 \<and> pending i' = []"
proof -
  show "committed i' @ pending i' = committed i @ pending i"
    using assms gate_commit by (fastforce simp: check_batch_limit_def Let_def split: if_splits prod.splits sum.splits)
  assume n: "n < 1024" and l: "length (pending i) \<le> 1000000 + unat n"
  show "n' < 1024 \<and> length (pending i') < 1000000 + unat n' \<or> n' < 1024 \<and> pending i' = []"
  proof (cases "n + 1 = BATCH_LIMIT_CHECK_INTERVAL")
    case False
    then have i: "i' = i" "n' = n + 1" using assms by (auto simp: check_batch_limit_def Let_def)
    have "unat n < 1024" using n by (simp add: word_less_nat_alt)
    then have u: "unat (n + 1) = unat n + 1" by (subst unat_add_no_wrap) simp_all
    moreover have "unat (n + 1) \<noteq> 1024"
      using False by (simp add: BATCH_LIMIT_CHECK_INTERVAL_def word_unat_eq_iff)
    ultimately show ?thesis using i l \<open>unat n < 1024\<close> by (simp add: word_less_nat_alt)
  next
    case at: True
    show ?thesis
    proof (cases "MAX_BATCH_ROWS \<le> op_pending_rows ops i \<or> MAX_BATCH_BYTES \<le> op_pending_bytes ops i")
      case True
      then obtain q where "force_commit_with_gate ops gate i = (Inr q, i')" "n' = 0"
        using assms at by (auto simp: check_batch_limit_def Let_def split: prod.splits sum.splits)
      then show ?thesis using gate_commit by fastforce
    next
      case False
      then have "i' = i" "n' = 0" using assms at by (auto simp: check_batch_limit_def Let_def)
      moreover have "length (pending i) < 1000000"
        using False by (simp add: pending_rows MAX_BATCH_ROWS_def)
      ultimately show ?thesis by simp
    qed
  qed
qed

lemma force_aged_ok:
  assumes "force_aged_inserter ops gate now i opened = (Inr u, i', opened')"
  shows "committed i' @ pending i' = committed i @ pending i \<and>
    (pending i' = [] \<or> i' = i \<and> opened' = opened) \<and>
    (pending i' = [] \<longrightarrow> opened' = None) \<and>
    (\<forall>t. opened' = Some t \<longrightarrow> now - t < 5000)"
proof (cases "op_pending_rows ops i = 0")
  case True
  then show ?thesis using assms pending_zero by (auto simp: force_aged_inserter_def)
next
  case False
  show ?thesis
  proof (cases opened)
    case None
    then show ?thesis using assms False pending_zero by (auto simp: force_aged_inserter_def)
  next
    case (Some started)
    show ?thesis
    proof (cases "MAX_OPEN_INSERT_AGE \<le> now - started")
      case True
      then obtain q where "force_commit_with_gate ops gate i = (Inr q, i')" "opened' = None"
        using assms False Some by (auto simp: force_aged_inserter_def split: prod.splits sum.splits)
      then show ?thesis using gate_commit by fastforce
    next
      case fresh: False
      then have "i' = i" "opened' = opened"
        using assms False Some by (auto simp: force_aged_inserter_def)
      then show ?thesis using fresh False Some pending_zero by (simp add: MAX_OPEN_INSERT_AGE_def)
    qed
  qed
qed

end

context inserter
begin

abbreviation inv :: "'i sink \<Rightarrow> bool" where
  "inv \<equiv> sink_inv pending"

lemma taken_new: "taken (sink_new ops gate g clock) t = []"
  by (simp add: taken_def sink_new_def new_empty)

lemma inv_new: "inv (sink_new ops gate g clock)"
  by (simp add: sink_inv_def sink_new_def new_empty)

lemma stamp_ok:
  assumes "stamp_if_empty ops t s = (Inr u, s')"
  shows "sk_inserter s' = sk_inserter s \<and> sk_rows_since s' = sk_rows_since s \<and>
    sk_flush_check_counter s' = sk_flush_check_counter s \<and>
    (\<forall>x. x \<noteq> t \<longrightarrow> sk_opened_at s' x = sk_opened_at s x) \<and>
    (pending (sk_inserter s t) \<noteq> [] \<longrightarrow> sk_opened_at s' t = sk_opened_at s t) \<and>
    (pending (sk_inserter s t) = [] \<longrightarrow> sk_opened_at s' t \<noteq> None)"
  using assms by (auto simp: stamp_if_empty_def pending_empty_iff op_success instant_now_def split: if_splits)

lemma write_row_steps:
  assumes "write_row ops t r s = (Inr u, s')"
  obtains s1 i2 i3 n where "stamp_if_empty ops t s = (Inr (), s1)"
    "op_write ops r (sk_inserter s1 t) = (Inr (), i2)"
    "check_batch_limit ops (sk_gate s1) i2 (sk_rows_since s1 t) = (Inr (), i3, n)"
    "s' = clear_open_timestamp_if_empty ops (s1\<lparr>sk_inserter := (sk_inserter s1)(t := i3),
       sk_rows_since := (sk_rows_since s1)(t := n)\<rparr>)"
proof -
  obtain s1 s2 s3 where s1: "stamp_if_empty ops t s = (Inr (), s1)"
    and s2: "inserter_write ops t r s1 = (Inr (), s2)" and s3: "sink_check_batch ops t s2 = (Inr (), s3)"
    and s': "s' = clear_open_timestamp_if_empty ops s3"
    using assms by (auto simp: write_row_def op_success)
  obtain i2 where i2: "op_write ops r (sk_inserter s1 t) = (Inr (), i2)"
    "s2 = s1\<lparr>sk_inserter := (sk_inserter s1)(t := i2)\<rparr>"
    using s2 by (auto simp: inserter_write_def split: prod.splits)
  obtain i3 n where "check_batch_limit ops (sk_gate s1) i2 (sk_rows_since s1 t) = (Inr (), i3, n)"
    "s3 = s2\<lparr>sk_inserter := (sk_inserter s2)(t := i3), sk_rows_since := (sk_rows_since s2)(t := n)\<rparr>"
    using s3 i2(2) by (auto simp: sink_check_batch_def split: prod.splits)
  with s1 i2 s' show thesis by (intro that) simp_all
qed

lemma write_row_taken:
  assumes "write_row ops t r s = (Inr u, s')"
  shows "taken s' = (taken s)(t := taken s t @ [r])"
proof -
  obtain s1 i2 i3 n where w: "stamp_if_empty ops t s = (Inr (), s1)"
    "op_write ops r (sk_inserter s1 t) = (Inr (), i2)"
    "check_batch_limit ops (sk_gate s1) i2 (sk_rows_since s1 t) = (Inr (), i3, n)"
    "s' = clear_open_timestamp_if_empty ops (s1\<lparr>sk_inserter := (sk_inserter s1)(t := i3),
       sk_rows_since := (sk_rows_since s1)(t := n)\<rparr>)"
    by (rule write_row_steps [OF assms])
  have "sk_inserter s1 = sk_inserter s" using stamp_ok [OF w(1)] by simp
  then show ?thesis
    using write_ok [OF w(2)] check_batch_ok(1) [OF w(3)] w(4)
    by (auto simp: taken_def clear_open_timestamp_if_empty_def fun_eq_iff)
qed

lemma write_row_inv:
  assumes "write_row ops t r s = (Inr u, s')" "inv s"
  shows "inv s'"
proof -
  obtain s1 i2 i3 n where w: "stamp_if_empty ops t s = (Inr (), s1)"
    "op_write ops r (sk_inserter s1 t) = (Inr (), i2)"
    "check_batch_limit ops (sk_gate s1) i2 (sk_rows_since s1 t) = (Inr (), i3, n)"
    "s' = clear_open_timestamp_if_empty ops (s1\<lparr>sk_inserter := (sk_inserter s1)(t := i3),
       sk_rows_since := (sk_rows_since s1)(t := n)\<rparr>)"
    by (rule write_row_steps [OF assms(1)])
  note st = stamp_ok [OF w(1)]
  have old: "sk_rows_since s t < 1024"
    "length (pending (sk_inserter s t)) < 1000000 + unat (sk_rows_since s t)"
    using assms(2) by (auto simp: sink_inv_def)
  have "length (pending i2) \<le> 1000000 + unat (sk_rows_since s1 t)"
    using write_ok [OF w(2)] st old by simp
  then have n: "n < 1024" "length (pending i3) < 1000000 + unat n"
    using check_batch_ok(2) [OF w(3)] st old(1) by fastforce+
  have open1: "sk_opened_at s1 t \<noteq> None"
    using st assms(2) by (cases "pending (sk_inserter s t) = []") (auto simp: sink_inv_def)
  show ?thesis
    unfolding w(4) sink_inv_def clear_open_timestamp_if_empty_def pending_empty_iff
    using n open1 st assms(2) by (auto simp: sink_inv_def)
qed

lemma sfor_force_aged:
  assumes "sfor (sink_force_aged ops now) ts s = (Inr u, s')" "distinct ts"
  shows "taken s' = taken s \<and> sk_rows_since s' = sk_rows_since s \<and>
    sk_flush_check_counter s' = sk_flush_check_counter s \<and>
    (inv s \<longrightarrow> inv s') \<and>
    (\<forall>t. t \<notin> set ts \<longrightarrow> sk_opened_at s' t = sk_opened_at s t) \<and>
    (\<forall>t \<in> set ts. \<forall>started. sk_opened_at s' t = Some started \<longrightarrow> now - started < 5000)"
  using assms
proof (induction ts arbitrary: s)
  case (Cons t ts)
  obtain s1 where s1: "sink_force_aged ops now t s = (Inr (), s1)"
    "sfor (sink_force_aged ops now) ts s1 = (Inr u, s')"
    using Cons.prems(1) by (auto simp: op_success)
  obtain i' opened where f: "force_aged_inserter ops (sk_gate s) now (sk_inserter s t) (sk_opened_at s t) =
      (Inr (), i', opened)"
    "s1 = s\<lparr>sk_inserter := (sk_inserter s)(t := i'), sk_opened_at := (sk_opened_at s)(t := opened)\<rparr>"
    using s1(1) by (auto simp: sink_force_aged_def split: prod.splits)
  note fa = force_aged_ok [OF f(1)]
  have "taken s1 = taken s" using fa by (auto simp: taken_def f(2) fun_eq_iff)
  moreover have "inv s \<longrightarrow> inv s1"
  proof
    assume old: "inv s"
    have "pending i' = [] \<longleftrightarrow> opened = None" using fa old by (auto simp: sink_inv_def)
    moreover have "length (pending i') < 1000000 + unat (sk_rows_since s t)"
      using fa old by (cases "pending i' = []") (auto simp: sink_inv_def)
    ultimately show "inv s1" using old by (simp add: sink_inv_def f(2))
  qed
  moreover have "\<forall>started. sk_opened_at s1 t = Some started \<longrightarrow> now - started < 5000"
    using fa by (simp add: f(2))
  ultimately show ?case
    using Cons.IH [OF s1(2)] Cons.prems(2) by (auto simp: f(2))
qed simp

lemma maybe_force_commit_taken:
  assumes "maybe_force_commit ops s = (Inr u, s')"
  shows "taken s' = taken s"
proof -
  let ?s1 = "s\<lparr>sk_flush_check_counter := sk_flush_check_counter s + 1\<rparr>"
  have k: "taken (x\<lparr>sk_flush_check_counter := c\<rparr>) = taken x" "taken (x\<lparr>sk_readings := m\<rparr>) = taken x" for x c m
    by (simp_all add: taken_def fun_eq_iff)
  show ?thesis
    using assms sfor_force_aged [of _ sink_tables] k
    by (auto simp: maybe_force_commit_def op_success instant_now_def sink_tables_def split: if_splits)
qed

end

context inserter
begin

lemma maybe_force_commit_cases:
  assumes "maybe_force_commit ops s = (Inr u, s')"
  obtains (skip) "s' = s\<lparr>sk_flush_check_counter := sk_flush_check_counter s + 1\<rparr>"
      "sk_flush_check_counter s + 1 \<noteq> 1024"
  | (check) now where "sk_flush_check_counter s + 1 = 1024" "now = sk_clock s (sk_readings s)"
      "sfor (sink_force_aged ops now) sink_tables
        (s\<lparr>sk_flush_check_counter := 0, sk_readings := Suc (sk_readings s)\<rparr>) = (Inr (), s')"
  using assms by (auto simp: maybe_force_commit_def op_success instant_now_def FLUSH_CHECK_INTERVAL_def
      split: if_splits)

lemma maybe_force_commit_inv:
  assumes "maybe_force_commit ops s = (Inr u, s')" "inv s"
  shows "inv s'"
  using assms(1)
proof (cases rule: maybe_force_commit_cases)
  case skip
  have "unat (sk_flush_check_counter s) < 1024" using assms(2) by (simp add: sink_inv_def word_less_nat_alt)
  then have "unat (sk_flush_check_counter s + 1) = unat (sk_flush_check_counter s) + 1"
    by (subst unat_add_no_wrap) simp_all
  moreover have "unat (sk_flush_check_counter s + 1) \<noteq> 1024"
    using skip(2) by (simp add: word_unat_eq_iff)
  ultimately have "sk_flush_check_counter s + 1 < 1024"
    using \<open>unat (sk_flush_check_counter s) < 1024\<close> by (simp add: word_less_nat_alt)
  then show ?thesis using assms(2) skip(1) by (simp add: sink_inv_def)
next
  case (check now)
  have "inv (s\<lparr>sk_flush_check_counter := 0, sk_readings := Suc (sk_readings s)\<rparr>)"
    using assms(2) by (simp add: sink_inv_def)
  then show ?thesis using sfor_force_aged [OF check(3)] by (simp add: sink_tables_def)
qed

lemma maybe_force_commit_ages:
  assumes "maybe_force_commit ops s = (Inr u, s')" "sk_flush_check_counter s + 1 = 1024"
    "sk_opened_at s' t = Some started"
  shows "sk_clock s (sk_readings s) - started < 5000"
  using assms(1)
proof (cases rule: maybe_force_commit_cases)
  case (check now)
  have "t \<in> set sink_tables" by (cases t) (simp_all add: sink_tables_def)
  then show ?thesis
    using sfor_force_aged [OF check(3)] assms(3) check(2) by (simp add: sink_tables_def) blast
qed (use assms(2) in simp)

text \<open>Committing or ending the streams of a list of tables, one after the other.\<close>

lemma sfor_commit:
  assumes "sfor g ts s = (Inr u, s')"
    and step: "\<And>t s s'. g t s = (Inr (), s') \<Longrightarrow>
      \<exists>i'. committed i' = committed (sk_inserter s t) @ pending (sk_inserter s t) \<and> pending i' = [] \<and>
        s' = s\<lparr>sk_inserter := (sk_inserter s)(t := i')\<rparr>"
  shows "taken s' = taken s \<and> (\<forall>t \<in> set ts. pending (sk_inserter s' t) = []) \<and>
    sk_rows_since s' = sk_rows_since s \<and> sk_flush_check_counter s' = sk_flush_check_counter s \<and>
    (\<forall>t. pending (sk_inserter s t) = [] \<longrightarrow> pending (sk_inserter s' t) = [])"
  using assms(1)
proof (induction ts arbitrary: s)
  case (Cons t ts)
  obtain s1 where s1: "g t s = (Inr (), s1)" "sfor g ts s1 = (Inr u, s')"
    using Cons.prems by (auto simp: op_success)
  obtain i' where i': "committed i' = committed (sk_inserter s t) @ pending (sk_inserter s t)"
    "pending i' = []" "s1 = s\<lparr>sk_inserter := (sk_inserter s)(t := i')\<rparr>"
    using step [OF s1(1)] by blast
  have "taken s1 = taken s" using i' by (auto simp: taken_def fun_eq_iff)
  then show ?case using Cons.IH [OF s1(2)] i' by auto
qed simp

lemma sink_force_commit_step:
  "sink_force_commit ops t s = (Inr (), s') \<Longrightarrow>
   \<exists>i'. committed i' = committed (sk_inserter s t) @ pending (sk_inserter s t) \<and> pending i' = [] \<and>
     s' = s\<lparr>sk_inserter := (sk_inserter s)(t := i')\<rparr>"
  using gate_commit by (fastforce simp: sink_force_commit_def split: prod.splits sum.splits)

lemma sink_end_step:
  "sink_end_one ops t s = (Inr (), s') \<Longrightarrow>
   \<exists>i'. committed i' = committed (sk_inserter s t) @ pending (sk_inserter s t) \<and> pending i' = [] \<and>
     s' = s\<lparr>sk_inserter := (sk_inserter s)(t := i')\<rparr>"
  using gate_end by (fastforce simp: sink_end_one_def split: prod.splits sum.splits)

lemma force_commit_all_ok:
  assumes "force_commit_all ops s = (Inr u, s')"
  shows "taken s' = taken s" and "\<forall>t. pending (sk_inserter s' t) = []" and "inv s \<Longrightarrow> inv s'"
proof -
  have all: "t \<in> set sink_tables" for t by (cases t) (simp_all add: sink_tables_def)
  show "taken s' = taken s" "\<forall>t. pending (sk_inserter s' t) = []" "inv s \<Longrightarrow> inv s'"
  proof (atomize (full), cases "has_pending_rows ops s")
    case False
    then have "\<forall>t. pending (sk_inserter s t) = []"
      by (auto simp: has_pending_rows_def pending_empty_iff split: sink_table.split)
        (metis sink_table.exhaust)
    then show "taken s' = taken s \<and> (\<forall>t. pending (sk_inserter s' t) = []) \<and> (inv s \<longrightarrow> inv s')"
      using assms False by (simp add: force_commit_all_def)
  next
    case True
    then obtain s1 where s1: "sfor (sink_force_commit ops) sink_tables s = (Inr (), s1)"
      "s' = s1\<lparr>sk_opened_at := (\<lambda>_. None)\<rparr>"
      using assms by (auto simp: force_commit_all_def op_success)
    from sfor_commit [OF s1(1) sink_force_commit_step]
    show "taken s' = taken s \<and> (\<forall>t. pending (sk_inserter s' t) = []) \<and> (inv s \<longrightarrow> inv s')"
      using all s1(2) by (auto simp: sink_inv_def taken_def fun_eq_iff)
  qed
qed

lemma sink_end_ok:
  assumes "sink_end ops s = (Inr u, s')"
  shows "(\<lambda>t. committed (sk_inserter s' t)) = taken s"
proof -
  have all: "t \<in> set sink_tables" for t by (cases t) (simp_all add: sink_tables_def)
  from sfor_commit [OF assms [unfolded sink_end_def] sink_end_step]
  show ?thesis using all by (auto simp: taken_def fun_eq_iff)
qed

text \<open>Any sequence of writes, flush checks and idle flushes.\<close>

lemmas write_account_ok = write_row_taken [of TAccount, folded write_account_def]

end

datatype sink_call = CWrite sink_table row | CMaybeFlush | CFlushAll

fun run_sink_call :: "'i ins_ops \<Rightarrow> sink_call \<Rightarrow> ('i, unit) sink_op" where
  "run_sink_call ops (CWrite t r) = write_row ops t r"
| "run_sink_call ops CMaybeFlush = maybe_force_commit ops"
| "run_sink_call ops CFlushAll = force_commit_all ops"

definition calls_to :: "sink_table \<Rightarrow> sink_call list \<Rightarrow> row list" where
  "calls_to t cs = List.map_filter (\<lambda>c. case c of CWrite t' r \<Rightarrow> if t' = t then Some r else None | _ \<Rightarrow> None) cs"

context inserter
begin

lemma sfor_calls:
  assumes "sfor (run_sink_call ops) cs s = (Inr u, s')"
  shows "taken s' = (\<lambda>t. taken s t @ calls_to t cs)" and "inv s \<Longrightarrow> inv s'"
proof -
  have "taken s' = (\<lambda>t. taken s t @ calls_to t cs) \<and> (inv s \<longrightarrow> inv s')"
    using assms
  proof (induction cs arbitrary: s)
    case (Cons c cs)
    obtain s1 where s1: "run_sink_call ops c s = (Inr (), s1)" "sfor (run_sink_call ops) cs s1 = (Inr u, s')"
      using Cons.prems by (auto simp: op_success)
    have "taken s1 = (\<lambda>t. taken s t @ calls_to t [c]) \<and> (inv s \<longrightarrow> inv s1)"
    proof (cases c)
      case (CWrite t r)
      then show ?thesis
        using s1(1) write_row_taken [of t r s "()" s1] write_row_inv [of t r s "()" s1]
        by (auto simp: calls_to_def fun_eq_iff)
    next
      case CMaybeFlush
      then show ?thesis
        using s1(1) maybe_force_commit_taken [of s "()" s1] maybe_force_commit_inv [of s "()" s1]
        by (auto simp: calls_to_def)
    next
      case CFlushAll
      then show ?thesis
        using s1(1) force_commit_all_ok [of s "()" s1] by (auto simp: calls_to_def)
    qed
    moreover have "calls_to t (c # cs) = calls_to t [c] @ calls_to t cs" for t
      by (auto simp: calls_to_def split: option.split)
    ultimately show ?case using Cons.IH [OF s1(2)] by simp
  qed (simp add: calls_to_def)
  then show "taken s' = (\<lambda>t. taken s t @ calls_to t cs)" "inv s \<Longrightarrow> inv s'" by blast+
qed

end

section \<open>A client library that does not fail\<close>

definition never_fails :: "'i ins_ops \<Rightarrow> bool" where
  "never_fails ops \<longleftrightarrow> (\<forall>r i. \<exists>i'. op_write ops r i = (Inr (), i')) \<and>
     (\<forall>i. \<exists>q i'. op_force_commit ops i = (Inr q, i')) \<and> (\<forall>i. \<exists>q i'. op_end ops i = (Inr q, i'))"

definition gate_open :: "'i sink \<Rightarrow> bool" where
  "gate_open s \<longleftrightarrow> sk_gate s \<noteq> Some True"

lemma gate_commit_succeeds:
  assumes "never_fails ops" "gate \<noteq> Some True"
  shows "\<exists>q i'. force_commit_with_gate ops gate i = (Inr q, i')"
  using assms by (auto simp: force_commit_with_gate_def acquire_insert_permit_def never_fails_def)

lemma check_batch_succeeds:
  assumes "never_fails ops" "gate \<noteq> Some True"
  shows "\<exists>i' n'. check_batch_limit ops gate i n = (Inr (), i', n')"
  using gate_commit_succeeds [OF assms, of i] by (auto simp: check_batch_limit_def Let_def)

lemma force_aged_succeeds:
  assumes "never_fails ops" "gate \<noteq> Some True"
  shows "\<exists>i' opened'. force_aged_inserter ops gate now i opened = (Inr (), i', opened')"
  using gate_commit_succeeds [OF assms, of i] by (auto simp: force_aged_inserter_def split: option.split)

lemma write_row_succeeds:
  assumes "never_fails ops"
  shows "succeeds gate_open (write_row ops t r)"
proof -
  have "succeeds gate_open (stamp_if_empty ops t)"
    by (auto simp: succeeds_def stamp_if_empty_def sbind_def instant_now_def supdate_def gate_open_def)
  moreover have "succeeds gate_open (inserter_write ops t r)"
    unfolding succeeds_def
  proof (intro allI impI)
    fix s :: "'a sink" assume s: "gate_open s"
    obtain i' where "op_write ops r (sk_inserter s t) = (Inr (), i')" using assms unfolding never_fails_def by blast
    then show "\<exists>x s'. inserter_write ops t r s = (Inr x, s') \<and> gate_open s'"
      using s by (simp add: inserter_write_def gate_open_def)
  qed
  moreover have "succeeds gate_open (sink_check_batch ops t)"
    unfolding succeeds_def
  proof (intro allI impI)
    fix s :: "'a sink" assume s: "gate_open s"
    obtain i' n where "check_batch_limit ops (sk_gate s) (sk_inserter s t) (sk_rows_since s t) = (Inr (), i', n)"
      using check_batch_succeeds [OF assms] s by (metis gate_open_def)
    then show "\<exists>x s'. sink_check_batch ops t s = (Inr x, s') \<and> gate_open s'"
      using s by (simp add: sink_check_batch_def gate_open_def)
  qed
  ultimately show ?thesis
    unfolding write_row_def
    by (intro succeeds_rules succeeds_supdate) (auto simp: clear_open_timestamp_if_empty_def gate_open_def)
qed

lemma maybe_force_commit_succeeds:
  assumes "never_fails ops"
  shows "succeeds gate_open (maybe_force_commit ops)"
proof -
  have "succeeds gate_open (sink_force_aged ops now t)" for now t
    unfolding succeeds_def
  proof (intro allI impI)
    fix s :: "'a sink" assume s: "gate_open s"
    obtain i' n where "force_aged_inserter ops (sk_gate s) now (sk_inserter s t) (sk_opened_at s t) = (Inr (), i', n)"
      using force_aged_succeeds [OF assms] s by (metis gate_open_def)
    then show "\<exists>x s'. sink_force_aged ops now t s = (Inr x, s') \<and> gate_open s'"
      using s by (simp add: sink_force_aged_def gate_open_def)
  qed
  moreover have "succeeds gate_open instant_now" by (simp add: succeeds_def instant_now_def gate_open_def)
  ultimately have "succeeds gate_open (if b then sreturn ()
      else sthen (supdate (\<lambda>s. s\<lparr>sk_flush_check_counter := 0\<rparr>))
             (sbind instant_now (\<lambda>now. sfor (sink_force_aged ops now) sink_tables)))" for b
    by (cases b) (auto intro!: succeeds_rules succeeds_supdate simp: gate_open_def)
  then show ?thesis
    unfolding maybe_force_commit_def by (intro succeeds_rules succeeds_supdate) (simp_all add: gate_open_def)
qed

lemma force_commit_all_succeeds:
  assumes "never_fails ops"
  shows "succeeds gate_open (force_commit_all ops)"
proof -
  have "succeeds gate_open (sink_force_commit ops t)" for t
    unfolding succeeds_def
  proof (intro allI impI)
    fix s :: "'a sink" assume s: "gate_open s"
    obtain q i' where "force_commit_with_gate ops (sk_gate s) (sk_inserter s t) = (Inr q, i')"
      using gate_commit_succeeds [OF assms] s by (metis gate_open_def)
    then show "\<exists>x s'. sink_force_commit ops t s = (Inr x, s') \<and> gate_open s'"
      using s by (simp add: sink_force_commit_def gate_open_def)
  qed
  then have "succeeds gate_open (sthen (sfor (sink_force_commit ops) sink_tables)
      (supdate (\<lambda>s. s\<lparr>sk_opened_at := (\<lambda>_. None)\<rparr>)))"
    by (intro succeeds_rules succeeds_supdate) (simp_all add: gate_open_def)
  then show ?thesis by (simp add: succeeds_def force_commit_all_def)
qed

section \<open>A client library that buffers\<close>

text \<open>An instance of the library: pending rows are kept in order and confirmed together.\<close>

record buffered =
  bf_committed :: "row list"
  bf_pending :: "row list"

definition buffered_ops :: "buffered ins_ops" where
  "buffered_ops = \<lparr>op_new = (\<lambda>_. \<lparr>bf_committed = [], bf_pending = []\<rparr>),
     op_write = (\<lambda>r i. (Inr (), i\<lparr>bf_pending := bf_pending i @ [r]\<rparr>)),
     op_pending_rows = (\<lambda>i. length (bf_pending i)), op_pending_bytes = (\<lambda>i. 100 * length (bf_pending i)),
     op_force_commit = (\<lambda>i. (Inr \<lparr>q_rows = length (bf_pending i), q_bytes = 0, q_transactions = 1\<rparr>,
       \<lparr>bf_committed = bf_committed i @ bf_pending i, bf_pending = []\<rparr>)),
     op_end = (\<lambda>i. (Inr \<lparr>q_rows = length (bf_pending i), q_bytes = 0, q_transactions = 1\<rparr>,
       \<lparr>bf_committed = bf_committed i @ bf_pending i, bf_pending = []\<rparr>))\<rparr>"

interpretation buffered: inserter buffered_ops bf_committed bf_pending
  by unfold_locales (auto simp: buffered_ops_def)

lemma buffered_never_fails: "never_fails buffered_ops"
  by (simp add: never_fails_def buffered_ops_def)

section \<open>Properties\<close>

text \<open>C19: No row is lost, duplicated or reordered: when a sequence of writes, flush checks and idle
  flushes on a new sink succeeds and the sink is then ended successfully, every table has had
  confirmed exactly the rows written to it, in order.\<close>

theorem sink_exactly_once:
  assumes "inserter ops committed pending"
    and "sfor (run_sink_call ops) cs (sink_new ops gate g clock) = (Inr u, s)"
    and "sink_end ops s = (Inr v, s')"
  shows "committed (sk_inserter s' t) = calls_to t cs"
  using inserter.sfor_calls(1) [OF assms(1,2)] inserter.sink_end_ok [OF assms(1,3)]
    inserter.taken_new [OF assms(1), of gate g clock] by (metis append_Nil)


definition sample_account_row :: account_row where
  "sample_account_row = \<lparr>ar_pubkey = ''k'', ar_owner = ''o'', ar_lamports = 1, ar_data_len = 0,
     ar_executable = False, ar_updated_slot = 7\<rparr>"

definition sample_calls :: "sink_call list" where
  "sample_calls = [CMaybeFlush, CWrite TAccount (RAccount sample_account_row), CFlushAll,
     CWrite TAccount (RAccount (sample_account_row\<lparr>ar_pubkey := ''l''\<rparr>))]"

lemma sample_calls_ok:
  "fst (sfor (run_sink_call buffered_ops) sample_calls (sink_new buffered_ops None Active (\<lambda>n. n))) = Inr ()"
  by (simp add: sample_calls_def sthen_def sbind_def maybe_force_commit_def supdate_def sread_def sreturn_def
      sink_new_def FLUSH_CHECK_INTERVAL_def write_row_def stamp_if_empty_def pending_empty_def buffered_ops_def
      instant_now_def inserter_write_def sink_check_batch_def check_batch_limit_def Let_def
      BATCH_LIMIT_CHECK_INTERVAL_def clear_open_timestamp_if_empty_def force_commit_all_def
      has_pending_rows_def sink_tables_def sink_force_commit_def force_commit_with_gate_def
      acquire_insert_permit_def)

lemma sink_exactly_once_witness:
  "\<exists>s s'. sfor (run_sink_call buffered_ops) sample_calls (sink_new buffered_ops None Active (\<lambda>n. n)) = (Inr (), s) \<and>
    sink_end buffered_ops s = (Inr (), s') \<and>
    bf_committed (sk_inserter s' TAccount) =
      [RAccount sample_account_row, RAccount (sample_account_row\<lparr>ar_pubkey := ''l''\<rparr>)]"
proof -
  let ?run = "sfor (run_sink_call buffered_ops) sample_calls (sink_new buffered_ops None Active (\<lambda>n. n))"
  let ?s = "snd ?run"
  have r: "?run = (Inr (), ?s)" using sample_calls_ok by (metis prod.collapse)
  have "sk_gate ?s = None"
    by (simp add: sample_calls_def sthen_def sbind_def maybe_force_commit_def supdate_def sread_def sreturn_def
      sink_new_def FLUSH_CHECK_INTERVAL_def write_row_def stamp_if_empty_def pending_empty_def buffered_ops_def
      instant_now_def inserter_write_def sink_check_batch_def check_batch_limit_def Let_def
      BATCH_LIMIT_CHECK_INTERVAL_def clear_open_timestamp_if_empty_def force_commit_all_def
      has_pending_rows_def sink_tables_def sink_force_commit_def force_commit_with_gate_def
      acquire_insert_permit_def)
  then have "fst (sink_end buffered_ops ?s) = Inr ()"
    by (simp add: sink_end_def sink_tables_def sthen_def sbind_def sink_end_one_def end_with_gate_def
        acquire_insert_permit_def buffered_ops_def sreturn_def quantities_zero_def)
  then have e: "sink_end buffered_ops ?s = (Inr (), snd (sink_end buffered_ops ?s))" by (metis prod.collapse)
  show ?thesis
    using r e sink_exactly_once [OF buffered.inserter_axioms r e, of TAccount]
    by (auto simp: calls_to_def sample_calls_def intro!: exI)
qed


end
