(* ===== verification/Token_2022.thy ===== *)
theory Token_2022
  imports Rows
begin

text \<open>
  The Token-2022 parser of \<^verbatim>\<open>clickhouse.rs\<close>: the metadata reader, the mint extensions and the TLV
  loop behind the 165-byte account prefix and the account-type byte.  Errors are the code's
  messages.  The base state is unpacked by \<^verbatim>\<open>spl_token_2022\<close> (a parameter) and the JSON text is
  produced by \<^verbatim>\<open>serde_json\<close> (a parameter) from the values built here.
\<close>

section \<open>The metadata value\<close>

record token_2022_metadata =
  tm2_update_authority :: "pubkey option"
  tm2_mint :: pubkey
  tm2_name :: string
  tm2_symbol :: string
  tm2_uri :: string

record t22_reader =
  r_data :: "u8 list"
  r_offset :: usize

definition t22_reader_new :: "u8 list \<Rightarrow> t22_reader" where
  "t22_reader_new d = \<lparr>r_data = d, r_offset = 0\<rparr>"

definition read_exact :: "usize \<Rightarrow> t22_reader \<Rightarrow> string + (u8 list \<times> t22_reader)" where
  "read_exact len r =
     (case checked_add (r_offset r) len of
        None \<Rightarrow> Inl ''Token-2022 metadata offset overflow''
      | Some fin \<Rightarrow>
          (case get_range (unat (r_offset r)) (unat fin) (r_data r) of
             None \<Rightarrow> Inl ''truncated Token-2022 metadata''
           | Some v \<Rightarrow> Inr (v, r\<lparr>r_offset := fin\<rparr>)))"

definition read_u32 :: "t22_reader \<Rightarrow> string + (u32 \<times> t22_reader)" where
  "read_u32 r = try_bind (read_exact 4 r) (\<lambda>(bytes, r'). Inr (u32_from_le bytes, r'))"

definition read_string :: "t22_reader \<Rightarrow> string + (string \<times> t22_reader)" where
  "read_string r =
     try_bind (read_u32 r) (\<lambda>(len, r1).
     try_bind (read_exact (ucast len) r1) (\<lambda>(bytes, r2).
       if utf8_valid bytes then Inr (bytes_string bytes, r2)
       else Inl ''Token-2022 metadata contains invalid UTF-8''))"

definition read_pubkey :: "t22_reader \<Rightarrow> string + (pubkey \<times> t22_reader)" where
  "read_pubkey r = read_exact 32 r"

text \<open>The loop over the additional key-value pairs.\<close>

primrec skip_pairs :: "nat \<Rightarrow> t22_reader \<Rightarrow> string + t22_reader" where
  "skip_pairs 0 r = Inr r"
| "skip_pairs (Suc n) r =
     try_bind (read_string r) (\<lambda>(_, r1). try_bind (read_string r1) (\<lambda>(_, r2). skip_pairs n r2))"

definition default_pubkey :: pubkey where
  "default_pubkey = replicate 32 0"

definition parse_token_2022_metadata_value :: "u8 list \<Rightarrow> string + token_2022_metadata" where
  "parse_token_2022_metadata_value d =
     try_bind (read_pubkey (t22_reader_new d)) (\<lambda>(authority, r1).
     try_bind (read_pubkey r1) (\<lambda>(mint, r2).
     try_bind (read_string r2) (\<lambda>(name, r3).
     try_bind (read_string r3) (\<lambda>(symbol, r4).
     try_bind (read_string r4) (\<lambda>(uri, r5).
     try_bind (read_u32 r5) (\<lambda>(additional, r6).
       if (length d - unat (r_offset r6)) div 8 < unat additional
       then Inl ''invalid Token-2022 additional metadata length''
       else try_bind (skip_pairs (unat additional) r6) (\<lambda>_.
         Inr \<lparr>tm2_update_authority = (if authority = default_pubkey then None else Some authority),
              tm2_mint = mint, tm2_name = name, tm2_symbol = symbol, tm2_uri = uri\<rparr>)))))))"

section \<open>Extensions\<close>

definition TRANSFER_FEE_CONFIG :: u16 where "TRANSFER_FEE_CONFIG = 1"
definition MINT_CLOSE_AUTHORITY :: u16 where "MINT_CLOSE_AUTHORITY = 3"
definition DEFAULT_ACCOUNT_STATE :: u16 where "DEFAULT_ACCOUNT_STATE = 6"
definition NON_TRANSFERABLE :: u16 where "NON_TRANSFERABLE = 9"
definition PERMANENT_DELEGATE :: u16 where "PERMANENT_DELEGATE = 12"
definition TRANSFER_HOOK :: u16 where "TRANSFER_HOOK = 14"
definition METADATA_POINTER :: u16 where "METADATA_POINTER = 18"
definition TOKEN_METADATA :: u16 where "TOKEN_METADATA = 19"

lemmas extension_type_defs = TRANSFER_FEE_CONFIG_def MINT_CLOSE_AUTHORITY_def DEFAULT_ACCOUNT_STATE_def
  NON_TRANSFERABLE_def PERMANENT_DELEGATE_def TRANSFER_HOOK_def METADATA_POINTER_def TOKEN_METADATA_def

definition extension_exact_len :: "u8 list \<Rightarrow> nat \<Rightarrow> string + u8 list" where
  "extension_exact_len v n = (if length v = n then Inr v else Inl ''invalid Token-2022 extension length'')"

definition extension_u64 :: "u8 list \<Rightarrow> nat \<Rightarrow> string + u64" where
  "extension_u64 v off = (case get_range off (off + 8) v of
     None \<Rightarrow> Inl ''truncated Token-2022 extension integer'' | Some bs \<Rightarrow> Inr (u64_from_le bs))"

definition extension_u16 :: "u8 list \<Rightarrow> nat \<Rightarrow> string + u16" where
  "extension_u16 v off = (case get_range off (off + 2) v of
     None \<Rightarrow> Inl ''truncated Token-2022 extension integer'' | Some bs \<Rightarrow> Inr (u16_from_le bs))"

definition extension_optional_pubkey :: "externals \<Rightarrow> u8 list \<Rightarrow> nat \<Rightarrow> string + string option" where
  "extension_optional_pubkey ext v off = (case get_range off (off + 32) v of
     None \<Rightarrow> Inl ''truncated Token-2022 extension public key''
   | Some bs \<Rightarrow> Inr (if bs = replicate 32 0 then None else Some (pubkey_string ext bs)))"

definition json_opt :: "string option \<Rightarrow> json" where
  "json_opt x = (case x of None \<Rightarrow> JNull | Some s \<Rightarrow> JString s)"

definition extension_json :: "string \<Rightarrow> (string \<times> json) list \<Rightarrow> json" where
  "extension_json name st = JObject [(''extension'', JString name), (''state'', JObject st)]"

definition parse_transfer_fee_config :: "externals \<Rightarrow> u8 list \<Rightarrow> string + json" where
  "parse_transfer_fee_config ext v0 =
     try_bind (extension_exact_len v0 108) (\<lambda>v.
     try_bind (extension_optional_pubkey ext v 0) (\<lambda>authority.
     try_bind (extension_u64 v 72) (\<lambda>older_epoch.
     try_bind (extension_u64 v 80) (\<lambda>older_maximum_fee.
     try_bind (extension_u16 v 88) (\<lambda>older_basis_points.
     try_bind (extension_u64 v 98) (\<lambda>newer_maximum_fee.
     try_bind (extension_u16 v 106) (\<lambda>newer_basis_points.
       Inr (extension_json ''transferFeeConfig'' [
         (''transferFeeConfigAuthority'', json_opt authority),
         (''newerTransferFee'', JObject [
            (''transferFeeBasisPoints'', JNumber (unat newer_basis_points)),
            (''maximumFee'', JNumber (unat newer_maximum_fee))]),
         (''olderTransferFee'', JObject [
            (''epoch'', JNumber (unat older_epoch)),
            (''transferFeeBasisPoints'', JNumber (unat older_basis_points)),
            (''maximumFee'', JNumber (unat older_maximum_fee))])]))))))))"

definition parse_default_account_state :: "u8 list \<Rightarrow> string + json" where
  "parse_default_account_state v0 =
     try_bind (extension_exact_len v0 1) (\<lambda>v.
     try_bind (if v ! 0 = 0 then Inr ''uninitialized'' else if v ! 0 = 1 then Inr ''initialized''
               else if v ! 0 = 2 then Inr ''frozen''
               else Inl ''invalid Token-2022 default account state'') (\<lambda>account_state.
       Inr (extension_json ''defaultAccountState'' [(''accountState'', JString account_state)])))"

definition parse_one_pubkey_extension ::
  "externals \<Rightarrow> string \<Rightarrow> string \<Rightarrow> nat \<Rightarrow> u8 list \<Rightarrow> string + json" where
  "parse_one_pubkey_extension ext name field len v0 =
     try_bind (extension_exact_len v0 len) (\<lambda>v.
     try_bind (extension_optional_pubkey ext v 0) (\<lambda>key.
       Inr (extension_json name [(field, json_opt key)])))"

definition parse_transfer_hook :: "externals \<Rightarrow> u8 list \<Rightarrow> string + json" where
  "parse_transfer_hook ext v0 =
     try_bind (extension_exact_len v0 64) (\<lambda>v.
     try_bind (extension_optional_pubkey ext v 0) (\<lambda>authority.
     try_bind (extension_optional_pubkey ext v 32) (\<lambda>program_id.
       Inr (extension_json ''transferHook''
         [(''authority'', json_opt authority), (''programId'', json_opt program_id)]))))"

definition parse_token_2022_extension ::
  "externals \<Rightarrow> u16 \<Rightarrow> u8 list \<Rightarrow> string + (json \<times> token_2022_metadata option)" where
  "parse_token_2022_extension ext ty v =
     (if ty = TRANSFER_FEE_CONFIG then
        try_bind (parse_transfer_fee_config ext v) (\<lambda>j. Inr (j, None))
      else if ty = DEFAULT_ACCOUNT_STATE then
        try_bind (parse_default_account_state v) (\<lambda>j. Inr (j, None))
      else if ty = NON_TRANSFERABLE then
        try_bind (extension_exact_len v 0) (\<lambda>_. Inr (extension_json ''nonTransferable'' [], None))
      else if ty = TRANSFER_HOOK then
        try_bind (parse_transfer_hook ext v) (\<lambda>j. Inr (j, None))
      else if ty = PERMANENT_DELEGATE then
        try_bind (parse_one_pubkey_extension ext ''permanentDelegate'' ''delegate'' 32 v) (\<lambda>j. Inr (j, None))
      else if ty = MINT_CLOSE_AUTHORITY then
        try_bind (parse_one_pubkey_extension ext ''mintCloseAuthority'' ''closeAuthority'' 32 v) (\<lambda>j. Inr (j, None))
      else if ty = METADATA_POINTER then
        try_bind (parse_one_pubkey_extension ext ''metadataPointer'' ''authority'' 64 v) (\<lambda>j. Inr (j, None))
      else if ty = TOKEN_METADATA then
        try_bind (parse_token_2022_metadata_value v) (\<lambda>m.
          Inr (extension_json ''tokenMetadata'' [
                 (''name'', JString (tm2_name m)), (''symbol'', JString (tm2_symbol m)),
                 (''uri'', JString (tm2_uri m)),
                 (''updateAuthority'', json_opt (map_option (pubkey_string ext) (tm2_update_authority m)))],
               Some m))
      else Inl ''unsupported Token-2022 extension'')"

definition is_supported_token_2022_extension :: "u16 \<Rightarrow> bool" where
  "is_supported_token_2022_extension ty \<longleftrightarrow>
     ty \<in> {TRANSFER_FEE_CONFIG, DEFAULT_ACCOUNT_STATE, NON_TRANSFERABLE, TRANSFER_HOOK,
            PERMANENT_DELEGATE, MINT_CLOSE_AUTHORITY, METADATA_POINTER, TOKEN_METADATA}"

section \<open>The TLV loop\<close>

record parsed_mint_extensions =
  pe_json :: string
  pe_token_metadata :: "token_2022_metadata option"
  pe_warnings :: "string list"

text \<open>The accumulators of the loop.\<close>

record tlv_state =
  ts_seen :: "u16 set"
  ts_extensions :: "json list"
  ts_token_metadata :: "token_2022_metadata option"
  ts_warnings :: "string list"

definition tlv_init :: tlv_state where
  "tlv_init = \<lparr>ts_seen = {}, ts_extensions = [], ts_token_metadata = None, ts_warnings = []\<rparr>"

text \<open>The body of the loop for one header and value.\<close>

definition tlv_entry :: "externals \<Rightarrow> u16 \<Rightarrow> u8 list \<Rightarrow> tlv_state \<Rightarrow> tlv_state" where
  "tlv_entry ext ty v st =
     (if is_supported_token_2022_extension ty \<and> ty \<notin> ts_seen st then
        let st1 = st\<lparr>ts_seen := insert ty (ts_seen st)\<rparr> in
        (case parse_token_2022_extension ext ty v of
           Inr (j, md) \<Rightarrow> st1\<lparr>ts_extensions := ts_extensions st1 @ [j],
             ts_token_metadata := (if md \<noteq> None then md else ts_token_metadata st1)\<rparr>
         | Inl err \<Rightarrow> st1\<lparr>ts_warnings := ts_warnings st1 @
             [''extension type '' @ display_nat (unat ty) @ '': '' @ err]\<rparr>)
      else st)"

definition TOKEN_2022_TLV_START :: nat where "TOKEN_2022_TLV_START = 166"

function tlv_loop :: "externals \<Rightarrow> u8 list \<Rightarrow> usize \<Rightarrow> tlv_state \<Rightarrow> string + tlv_state" where
  "tlv_loop ext d off st =
     (if length d \<le> unat off then Inr st
      else case checked_add off 4 of
        None \<Rightarrow> Inl ''Token-2022 extension header overflow''
      | Some header_end \<Rightarrow>
          (case get_range (unat off) (unat header_end) d of
             None \<Rightarrow> Inl ''truncated Token-2022 extension header''
           | Some header \<Rightarrow>
               let ty = u16_from_le [header ! 0, header ! 1];
                   value_len = (ucast (u16_from_le [header ! 2, header ! 3]) :: usize) in
               if ty = 0 then Inr st
               else (case checked_add header_end value_len of
                  None \<Rightarrow> Inl ''Token-2022 extension length overflow''
                | Some value_end \<Rightarrow>
                    (case get_range (unat header_end) (unat value_end) d of
                       None \<Rightarrow> Inl ''truncated Token-2022 extension value''
                     | Some v \<Rightarrow> tlv_loop ext d value_end (tlv_entry ext ty v st)))))"
  by auto
termination
  by (relation "measure (\<lambda>(ext, d, off, st). length d - unat off)")
    (auto simp: checked_add_eq_Some unat_add_no_wrap)

declare tlv_loop.simps [simp del]

definition parse_token_2022_mint_extensions :: "externals \<Rightarrow> u8 list \<Rightarrow> string + parsed_mint_extensions" where
  "parse_token_2022_mint_extensions ext d =
     (if length d \<le> TOKEN_2022_TLV_START
      then Inr \<lparr>pe_json = ''[]'', pe_token_metadata = None, pe_warnings = []\<rparr>
      else try_bind (tlv_loop ext d (word_of_nat TOKEN_2022_TLV_START) tlv_init) (\<lambda>st.
        case json_to_string ext (ts_extensions st) of
          None \<Rightarrow> Inl ''failed to serialize Token-2022 extensions''
        | Some j \<Rightarrow> Inr \<lparr>pe_json = j, pe_token_metadata = ts_token_metadata st,
                        pe_warnings = ts_warnings st\<rparr>))"

datatype token_2022_base_state = BaseAccount token_account | BaseMint token_mint

definition unpack_token_2022_base_state :: "externals \<Rightarrow> u8 list \<Rightarrow> token_2022_base_state option" where
  "unpack_token_2022_base_state ext d =
     (case t22_unpack_account ext d of
        Some a \<Rightarrow> Some (BaseAccount a)
      | None \<Rightarrow> map_option BaseMint (t22_unpack_mint ext d))"

section \<open>Reading what was written\<close>

text \<open>\<open>reader_at pre post\<close>: a reader that has consumed \<open>pre\<close> and still holds \<open>post\<close>.\<close>

definition reader_at :: "u8 list \<Rightarrow> u8 list \<Rightarrow> t22_reader" where
  "reader_at pre post = \<lparr>r_data = pre @ post, r_offset = word_of_nat (length pre)\<rparr>"

lemma unat_of_nat_u64: "n < 2 ^ 64 \<Longrightarrow> unat (word_of_nat n :: usize) = n"
  by (simp add: unat_of_nat take_bit_nat_eq_self_iff)

lemma read_exact_at:
  assumes "length (pre @ bs @ post) < 2 ^ 64" "n = word_of_nat (length bs)"
  shows "read_exact n (reader_at pre (bs @ post)) = Inr (bs, reader_at (pre @ bs) post)"
proof -
  have u: "unat (word_of_nat (length pre) :: usize) = length pre"
    "unat (word_of_nat (length bs) :: usize) = length bs"
    "unat (word_of_nat (length pre + length bs) :: usize) = length pre + length bs"
    using assms(1) by (simp_all add: unat_of_nat_u64 del: of_nat_add)
  have "checked_add (word_of_nat (length pre)) n = Some (word_of_nat (length pre + length bs))"
    using assms u by (simp add: checked_add_eq_Some)
  then show ?thesis
    using u by (simp add: read_exact_def reader_at_def get_range_def subrange_infix del: of_nat_add)
qed

lemma read_u32_at:
  assumes "length (pre @ u32_to_le w @ post) < 2 ^ 64"
  shows "read_u32 (reader_at pre (u32_to_le w @ post)) = Inr (w, reader_at (pre @ u32_to_le w) post)"
  using read_exact_at [OF assms, of 4] by (simp add: read_u32_def)

definition encode_string :: "string \<Rightarrow> u8 list" where
  "encode_string s = u32_to_le (word_of_nat (length s)) @ string_bytes s"

definition valid_text :: "string \<Rightarrow> bool" where
  "valid_text s \<longleftrightarrow> utf8_valid (string_bytes s) \<and> length s < 2 ^ 32"

lemma length_string_bytes [simp]: "length (string_bytes s) = length s"
  by (simp add: string_bytes_def)

lemma length_encode_string [simp]: "length (encode_string s) = 4 + length s"
  by (simp add: encode_string_def)

lemma read_string_at:
  assumes "length (pre @ encode_string s @ post) < 2 ^ 64" "valid_text s"
  shows "read_string (reader_at pre (encode_string s @ post)) = Inr (s, reader_at (pre @ encode_string s) post)"
proof -
  let ?w = "word_of_nat (length s) :: u32"
  have "unat ?w = length s"
    using assms(2) by (simp add: valid_text_def unat_of_nat take_bit_nat_eq_self_iff)
  then have w: "(ucast ?w :: usize) = word_of_nat (length (string_bytes s))"
    by (metis length_string_bytes of_nat_unat)
  have 1: "read_u32 (reader_at pre (u32_to_le ?w @ string_bytes s @ post)) =
    Inr (?w, reader_at (pre @ u32_to_le ?w) (string_bytes s @ post))"
    using assms(1) by (intro read_u32_at) simp
  have 2: "read_exact (ucast ?w) (reader_at (pre @ u32_to_le ?w) (string_bytes s @ post)) =
    Inr (string_bytes s, reader_at ((pre @ u32_to_le ?w) @ string_bytes s) post)"
    using assms(1) w by (intro read_exact_at) simp_all
  show ?thesis using 1 2 assms(2) by (simp add: read_string_def encode_string_def valid_text_def)
qed

definition encode_pairs :: "(string \<times> string) list \<Rightarrow> u8 list" where
  "encode_pairs kvs = concat (map (\<lambda>(k, v). encode_string k @ encode_string v) kvs)"

lemma length_encode_pairs: "8 * length kvs \<le> length (encode_pairs kvs)"
  by (induction kvs) (auto simp: encode_pairs_def)

lemma skip_pairs_at:
  assumes "\<forall>(k, v) \<in> set kvs. valid_text k \<and> valid_text v" "length (pre @ encode_pairs kvs @ post) < 2 ^ 64"
  shows "skip_pairs (length kvs) (reader_at pre (encode_pairs kvs @ post)) =
    Inr (reader_at (pre @ encode_pairs kvs) post)"
  using assms
proof (induction kvs arbitrary: pre)
  case (Cons p kvs)
  obtain k v where p: "p = (k, v)" by (cases p)
  let ?tail = "encode_pairs kvs @ post"
  have e: "encode_pairs (p # kvs) = encode_string k @ encode_string v @ encode_pairs kvs"
    by (simp add: encode_pairs_def p)
  note e' = e [unfolded p]
  have 1: "read_string (reader_at pre (encode_string k @ encode_string v @ ?tail)) =
    Inr (k, reader_at (pre @ encode_string k) (encode_string v @ ?tail))"
    using Cons.prems by (intro read_string_at) (simp_all add: e' p)
  have 2: "read_string (reader_at (pre @ encode_string k) (encode_string v @ ?tail)) =
    Inr (v, reader_at ((pre @ encode_string k) @ encode_string v) ?tail)"
    using Cons.prems by (intro read_string_at) (simp_all add: e' p)
  have 3: "skip_pairs (length kvs) (reader_at ((pre @ encode_string k) @ encode_string v) ?tail) =
    Inr (reader_at (((pre @ encode_string k) @ encode_string v) @ encode_pairs kvs) post)"
    using Cons.prems by (intro Cons.IH) (simp_all add: e' p)
  show ?case using 1 2 3 by (simp add: e)
qed (simp add: encode_pairs_def)

definition encode_metadata :: "token_2022_metadata \<Rightarrow> (string \<times> string) list \<Rightarrow> u8 list" where
  "encode_metadata m kvs =
     (case tm2_update_authority m of None \<Rightarrow> default_pubkey | Some k \<Rightarrow> k) @ tm2_mint m @
     encode_string (tm2_name m) @ encode_string (tm2_symbol m) @ encode_string (tm2_uri m) @
     u32_to_le (word_of_nat (length kvs)) @ encode_pairs kvs"

definition valid_metadata :: "token_2022_metadata \<Rightarrow> bool" where
  "valid_metadata m \<longleftrightarrow> (\<forall>k. tm2_update_authority m = Some k \<longrightarrow> length k = 32 \<and> k \<noteq> default_pubkey) \<and>
     length (tm2_mint m) = 32 \<and> valid_text (tm2_name m) \<and> valid_text (tm2_symbol m) \<and> valid_text (tm2_uri m)"

section \<open>Properties of the metadata value\<close>

text \<open>C33: Metadata round trip: the Borsh layout of a Token-2022 metadata value with any additional
  key-value pairs, followed by anything, parses back to the value; an absent update authority is the
  all-zero key.\<close>

theorem token_2022_metadata_roundtrip:
  assumes "valid_metadata m" and "\<forall>(k, v) \<in> set kvs. valid_text k \<and> valid_text v"
    and "length kvs < 2 ^ 32" and "length (encode_metadata m kvs @ rest) < 2 ^ 64"
  shows "parse_token_2022_metadata_value (encode_metadata m kvs @ rest) = Inr m"
proof -
  let ?a = "case tm2_update_authority m of None \<Rightarrow> default_pubkey | Some k \<Rightarrow> k"
  let ?n = "u32_to_le (word_of_nat (length kvs))"
  let ?d = "encode_metadata m kvs @ rest"
  have la: "length ?a = 32"
    using assms(1) by (auto simp: valid_metadata_def default_pubkey_def split: option.split)
  have un: "unat (word_of_nat (length kvs) :: u32) = length kvs"
    using assms(3) by (simp add: unat_of_nat take_bit_nat_eq_self_iff)
  have v: "length (tm2_mint m) = 32" "valid_text (tm2_name m)" "valid_text (tm2_symbol m)" "valid_text (tm2_uri m)"
    using assms(1) by (simp_all add: valid_metadata_def)
  have len: "length ?d = 64 + 12 + length (tm2_name m) + length (tm2_symbol m) + length (tm2_uri m) + 4 +
      length (encode_pairs kvs) + length rest"
    using la v by (simp add: encode_metadata_def)
  note small = assms(4) [unfolded len]
  define s5 where "s5 = ?n @ encode_pairs kvs @ rest"
  define s4 where "s4 = encode_string (tm2_uri m) @ s5"
  define s3 where "s3 = encode_string (tm2_symbol m) @ s4"
  define s2 where "s2 = encode_string (tm2_name m) @ s3"
  have d: "?d = ?a @ tm2_mint m @ s2" by (simp add: encode_metadata_def s2_def s3_def s4_def s5_def)
  let ?p2 = "?a @ tm2_mint m"
  let ?p3 = "?p2 @ encode_string (tm2_name m)" let ?p4 = "?p3 @ encode_string (tm2_symbol m)"
  let ?p5 = "?p4 @ encode_string (tm2_uri m)" let ?p6 = "?p5 @ ?n"
  have r0: "read_pubkey (t22_reader_new ?d) = Inr (?a, reader_at ?a (tm2_mint m @ s2))"
    using read_exact_at [of "[]" ?a "tm2_mint m @ s2" 32] assms(4) la
    by (simp add: d read_pubkey_def t22_reader_new_def reader_at_def)
  have r1: "read_pubkey (reader_at ?a (tm2_mint m @ s2)) = Inr (tm2_mint m, reader_at ?p2 s2)"
    using assms(4) v by (subst read_pubkey_def, intro read_exact_at) (simp_all add: d)
  have r2: "read_string (reader_at ?p2 s2) = Inr (tm2_name m, reader_at ?p3 s3)"
    unfolding s2_def using assms(4) v by (intro read_string_at) (simp_all add: d s2_def)
  have r3: "read_string (reader_at ?p3 s3) = Inr (tm2_symbol m, reader_at ?p4 s4)"
    unfolding s3_def using assms(4) v by (intro read_string_at) (simp_all add: d s2_def s3_def)
  have r4: "read_string (reader_at ?p4 s4) = Inr (tm2_uri m, reader_at ?p5 s5)"
    unfolding s4_def using assms(4) v by (intro read_string_at) (simp_all add: d s2_def s3_def s4_def)
  have r5: "read_u32 (reader_at ?p5 s5) = Inr (word_of_nat (length kvs), reader_at ?p6 (encode_pairs kvs @ rest))"
    unfolding s5_def using assms(4) by (intro read_u32_at) (simp add: d s2_def s3_def s4_def s5_def)
  have r6: "skip_pairs (length kvs) (reader_at ?p6 (encode_pairs kvs @ rest)) =
      Inr (reader_at (?p6 @ encode_pairs kvs) rest)"
    using assms(2,4) by (intro skip_pairs_at) (simp_all add: d s2_def s3_def s4_def s5_def)
  have off: "length ?d - unat (r_offset (reader_at ?p6 (encode_pairs kvs @ rest))) =
      length (encode_pairs kvs) + length rest"
  proof -
    have "unat (word_of_nat (length ?p6) :: usize) = length ?p6"
      using small la v by (intro unat_of_nat_u64) simp
    then show ?thesis unfolding len reader_at_def select_convs using la v by simp
  qed
  have "\<not> (length (encode_pairs kvs) + length rest) div 8 < length kvs"
    using length_encode_pairs [of kvs] by simp
  moreover have "m = \<lparr>tm2_update_authority = (if ?a = default_pubkey then None else Some ?a),
      tm2_mint = tm2_mint m, tm2_name = tm2_name m, tm2_symbol = tm2_symbol m, tm2_uri = tm2_uri m\<rparr>"
    using assms(1) by (cases m) (auto simp: valid_metadata_def split: option.splits)
  ultimately show ?thesis
    using r0 r1 r2 r3 r4 r5 r6 off
    by (simp only: parse_token_2022_metadata_value_def try_bind.simps prod.case un if_False)
qed

section \<open>The TLV region\<close>

definition encode_tlv_entry :: "u16 \<times> u8 list \<Rightarrow> u8 list" where
  "encode_tlv_entry e = u16_to_le (fst e) @ u16_to_le (word_of_nat (length (snd e))) @ snd e"

definition encode_tlv :: "(u16 \<times> u8 list) list \<Rightarrow> u8 list" where
  "encode_tlv es = concat (map encode_tlv_entry es)"

definition valid_tlv :: "(u16 \<times> u8 list) list \<Rightarrow> bool" where
  "valid_tlv es \<longleftrightarrow> (\<forall>(ty, v) \<in> set es. ty \<noteq> 0 \<and> length v < 2 ^ 16)"

text \<open>The region ends at its last byte or at a header of type 0.\<close>

definition tlv_terminated :: "u8 list \<Rightarrow> bool" where
  "tlv_terminated rest \<longleftrightarrow> rest = [] \<or> (4 \<le> length rest \<and> rest ! 0 = 0 \<and> rest ! 1 = 0)"

definition tlv_fold :: "externals \<Rightarrow> (u16 \<times> u8 list) list \<Rightarrow> tlv_state \<Rightarrow> tlv_state" where
  "tlv_fold ext es st = fold (\<lambda>(ty, v). tlv_entry ext ty v) es st"

lemma u16_two_bytes: "u16_from_le [a, b] = 0 \<longleftrightarrow> a = 0 \<and> b = 0"
proof -
  have "unat a < 256" "unat b < 256"
    using unsigned_less [of a, where ?'a = nat] unsigned_less [of b, where ?'a = nat] by simp_all
  then have "unat (u16_from_le [a, b]) = unat a + 256 * unat b"
    by (simp add: u16_from_le_def unat_of_nat take_bit_nat_eq_self_iff del: of_nat_add of_nat_mult)
  moreover have "x = 0 \<longleftrightarrow> unat x = 0" for x :: u16 by (metis unat_0 word_unat_eq_iff)
  moreover have "x = 0 \<longleftrightarrow> unat x = 0" for x :: u8 by (metis unat_0 word_unat_eq_iff)
  ultimately show ?thesis by simp
qed

lemma u16_list_two: "[u16_to_le w ! 0, u16_to_le w ! 1] = u16_to_le w"
  by (rule nth_equalityI) (auto simp: less_Suc_eq numeral_eq_Suc)

lemma length_encode_tlv_entry [simp]: "length (encode_tlv_entry e) = 4 + length (snd e)"
  by (simp add: encode_tlv_entry_def)

text \<open>One round of the loop on a well-formed entry, and its end.\<close>

lemma tlv_loop_entry:
  assumes "length (pre @ encode_tlv_entry (ty, v) @ post) < 2 ^ 64" "ty \<noteq> 0" "length v < 2 ^ 16"
  shows "tlv_loop ext (pre @ encode_tlv_entry (ty, v) @ post) (word_of_nat (length pre)) st =
    tlv_loop ext (pre @ encode_tlv_entry (ty, v) @ post)
      (word_of_nat (length (pre @ encode_tlv_entry (ty, v)))) (tlv_entry ext ty v st)"
proof -
  let ?l = "word_of_nat (length v) :: u16"
  let ?d = "pre @ encode_tlv_entry (ty, v) @ post"
  let ?h = "u16_to_le ty @ u16_to_le ?l"
  have vl: "(ucast ?l :: usize) = word_of_nat (length v)"
  proof -
    have "unat ?l = length v" using assms(3) by (simp add: unat_of_nat take_bit_nat_eq_self_iff)
    then show ?thesis by (metis of_nat_unat)
  qed
  have u: "unat (word_of_nat (length pre) :: usize) = length pre"
    "unat (word_of_nat (length pre + 4) :: usize) = length pre + 4"
    "unat (word_of_nat (length v) :: usize) = length v"
    "unat (word_of_nat (length pre + 4 + length v) :: usize) = length pre + 4 + length v"
    using assms(1) by (simp_all add: unat_of_nat_u64 del: of_nat_add)
  have c1: "checked_add (word_of_nat (length pre)) 4 = Some (word_of_nat (length pre + 4) :: usize)"
    using assms(1) u(1) by (simp add: checked_add_eq_Some)
  have c2: "checked_add (word_of_nat (length pre + 4)) (word_of_nat (length v)) =
      Some (word_of_nat (length pre + 4 + length v) :: usize)"
    using assms(1) u(2,3) by (simp add: checked_add_eq_Some del: of_nat_add) simp
  have d1: "?d = pre @ ?h @ (v @ post)" and d2: "?d = (pre @ ?h) @ v @ post"
    by (simp_all add: encode_tlv_entry_def)
  have g1: "get_range (length pre) (length pre + 4) ?d = Some ?h"
    unfolding d1 by (simp add: get_range_def) (rule subrange_infix [where ys = ?h, simplified], simp_all)
  have g2: "get_range (length pre + 4) (length pre + 4 + length v) ?d = Some v"
    unfolding d2 by (simp add: get_range_def) (rule subrange_infix [where xs = "pre @ ?h", simplified], simp_all)
  have h: "u16_from_le [?h ! 0, ?h ! Suc 0] = ty" "u16_from_le [?h ! 2, ?h ! 3] = ?l"
    using u16_list_two [of ty] u16_list_two [of ?l] by (simp_all add: nth_append)
  show ?thesis
    by (subst tlv_loop.simps)
      (simp add: u c1 c2 g1 g2 h vl assms(2) Let_def add.assoc [symmetric] del: of_nat_add append_assoc)
qed

lemma tlv_loop_end:
  assumes "length (pre @ rest) < 2 ^ 64" "tlv_terminated rest"
  shows "tlv_loop ext (pre @ rest) (word_of_nat (length pre)) st = Inr st"
proof (cases "rest = []")
  case True
  then show ?thesis
    using assms by (subst tlv_loop.simps) (simp add: unat_of_nat_u64)
next
  case False
  then have r: "4 \<le> length rest" "rest ! 0 = 0" "rest ! 1 = 0"
    using assms(2) by (simp_all add: tlv_terminated_def)
  have u: "unat (word_of_nat (length pre) :: usize) = length pre"
    "unat (word_of_nat (length pre + 4) :: usize) = length pre + 4"
    using assms(1) r(1) by (simp_all add: unat_of_nat_u64 del: of_nat_add)
  have c1: "checked_add (word_of_nat (length pre)) 4 = Some (word_of_nat (length pre + 4) :: usize)"
    using assms(1) r(1) u(1) by (simp add: checked_add_eq_Some)
  have g1: "get_range (length pre) (length pre + 4) (pre @ rest) = Some (take 4 rest)"
    using r(1) by (simp add: get_range_def subrange_def)
  have "u16_from_le [take 4 rest ! 0, take 4 rest ! 1] = 0"
    using r by (simp add: u16_two_bytes)
  then show ?thesis
    using r(1) by (subst tlv_loop.simps) (simp add: u c1 g1 Let_def del: of_nat_add)
qed

lemma tlv_loop_encoded:
  assumes "valid_tlv es" "tlv_terminated rest" "length (pre @ encode_tlv es @ rest) < 2 ^ 64"
  shows "tlv_loop ext (pre @ encode_tlv es @ rest) (word_of_nat (length pre)) st = Inr (tlv_fold ext es st)"
  using assms
proof (induction es arbitrary: pre st)
  case Nil
  then show ?case using tlv_loop_end [of pre rest] by (simp add: encode_tlv_def tlv_fold_def)
next
  case (Cons e es)
  obtain ty v where e: "e = (ty, v)" by (cases e)
  have d: "pre @ encode_tlv (e # es) @ rest = pre @ encode_tlv_entry (ty, v) @ (encode_tlv es @ rest)"
    by (simp add: encode_tlv_def e)
  have "tlv_loop ext ((pre @ encode_tlv_entry (ty, v)) @ encode_tlv es @ rest)
      (word_of_nat (length (pre @ encode_tlv_entry (ty, v)))) (tlv_entry ext ty v st) =
    Inr (tlv_fold ext es (tlv_entry ext ty v st))"
    using Cons.prems by (intro Cons.IH) (simp_all add: valid_tlv_def encode_tlv_def e)
  moreover have "ty \<noteq> 0" "length v < 2 ^ 16" using Cons.prems(1) by (simp_all add: valid_tlv_def e)
  ultimately show ?case
    using tlv_loop_entry [of pre ty v "encode_tlv es @ rest" ext st] Cons.prems(3)
    unfolding d by (simp add: tlv_fold_def e del: of_nat_add)
qed

lemma list_of_4: "length xs = 4 \<Longrightarrow> xs = [xs ! 0, xs ! 1, xs ! 2, xs ! 3]"
  by (rule nth_equalityI) (auto simp: less_Suc_eq numeral_eq_Suc)

lemma drop_split:
  assumes "get_range i j d = Some h"
  shows "drop i d = h @ drop j d"
  using assms by (auto simp: get_range_def subrange_def split: if_splits)
    (metis append_take_drop_id drop_drop le_add_diff_inverse2)

lemma tlv_loop_decode:
  assumes "tlv_loop ext d off st = Inr st'"
  shows "\<exists>es rest. drop (unat off) d = encode_tlv es @ rest \<and> valid_tlv es \<and> tlv_terminated rest \<and>
    st' = tlv_fold ext es st"
  using assms
proof (induction ext d off st rule: tlv_loop.induct)
  case (1 ext d off st)
  show ?case
  proof (cases "length d \<le> unat off")
    case True
    then have "st' = st" using "1.prems" by (subst (asm) tlv_loop.simps) simp
    with True show ?thesis
      by (intro exI [of _ "[]"]) (simp add: encode_tlv_def valid_tlv_def tlv_terminated_def tlv_fold_def)
  next
    case False
    obtain he where he: "checked_add off 4 = Some he"
      using False "1.prems" by (subst (asm) tlv_loop.simps) (auto split: option.splits)
    obtain h where h: "get_range (unat off) (unat he) d = Some h"
      using False "1.prems" he by (subst (asm) tlv_loop.simps) (auto split: option.splits)
    have uhe: "unat he = unat off + 4" using he by (auto simp: checked_add_eq_Some unat_add_no_wrap)
    have lh: "length h = 4" using get_range_length [OF h] uhe by simp
    let ?ty = "u16_from_le [h ! 0, h ! 1]" and ?len = "u16_from_le [h ! 2, h ! 3]"
    have dh: "drop (unat off) d = h @ drop (unat he) d" using drop_split [OF h] .
    show ?thesis
    proof (cases "?ty = 0")
      case True
      then have "st' = st"
        using False "1.prems" he h by (subst (asm) tlv_loop.simps) (simp add: Let_def)
      moreover have "tlv_terminated (drop (unat off) d)"
        using True lh unfolding dh by (simp add: tlv_terminated_def u16_two_bytes nth_append)
      ultimately show ?thesis
        by (intro exI [of _ "[]"] exI [of _ "drop (unat off) d"])
          (simp add: encode_tlv_def valid_tlv_def tlv_fold_def)
    next
      case ty: False
      obtain ve where ve: "checked_add he (ucast ?len) = Some ve"
        using False "1.prems" he h ty by (subst (asm) tlv_loop.simps) (auto simp: Let_def split: option.splits)
      obtain v where v: "get_range (unat he) (unat ve) d = Some v"
        using False "1.prems" he h ty ve by (subst (asm) tlv_loop.simps) (auto simp: Let_def split: option.splits)
      have lv: "length v = unat ?len"
      proof -
        have "unat (ucast ?len :: usize) = unat ?len"
          using unsigned_less [of ?len, where ?'a = nat]
          by (simp add: unsigned_ucast_eq take_bit_nat_eq_self_iff)
        then show ?thesis
          using get_range_length [OF v] ve by (auto simp: checked_add_eq_Some unat_add_no_wrap)
      qed
      have "tlv_loop ext d ve (tlv_entry ext ?ty v st) = Inr st'"
        using False "1.prems" he h ty ve v by (subst (asm) tlv_loop.simps) (simp add: Let_def)
      from "1.IH" [OF False he h refl refl ty ve v this] obtain es rest where
        es: "drop (unat ve) d = encode_tlv es @ rest" "valid_tlv es" "tlv_terminated rest"
          "st' = tlv_fold ext es (tlv_entry ext ?ty v st)" by blast
      have "u16_to_le ?ty @ u16_to_le ?len = h"
        using list_of_4 [OF lh] by (simp add: u16_to_from)
      moreover have "(word_of_nat (length v) :: u16) = ?len" by (simp add: lv)
      ultimately have "encode_tlv_entry (?ty, v) = h @ v" by (simp add: encode_tlv_entry_def)
      then have "drop (unat off) d = encode_tlv ((?ty, v) # es) @ rest"
        using dh drop_split [OF v] es(1) by (simp add: encode_tlv_def)
      moreover have "length v < 2 ^ 16"
        using unsigned_less [of ?len, where ?'a = nat] lv by simp
      ultimately show ?thesis
        using es ty by (intro exI [of _ "(?ty, v) # es"] exI [of _ rest]) (simp add: valid_tlv_def tlv_fold_def)
    qed
  qed
qed

text \<open>
  The specification of the fold: the first supported entry of each type counts, its successes are
  the extensions in the order of the file, its failures the warnings.
\<close>

fun first_supported :: "u16 set \<Rightarrow> (u16 \<times> u8 list) list \<Rightarrow> (u16 \<times> u8 list) list" where
  "first_supported seen [] = []"
| "first_supported seen ((ty, v) # es) =
     (if is_supported_token_2022_extension ty \<and> ty \<notin> seen
      then (ty, v) # first_supported (insert ty seen) es else first_supported seen es)"

definition parsed_extensions :: "externals \<Rightarrow> (u16 \<times> u8 list) list \<Rightarrow> (json \<times> token_2022_metadata option) list" where
  "parsed_extensions ext es = List.map_filter (\<lambda>(ty, v).
     case parse_token_2022_extension ext ty v of Inr p \<Rightarrow> Some p | Inl _ \<Rightarrow> None) es"

definition extension_warnings :: "externals \<Rightarrow> (u16 \<times> u8 list) list \<Rightarrow> string list" where
  "extension_warnings ext es = List.map_filter (\<lambda>(ty, v).
     case parse_token_2022_extension ext ty v of Inr p \<Rightarrow> None
     | Inl err \<Rightarrow> Some (''extension type '' @ display_nat (unat ty) @ '': '' @ err)) es"

definition last_metadata :: "token_2022_metadata option \<Rightarrow> (json \<times> token_2022_metadata option) list \<Rightarrow>
    token_2022_metadata option" where
  "last_metadata md ps = fold (\<lambda>(_, m) acc. if m \<noteq> None then m else acc) ps md"

lemma tlv_fold_spec:
  "tlv_fold ext es st = \<lparr>ts_seen = ts_seen st \<union> set (map fst (first_supported (ts_seen st) es)),
     ts_extensions = ts_extensions st @ map fst (parsed_extensions ext (first_supported (ts_seen st) es)),
     ts_token_metadata = last_metadata (ts_token_metadata st) (parsed_extensions ext (first_supported (ts_seen st) es)),
     ts_warnings = ts_warnings st @ extension_warnings ext (first_supported (ts_seen st) es)\<rparr>"
proof (induction es arbitrary: st)
  case Nil
  show ?case by (simp add: tlv_fold_def parsed_extensions_def extension_warnings_def last_metadata_def)
next
  case (Cons e es)
  obtain ty v where e: "e = (ty, v)" by (cases e)
  have "tlv_fold ext (e # es) st = tlv_fold ext es (tlv_entry ext ty v st)" by (simp add: tlv_fold_def e)
  then show ?case
    unfolding Cons.IH
    by (auto simp: tlv_entry_def e Let_def parsed_extensions_def extension_warnings_def last_metadata_def
        split: sum.splits prod.splits)
qed

section \<open>Properties of the extensions\<close>

text \<open>C20: The TLV parser and the layout agree: on account data with a TLV region the parser succeeds
  exactly when the region is a sequence of entries of non-zero type followed by its end or by a header
  of type 0 (and the JSON text can be produced); the extensions are then those of the first supported
  entry of each type, in the order of the file, and every entry of them that does not parse gives
  exactly one warning.  A truncated header or value makes the whole account an error.\<close>

theorem mint_extensions_parse:
  assumes "166 < length d" and "length d < 2 ^ 64"
  shows "parse_token_2022_mint_extensions ext d = Inr r \<longleftrightarrow>
    (\<exists>es rest. drop 166 d = encode_tlv es @ rest \<and> valid_tlv es \<and> tlv_terminated rest \<and>
      json_to_string ext (map fst (parsed_extensions ext (first_supported {} es))) = Some (pe_json r) \<and>
      pe_token_metadata r = last_metadata None (parsed_extensions ext (first_supported {} es)) \<and>
      pe_warnings r = extension_warnings ext (first_supported {} es))"
    (is "?parse \<longleftrightarrow> (\<exists>es rest. ?layout es rest)")
proof
  assume ?parse
  then obtain st where st: "tlv_loop ext d 166 tlv_init = Inr st"
    "json_to_string ext (ts_extensions st) = Some (pe_json r)"
    "pe_token_metadata r = ts_token_metadata st" "pe_warnings r = ts_warnings st"
    using assms(1) by (auto simp: parse_token_2022_mint_extensions_def TOKEN_2022_TLV_START_def
        try_bind_eq_Inr_iff split: option.splits)
  from tlv_loop_decode [OF st(1)] obtain es rest where es: "drop 166 d = encode_tlv es @ rest"
    "valid_tlv es" "tlv_terminated rest" "st = tlv_fold ext es tlv_init" by auto
  then have "?layout es rest" using st(2-4) by (simp add: tlv_fold_spec tlv_init_def)
  then show "\<exists>es rest. ?layout es rest" by blast
next
  assume "\<exists>es rest. ?layout es rest"
  then obtain es rest where es: "?layout es rest" by blast
  then have d: "d = take 166 d @ encode_tlv es @ rest" by (metis append_take_drop_id)
  have "tlv_loop ext (take 166 d @ encode_tlv es @ rest) (word_of_nat (length (take 166 d))) tlv_init =
    Inr (tlv_fold ext es tlv_init)"
    using es assms(2) d by (intro tlv_loop_encoded) simp_all
  then have "tlv_loop ext d 166 tlv_init = Inr (tlv_fold ext es tlv_init)"
    using d assms(1) by (simp add: min_def)
  then show ?parse
    using assms(1) es by (cases r) (simp add: parse_token_2022_mint_extensions_def TOKEN_2022_TLV_START_def
        tlv_fold_spec tlv_init_def)
qed

text \<open>A concrete instance of the third-party code, for the examples.\<close>

definition sample_externals :: externals where
  "sample_externals = \<lparr>pubkey_string = bytes_string, spl_token_id = replicate 32 1,
     token_2022_id = replicate 32 2, mpl_metadata_id = replicate 32 3, spl_account_len = 165,
     spl_mint_len = 82, spl_unpack_account = (\<lambda>_. None), spl_unpack_mint = (\<lambda>_. None),
     t22_unpack_account = (\<lambda>_. None), t22_unpack_mint = (\<lambda>_. None),
     borsh_account_key = (\<lambda>_. None), borsh_metadata = (\<lambda>_. None), borsh_metadata_ext = (\<lambda>_. None),
     borsh_metadata_ext_v1_2 = (\<lambda>_. None), json_to_string = (\<lambda>js. Some (display_nat (length js)))\<rparr>"

lemma token_2022_metadata_roundtrip_witness:
  "parse_token_2022_metadata_value (encode_metadata \<lparr>tm2_update_authority = None,
     tm2_mint = replicate 32 7, tm2_name = ''ab'', tm2_symbol = ''c'', tm2_uri = ''''\<rparr> [(''k'', ''v'')] @ [1, 2]) =
   Inr \<lparr>tm2_update_authority = None, tm2_mint = replicate 32 7, tm2_name = ''ab'', tm2_symbol = ''c'', tm2_uri = ''''\<rparr>"
proof (rule token_2022_metadata_roundtrip)
  have t: "valid_text s" if "s \<in> {''ab'', ''c'', '''', ''k'', ''v''}" for s
    using that by (auto simp: valid_text_def string_bytes_def)
  show "valid_metadata \<lparr>tm2_update_authority = None, tm2_mint = replicate 32 7, tm2_name = ''ab'',
     tm2_symbol = ''c'', tm2_uri = ''''\<rparr>"
    using t by (simp add: valid_metadata_def)
  show "\<forall>(k, v) \<in> set [(''k'', ''v'')]. valid_text k \<and> valid_text v" using t by simp
qed (simp_all add: encode_metadata_def default_pubkey_def encode_pairs_def)

lemma mint_extensions_parse_witness:
  "\<exists>r. parse_token_2022_mint_extensions sample_externals (replicate 166 0 @ encode_tlv [(9, []), (9, [1]), (6, [7])]) = Inr r \<and>
    pe_warnings r = extension_warnings sample_externals (first_supported {} [(9, []), (9, [1]), (6, [7])])"
proof -
  let ?es = "[(9, []), (9, [1]), (6, [7])] :: (u16 \<times> u8 list) list"
  let ?d = "replicate 166 0 @ encode_tlv ?es"
  let ?ps = "parsed_extensions sample_externals (first_supported {} ?es)"
  let ?r = "\<lparr>pe_json = display_nat (length ?ps), pe_token_metadata = last_metadata None ?ps,
    pe_warnings = extension_warnings sample_externals (first_supported {} ?es)\<rparr>"
  have l: "length ?d = 180" by (simp add: encode_tlv_def)
  have a: "drop 166 ?d = encode_tlv ?es @ []" by simp
  have b: "valid_tlv ?es" "tlv_terminated []" by (simp_all add: valid_tlv_def tlv_terminated_def)
  have c: "json_to_string sample_externals (map fst ?ps) = Some (pe_json ?r)"
    by (simp add: sample_externals_def)
  have "parse_token_2022_mint_extensions sample_externals ?d = Inr ?r"
    by (rule mint_extensions_parse [THEN iffD2], unfold l, simp, simp, intro exI conjI)
      (rule a b c | simp only: parsed_mint_extensions.select_convs)+
  then show ?thesis by fastforce
qed

end
