(* ===== verification/Metadata.thy ===== *)
theory Metadata
  imports Token_2022
begin

text \<open>
  The metadata patches of \<^verbatim>\<open>clickhouse.rs\<close>: per mint the newest metadata fields and the newest
  extensions, collected by all parser threads under one lock and merged at the end of an import with
  the rows already stored.  Versions are ordered as the derived \<^verbatim>\<open>Ord\<close> orders them, field by field.
  A lock-protected update is one step; the threads' interleaving is the order of a list of steps.
\<close>

section \<open>Versions\<close>

datatype metadata_source = Metaplex | Token2022Standalone | Token2022Embedded

datatype token_metadata_fields = TokenMetadataFields
  (mf_name: string) (mf_symbol: string) (mf_uri: string) (mf_update_authority: string)
  (mf_is_mutable: bool) (mf_token_standard: "u8 option") (mf_seller_fee_basis_points: u16)
  (mf_creators: "string list")

datatype versioned_metadata_fields = VersionedMetadataFields
  (vf_account_slot: u64) (vf_source: metadata_source) (vf_source_account: string)
  (vf_fields: token_metadata_fields)

datatype versioned_extensions = VersionedExtensions (ve_account_slot: u64) (ve_json: string)

primrec source_rank :: "metadata_source \<Rightarrow> nat" where
  "source_rank Metaplex = 0"
| "source_rank Token2022Standalone = 1"
| "source_rank Token2022Embedded = 2"

definition fields_key :: "token_metadata_fields \<Rightarrow>
    string \<times> string \<times> string \<times> string \<times> bool \<times> u8 option \<times> u16 \<times> string list" where
  "fields_key f = (mf_name f, mf_symbol f, mf_uri f, mf_update_authority f, mf_is_mutable f,
     mf_token_standard f, mf_seller_fee_basis_points f, mf_creators f)"

definition versioned_fields_key :: "versioned_metadata_fields \<Rightarrow> u64 \<times> nat \<times> string \<times>
    (string \<times> string \<times> string \<times> string \<times> bool \<times> u8 option \<times> u16 \<times> string list)" where
  "versioned_fields_key v = (vf_account_slot v, source_rank (vf_source v), vf_source_account v,
     fields_key (vf_fields v))"

definition versioned_extensions_key :: "versioned_extensions \<Rightarrow> u64 \<times> string" where
  "versioned_extensions_key v = (ve_account_slot v, ve_json v)"

lemma source_rank_inject: "source_rank a = source_rank b \<Longrightarrow> a = b"
  by (cases a; cases b) auto

interpretation versioned_fields_order: ordered_by_key versioned_fields_key
proof unfold_locales
  show "versioned_fields_key a = versioned_fields_key b \<Longrightarrow> a = b" for a b
    by (cases a; cases b; cases "vf_fields a"; cases "vf_fields b")
      (auto simp: versioned_fields_key_def fields_key_def dest: source_rank_inject)
qed

interpretation versioned_extensions_order: ordered_by_key versioned_extensions_key
proof unfold_locales
  show "versioned_extensions_key a = versioned_extensions_key b \<Longrightarrow> a = b" for a b
    by (cases a; cases b) (simp add: versioned_extensions_key_def)
qed

instantiation versioned_metadata_fields :: linorder
begin

definition less_eq_versioned_metadata_fields :: "versioned_metadata_fields \<Rightarrow> versioned_metadata_fields \<Rightarrow> bool" where
  "less_eq_versioned_metadata_fields a b \<longleftrightarrow> versioned_fields_key a \<le> versioned_fields_key b"

definition less_versioned_metadata_fields :: "versioned_metadata_fields \<Rightarrow> versioned_metadata_fields \<Rightarrow> bool" where
  "less_versioned_metadata_fields a b \<longleftrightarrow> versioned_fields_key a < versioned_fields_key b"

instance
  by intro_classes
    (unfold less_eq_versioned_metadata_fields_def less_versioned_metadata_fields_def,
     (rule versioned_fields_order.order_facts; assumption)+)

end

instantiation versioned_extensions :: linorder
begin

definition less_eq_versioned_extensions :: "versioned_extensions \<Rightarrow> versioned_extensions \<Rightarrow> bool" where
  "less_eq_versioned_extensions a b \<longleftrightarrow> versioned_extensions_key a \<le> versioned_extensions_key b"

definition less_versioned_extensions :: "versioned_extensions \<Rightarrow> versioned_extensions \<Rightarrow> bool" where
  "less_versioned_extensions a b \<longleftrightarrow> versioned_extensions_key a < versioned_extensions_key b"

instance
  by intro_classes
    (unfold less_eq_versioned_extensions_def less_versioned_extensions_def,
     (rule versioned_extensions_order.order_facts; assumption)+)

end

lemma newer_slot_wins:
  "vf_account_slot a < vf_account_slot b \<Longrightarrow> a < b"
  "ve_account_slot x < ve_account_slot y \<Longrightarrow> x < y"
  by (simp_all add: less_versioned_metadata_fields_def versioned_fields_key_def less_prod_def'
      less_versioned_extensions_def versioned_extensions_key_def)

definition default_fields :: token_metadata_fields where
  "default_fields = TokenMetadataFields '''' '''' '''' '''' False None 0 []"

definition fields_from_row :: "token_metadata_row \<Rightarrow> token_metadata_fields" where
  "fields_from_row r = TokenMetadataFields (md_name r) (md_symbol r) (md_uri r) (md_update_authority r)
     (md_is_mutable r) (md_token_standard r) (md_seller_fee_basis_points r) (md_creators r)"

definition fields_into_row :: "token_metadata_fields \<Rightarrow> string \<Rightarrow> string \<Rightarrow> u64 \<Rightarrow> token_metadata_row" where
  "fields_into_row f mint extensions updated_slot = \<lparr>md_mint = mint, md_name = mf_name f,
     md_symbol = mf_symbol f, md_uri = mf_uri f, md_update_authority = mf_update_authority f,
     md_is_mutable = mf_is_mutable f, md_token_standard = mf_token_standard f,
     md_seller_fee_basis_points = mf_seller_fee_basis_points f, md_creators = mf_creators f,
     md_extensions = extensions, md_updated_slot = updated_slot\<rparr>"

definition token_2022_metadata_fields :: "externals \<Rightarrow> token_2022_metadata \<Rightarrow> token_metadata_fields" where
  "token_2022_metadata_fields ext m = TokenMetadataFields (tm2_name m) (tm2_symbol m) (tm2_uri m)
     (case tm2_update_authority m of None \<Rightarrow> '''' | Some k \<Rightarrow> pubkey_string ext k)
     (tm2_update_authority m \<noteq> None) None 0 []"

section \<open>Patches\<close>

record metadata_patch =
  mp_fields :: "versioned_metadata_fields option"
  mp_extensions :: "versioned_extensions option"

definition empty_patch :: metadata_patch where
  "empty_patch = \<lparr>mp_fields = None, mp_extensions = None\<rparr>"

type_synonym metadata_patches = "(string \<times> metadata_patch) list"

definition patch_of :: "metadata_patches \<Rightarrow> string \<Rightarrow> metadata_patch" where
  "patch_of ps mint = (case map_of ps mint of None \<Rightarrow> empty_patch | Some p \<Rightarrow> p)"

definition record_metadata_fields ::
  "string \<Rightarrow> versioned_metadata_fields \<Rightarrow> metadata_patches \<Rightarrow> metadata_patches" where
  "record_metadata_fields mint candidate ps =
     (let patch = patch_of ps mint;
          replace = (case mp_fields patch of None \<Rightarrow> True | Some current \<Rightarrow> current < candidate)
      in AList.update mint (if replace then patch\<lparr>mp_fields := Some candidate\<rparr> else patch) ps)"

definition record_extensions ::
  "string \<Rightarrow> versioned_extensions \<Rightarrow> metadata_patches \<Rightarrow> metadata_patches" where
  "record_extensions mint candidate ps =
     (let patch = patch_of ps mint;
          replace = (case mp_extensions patch of None \<Rightarrow> True | Some current \<Rightarrow> current < candidate)
      in AList.update mint (if replace then patch\<lparr>mp_extensions := Some candidate\<rparr> else patch) ps)"

text \<open>A step of a parser thread on the shared patches.\<close>

datatype patch_step =
    StepFields string versioned_metadata_fields
  | StepExtensions string versioned_extensions

fun run_patch_step :: "patch_step \<Rightarrow> metadata_patches \<Rightarrow> metadata_patches" where
  "run_patch_step (StepFields mint v) ps = record_metadata_fields mint v ps"
| "run_patch_step (StepExtensions mint v) ps = record_extensions mint v ps"

section \<open>Merging\<close>

definition merge_metadata_patch ::
  "string \<Rightarrow> metadata_patch \<Rightarrow> token_metadata_row option \<Rightarrow> u64 \<Rightarrow> token_metadata_row" where
  "merge_metadata_patch mint patch previous snapshot_slot =
     (let fs = (case mp_fields patch of
            Some v \<Rightarrow> vf_fields v
          | None \<Rightarrow> (case previous of Some r \<Rightarrow> fields_from_row r | None \<Rightarrow> default_fields));
          es = (case mp_extensions patch of
            Some v \<Rightarrow> ve_json v
          | None \<Rightarrow> (case previous of Some r \<Rightarrow> md_extensions r | None \<Rightarrow> ''[]''))
      in fields_into_row fs mint es snapshot_slot)"

text \<open>
  \<open>chunks n xs\<close> is \<^verbatim>\<open>xs.chunks(n)\<close> for positive \<open>n\<close>.  \<open>query\<close> is ClickHouse's answer to the
  \<^verbatim>\<open>SELECT ... FINAL WHERE mint IN (...)\<close> of one batch.
\<close>

function chunks :: "nat \<Rightarrow> 'a list \<Rightarrow> 'a list list" where
  "chunks n xs = (if n = 0 \<or> xs = [] then [] else take n xs # chunks n (drop n xs))"
  by auto
termination
  by (relation "measure (\<lambda>(n, xs). length xs)") auto

declare chunks.simps [simp del]

definition HOT_TOKEN_INFO_BATCH_SIZE :: nat where "HOT_TOKEN_INFO_BATCH_SIZE = 10000"

type_synonym metadata_query = "string list \<Rightarrow> string + token_metadata_row list"

fun load_existing ::
  "metadata_query \<Rightarrow> string list list \<Rightarrow> (string \<times> token_metadata_row) list \<Rightarrow>
    string + (string \<times> token_metadata_row) list" where
  "load_existing query [] existing = Inr existing"
| "load_existing query (batch # batches) existing =
     try_bind (query batch) (\<lambda>rows.
       load_existing query batches
         (fold (\<lambda>r ex. AList.update (md_mint r) r ex) rows existing))"

text \<open>The rows a merge writes, in the order it writes them.\<close>

definition merged_metadata_rows ::
  "metadata_query \<Rightarrow> metadata_patches \<Rightarrow> bool \<Rightarrow> u64 \<Rightarrow> string + token_metadata_row list" where
  "merged_metadata_rows query ps preserve_existing snapshot_slot =
     (if ps = [] then Inr []
      else let mints = sort (map fst ps) in
        try_bind (if preserve_existing then load_existing query (chunks HOT_TOKEN_INFO_BATCH_SIZE mints) []
                  else Inr []) (\<lambda>existing.
          Inr (map (\<lambda>mint. merge_metadata_patch mint (patch_of ps mint) (map_of existing mint) snapshot_slot)
                 mints)))"

section \<open>Lemmas\<close>

lemma chunks_Nil [simp]: "chunks n [] = []"
  by (simp add: chunks.simps)

lemma concat_chunks: "0 < n \<Longrightarrow> concat (chunks n xs) = xs"
proof (induction n xs rule: chunks.induct)
  case (1 n xs)
  then show ?case by (cases "xs = []") (simp_all add: chunks.simps [of n xs])
qed

lemma chunks_length: "ys \<in> set (chunks n xs) \<Longrightarrow> ys \<noteq> [] \<and> length ys \<le> n"
proof (induction n xs rule: chunks.induct)
  case (1 n xs)
  then show ?case by (cases "n = 0 \<or> xs = []") (auto simp: chunks.simps [of n xs])
qed

lemma patch_of_record_fields:
  "patch_of (record_metadata_fields mint v ps) m =
    (if m = mint then (patch_of ps m)\<lparr>mp_fields := max_opt (mp_fields (patch_of ps m)) (Some v)\<rparr> else patch_of ps m)"
  by (auto simp: record_metadata_fields_def Let_def patch_of_def update_conv max_def split: option.splits)

lemma patch_of_record_extensions:
  "patch_of (record_extensions mint v ps) m =
    (if m = mint then (patch_of ps m)\<lparr>mp_extensions := max_opt (mp_extensions (patch_of ps m)) (Some v)\<rparr> else patch_of ps m)"
  by (auto simp: record_extensions_def Let_def patch_of_def update_conv max_def split: option.splits)

lemma keys_record_step:
  "set (map fst (run_patch_step s ps)) =
    insert (case s of StepFields m _ \<Rightarrow> m | StepExtensions m _ \<Rightarrow> m) (set (map fst ps))"
  by (cases s) (auto simp: record_metadata_fields_def record_extensions_def Let_def update_keys dom_map_of_conv_image_fst [symmetric] dom_update)

lemma distinct_record_step: "distinct (map fst ps) \<Longrightarrow> distinct (map fst (run_patch_step s ps))"
  by (cases s) (auto simp: record_metadata_fields_def record_extensions_def Let_def intro!: distinct_update)

text \<open>A step on the patches seen as a function of the mint; such steps commute.\<close>

fun abstract_patch_step :: "patch_step \<Rightarrow> (string \<Rightarrow> metadata_patch) \<Rightarrow> string \<Rightarrow> metadata_patch" where
  "abstract_patch_step (StepFields mint v) P =
     P(mint := (P mint)\<lparr>mp_fields := max_opt (mp_fields (P mint)) (Some v)\<rparr>)"
| "abstract_patch_step (StepExtensions mint v) P =
     P(mint := (P mint)\<lparr>mp_extensions := max_opt (mp_extensions (P mint)) (Some v)\<rparr>)"

lemma patch_of_step: "patch_of (run_patch_step s ps) = abstract_patch_step s (patch_of ps)"
  by (cases s) (auto simp: patch_of_record_fields patch_of_record_extensions)

lemma patch_of_fold:
  "patch_of (fold run_patch_step steps ps) = fold abstract_patch_step steps (patch_of ps)"
  by (induction steps arbitrary: ps) (simp_all add: patch_of_step)

lemma abstract_patch_step_commute:
  "abstract_patch_step s \<circ> abstract_patch_step t = abstract_patch_step t \<circ> abstract_patch_step s"
  by (cases s; cases t) (auto simp: fun_eq_iff max_opt_ac)

fun step_mint :: "patch_step \<Rightarrow> string" where
  "step_mint (StepFields m _) = m"
| "step_mint (StepExtensions m _) = m"

lemma keys_fold_steps:
  "set (map fst (fold run_patch_step steps ps)) = set (map fst ps) \<union> step_mint ` set steps"
proof (induction steps arbitrary: ps)
  case (Cons s steps)
  then show ?case using keys_record_step [of s ps] by (cases s) (simp_all add: Cons.IH)
qed simp

text \<open>The candidates for one mint among the steps.\<close>

definition field_candidates :: "string \<Rightarrow> patch_step list \<Rightarrow> versioned_metadata_fields list" where
  "field_candidates mint steps = List.map_filter (\<lambda>s. case s of
     StepFields m v \<Rightarrow> if m = mint then Some v else None | _ \<Rightarrow> None) steps"

definition extension_candidates :: "string \<Rightarrow> patch_step list \<Rightarrow> versioned_extensions list" where
  "extension_candidates mint steps = List.map_filter (\<lambda>s. case s of
     StepExtensions m v \<Rightarrow> if m = mint then Some v else None | _ \<Rightarrow> None) steps"

definition max_list_opt :: "'a :: linorder option \<Rightarrow> 'a list \<Rightarrow> 'a option" where
  "max_list_opt a xs = fold (\<lambda>x acc. max_opt acc (Some x)) xs a"

lemma max_list_opt_None: "max_list_opt None xs = (if xs = [] then None else Some (Max (set xs)))"
proof -
  have s: "max_list_opt (Some a) ys = Some (Max (insert a (set ys)))" for a and ys :: "'a list"
  proof (induction ys arbitrary: a)
    case (Cons y ys)
    have "max_list_opt (Some a) (y # ys) = max_list_opt (Some (max a y)) ys" by (simp add: max_list_opt_def)
    then show ?case using Cons by (cases "ys = []") (simp_all add: max.assoc)
  qed (simp add: max_list_opt_def)
  show ?thesis
  proof (cases xs)
    case (Cons x ys)
    then have "max_list_opt None xs = max_list_opt (Some x) ys" by (simp add: max_list_opt_def)
    then show ?thesis using s Cons by simp
  qed (simp add: max_list_opt_def)
qed

lemma patch_of_fold_candidates:
  "patch_of (fold run_patch_step steps ps) mint =
     \<lparr>mp_fields = max_list_opt (mp_fields (patch_of ps mint)) (field_candidates mint steps),
      mp_extensions = max_list_opt (mp_extensions (patch_of ps mint)) (extension_candidates mint steps)\<rparr>"
proof (induction steps arbitrary: ps)
  case Nil
  show ?case by (simp add: field_candidates_def extension_candidates_def max_list_opt_def)
next
  case (Cons s steps)
  show ?case
    by (cases s) (simp_all add: Cons.IH patch_of_record_fields patch_of_record_extensions
        field_candidates_def extension_candidates_def max_list_opt_def)
qed

section \<open>Properties\<close>

text \<open>C21: Metadata does not depend on scheduling: however the parser threads interleave their updates,
  every mint ends with the same patch; starting from empty patches it holds the greatest candidate
  version of the fields and the greatest of the extensions, so the newest slot wins and, in the same
  slot, embedded Token-2022 metadata over standalone over Metaplex.\<close>

theorem patches_order_independent:
  assumes "mset steps = mset steps'"
  shows "patch_of (fold run_patch_step steps ps) = patch_of (fold run_patch_step steps' ps) \<and>
    set (map fst (fold run_patch_step steps ps)) = set (map fst (fold run_patch_step steps' ps)) \<and>
    patch_of (fold run_patch_step steps []) mint =
      \<lparr>mp_fields = (if field_candidates mint steps = [] then None else Some (Max (set (field_candidates mint steps)))),
       mp_extensions = (if extension_candidates mint steps = [] then None
         else Some (Max (set (extension_candidates mint steps))))\<rparr>"
proof (intro conjI)
  show "patch_of (fold run_patch_step steps ps) = patch_of (fold run_patch_step steps' ps)"
    unfolding patch_of_fold
    using assms abstract_patch_step_commute by (metis (no_types, lifting) fold_multiset_equiv)
  show "set (map fst (fold run_patch_step steps ps)) = set (map fst (fold run_patch_step steps' ps))"
    using assms by (simp only: keys_fold_steps) (metis set_mset_mset)
  show "patch_of (fold run_patch_step steps []) mint =
      \<lparr>mp_fields = (if field_candidates mint steps = [] then None else Some (Max (set (field_candidates mint steps)))),
       mp_extensions = (if extension_candidates mint steps = [] then None
         else Some (Max (set (extension_candidates mint steps))))\<rparr>"
  proof -
    have "patch_of [] mint = empty_patch" by (simp add: patch_of_def)
    then show ?thesis by (simp add: patch_of_fold_candidates max_list_opt_None empty_patch_def)
  qed
qed

lemma load_existing_spec:
  assumes "\<And>b. query b = Inr (filter (\<lambda>r. md_mint r \<in> set b) stored)"
    and "distinct (map md_mint stored)"
  shows "\<exists>ex. load_existing query batches existing = Inr ex \<and>
    (\<forall>m. map_of ex m = (if m \<in> set (concat batches) \<and> find (\<lambda>r. md_mint r = m) stored \<noteq> None
       then find (\<lambda>r. md_mint r = m) stored else map_of existing m))"
proof (induction batches arbitrary: existing)
  case Nil
  show ?case by simp
next
  case (Cons b batches)
  have ins: "map_of (fold (\<lambda>r ex. AList.update (md_mint r) r ex) rows ex0) m =
      (case find (\<lambda>r. md_mint r = m) rows of None \<Rightarrow> map_of ex0 m | Some r \<Rightarrow> Some r)"
    if "distinct (map md_mint rows)" for rows ex0 m
    using that
  proof (induction rows arbitrary: ex0)
    case (Cons r rows)
    have "find (\<lambda>x. md_mint x = md_mint r) rows = None"
      using Cons.prems by (simp add: find_None_iff) (metis image_eqI)
    then show ?case using Cons by (auto simp: update_conv split: option.split)
  qed simp
  let ?rows = "filter (\<lambda>r. md_mint r \<in> set b) stored"
  let ?ex0 = "fold (\<lambda>r ex. AList.update (md_mint r) r ex) ?rows existing"
  have d: "distinct (map md_mint ?rows)" using assms(2) by (simp add: distinct_map_filter)
  have fnd: "find (\<lambda>r. md_mint r = m) ?rows = (if m \<in> set b then find (\<lambda>r. md_mint r = m) stored else None)" for m
    by (induction stored) auto
  obtain ex where ex: "load_existing query batches ?ex0 = Inr ex"
    "\<forall>m. map_of ex m = (if m \<in> set (concat batches) \<and> find (\<lambda>r. md_mint r = m) stored \<noteq> None
       then find (\<lambda>r. md_mint r = m) stored else map_of ?ex0 m)"
    using Cons.IH by blast
  show ?case
  proof (intro exI conjI allI)
    show "load_existing query (b # batches) existing = Inr ex" using ex(1) by (simp add: assms(1))
    show "map_of ex m = (if m \<in> set (concat (b # batches)) \<and> find (\<lambda>r. md_mint r = m) stored \<noteq> None
       then find (\<lambda>r. md_mint r = m) stored else map_of existing m)" for m
      using ex(2) ins [OF d, of existing m] fnd [of m] by (auto split: option.split)
  qed
qed

text \<open>C22: The merge at the end of an import writes exactly one row for every patched mint, in ascending
  order; the batches of the lookup do not show in the result: each row merges the mint's patch with
  its stored row when existing rows are preserved, and with none otherwise.\<close>

theorem merged_rows_correct:
  assumes "\<And>b. query b = Inr (filter (\<lambda>r. md_mint r \<in> set b) stored)"
    and "distinct (map md_mint stored)" and "ps \<noteq> []"
  shows "merged_metadata_rows query ps preserve snapshot_slot =
    Inr (map (\<lambda>mint. merge_metadata_patch mint (patch_of ps mint)
      (if preserve then find (\<lambda>r. md_mint r = mint) stored else None) snapshot_slot) (sort (map fst ps)))"
proof (cases preserve)
  case True
  let ?cs = "chunks HOT_TOKEN_INFO_BATCH_SIZE (sort (map fst ps))"
  obtain ex where ex: "load_existing query ?cs [] = Inr ex"
    "\<forall>m. map_of ex m = (if m \<in> set (concat ?cs) \<and> find (\<lambda>r. md_mint r = m) stored \<noteq> None
       then find (\<lambda>r. md_mint r = m) stored else None)"
    using load_existing_spec [OF assms(1,2), of ?cs "[]"] by auto
  have "map_of ex m = find (\<lambda>r. md_mint r = m) stored" if "m \<in> set (map fst ps)" for m
    using ex(2) that by (auto simp: concat_chunks HOT_TOKEN_INFO_BATCH_SIZE_def)
  then show ?thesis
    using assms(3) True ex(1) by (simp add: merged_metadata_rows_def Let_def)
qed (use assms(3) in \<open>simp add: merged_metadata_rows_def\<close>)

lemma patches_order_independent_witness:
  "patch_of (fold run_patch_step [StepExtensions ''m'' (VersionedExtensions 4 ''[]''),
      StepExtensions ''m'' (VersionedExtensions 9 ''[1]'')] []) =
    patch_of (fold run_patch_step [StepExtensions ''m'' (VersionedExtensions 9 ''[1]''),
      StepExtensions ''m'' (VersionedExtensions 4 ''[]'')] [])"
  using patches_order_independent [of "[StepExtensions ''m'' (VersionedExtensions 4 ''[]''),
      StepExtensions ''m'' (VersionedExtensions 9 ''[1]'')]" "[StepExtensions ''m'' (VersionedExtensions 9 ''[1]''),
      StepExtensions ''m'' (VersionedExtensions 4 ''[]'')]" "[]"]
  by (simp add: add_mset_commute)

definition sample_metadata_row :: token_metadata_row where
  "sample_metadata_row = \<lparr>md_mint = ''m'', md_name = ''n'', md_symbol = '''', md_uri = '''',
     md_update_authority = '''', md_is_mutable = True, md_token_standard = Some 2,
     md_seller_fee_basis_points = 5, md_creators = [], md_extensions = ''[]'', md_updated_slot = 3\<rparr>"

lemma merged_rows_correct_witness:
  "merged_metadata_rows (\<lambda>b. Inr (filter (\<lambda>r. md_mint r \<in> set b) [sample_metadata_row]))
     [(''m'', \<lparr>mp_fields = None, mp_extensions = Some (VersionedExtensions 9 ''[1]'')\<rparr>)] True 9 =
    Inr [sample_metadata_row\<lparr>md_extensions := ''[1]'', md_updated_slot := 9\<rparr>]"
  by (subst merged_rows_correct [of _ "[sample_metadata_row]"])
    (simp_all add: merge_metadata_patch_def Let_def patch_of_def fields_from_row_def fields_into_row_def
      sample_metadata_row_def)

end
