(* ===== verification/Worker.thy ===== *)
theory Worker
  imports Sink Metadata
begin

text \<open>
  The account worker of \<^verbatim>\<open>clickhouse.rs\<close>: for every account of an AppendVec it writes a raw row and,
  for hot mints, token rows, mint rows and metadata patches, and it collects close candidates and
  affected pairs.  A worker is its sink, its counters and sets (the fields that
  \<^verbatim>\<open>ParallelWorkerStats\<close> later merges), the shared metadata patches and the shared progress counters;
  what does not change during an import is \<open>worker_config\<close>.  The abstract specification of a worker
  is \<open>account_effects\<close>, the list of effects of one account; the handler is proved equal to running it.
\<close>

section \<open>State\<close>

datatype counter =
    AppendVecsTotal | NonemptyZeroAccount | ZeroBalanceOmitted
  | SplOwnerSeen | SplParsed | SplUnexpectedSize | SplUnpackFailed
  | T22OwnerSeen | T22Parsed | T22UnexpectedSize | T22UnpackFailed

datatype progress_counter = ProgressAccounts | ProgressTokens | ProgressMetadata

text \<open>\<^verbatim>\<open>AccountVersion\<close> is a slot; \<open>ws_closed\<close> has each key once.\<close>

record worker_stats =
  ws_count :: "counter \<Rightarrow> u64"
  ws_closed :: "(string \<times> u64) list"
  ws_pairs :: "token_pair set"

definition stats_default :: worker_stats where
  "stats_default = \<lparr>ws_count = (\<lambda>_. 0), ws_closed = [], ws_pairs = {}\<rparr>"

definition stats_merge :: "worker_stats \<Rightarrow> worker_stats \<Rightarrow> worker_stats" where
  "stats_merge a b = \<lparr>ws_count = (\<lambda>c. ws_count a c + ws_count b c),
     ws_closed = merge_max (ws_closed a) (ws_closed b), ws_pairs = ws_pairs a \<union> ws_pairs b\<rparr>"

record worker_config =
  wc_snapshot_slot :: u64
  wc_collect_close_tombstones :: bool
  wc_collect_affected_pairs :: bool
  wc_hot_mints :: "string set"
  wc_policy :: zero_balance_policy

record 'i worker =
  wk_sink :: "'i sink"
  wk_stats :: worker_stats
  wk_patches :: metadata_patches
  wk_progress :: "progress_counter \<Rightarrow> u64"

type_synonym ('i, 'a) worker_op = "('i worker, string, 'a) op"

definition worker_config_of :: "snapshot_kind \<Rightarrow> u64 \<Rightarrow> string set \<Rightarrow> worker_config" where
  "worker_config_of kind snapshot_slot hot_mints = \<lparr>wc_snapshot_slot = snapshot_slot,
     wc_collect_close_tombstones = collect_close_tombstones kind,
     wc_collect_affected_pairs = (kind = Incremental), wc_hot_mints = hot_mints,
     wc_policy = zero_balance_token_account_policy kind\<rparr>"

definition worker_new :: "'i sink \<Rightarrow> metadata_patches \<Rightarrow> (progress_counter \<Rightarrow> u64) \<Rightarrow> 'i worker" where
  "worker_new sink patches progress =
     \<lparr>wk_sink = sink, wk_stats = stats_default, wk_patches = patches, wk_progress = progress\<rparr>"

definition on_sink :: "('i, 'a) sink_op \<Rightarrow> ('i, 'a) worker_op" where
  "on_sink m w = (case m (wk_sink w) of (r, s') \<Rightarrow> (r, w\<lparr>wk_sink := s'\<rparr>))"

definition bump :: "counter \<Rightarrow> worker_stats \<Rightarrow> worker_stats" where
  "bump c st = st\<lparr>ws_count := (ws_count st)(c := ws_count st c + 1)\<rparr>"

definition count_one :: "counter \<Rightarrow> ('i, unit) worker_op" where
  "count_one c = supdate (\<lambda>w. w\<lparr>wk_stats := bump c (wk_stats w)\<rparr>)"

definition progress_inc :: "progress_counter \<Rightarrow> ('i, unit) worker_op" where
  "progress_inc p = supdate (\<lambda>w. w\<lparr>wk_progress := (wk_progress w)(p := wk_progress w p + 1)\<rparr>)"

section \<open>Close candidates\<close>

definition is_close_tombstone_candidate :: "u64 \<Rightarrow> bool" where
  "is_close_tombstone_candidate l \<longleftrightarrow> l = 0"

definition is_canonical_empty_account :: "u64 \<Rightarrow> u64 \<Rightarrow> pubkey \<Rightarrow> bool \<Rightarrow> bool" where
  "is_canonical_empty_account len l owner exec \<longleftrightarrow>
     len = 0 \<and> l = 0 \<and> owner = default_pubkey \<and> \<not> exec"

definition account_pubkey :: "externals \<Rightarrow> stored_account_meta \<Rightarrow> string" where
  "account_pubkey ext a = pubkey_string ext (sm_pubkey (meta a))"

definition remember_close_candidate ::
  "externals \<Rightarrow> stored_account_meta \<Rightarrow> u64 \<Rightarrow> (string \<times> u64) list \<Rightarrow> (string \<times> u64) list" where
  "remember_close_candidate ext a account_slot candidates =
     upsert_max (account_pubkey ext a) account_slot candidates"

definition record_close_candidate ::
  "externals \<Rightarrow> worker_config \<Rightarrow> stored_account_meta \<Rightarrow> u64 \<Rightarrow> ('i, unit) worker_op" where
  "record_close_candidate ext cfg a account_slot =
     swhen (wc_collect_close_tombstones cfg \<and> is_close_tombstone_candidate (lamports (account_meta a)))
       (supdate (\<lambda>w. w\<lparr>wk_stats := (wk_stats w)\<lparr>ws_closed :=
          remember_close_candidate ext a account_slot (ws_closed (wk_stats w))\<rparr>\<rparr>))"

definition remember_affected_pair :: "worker_config \<Rightarrow> string \<Rightarrow> string \<Rightarrow> ('i, unit) worker_op" where
  "remember_affected_pair cfg mint owner =
     swhen (wc_collect_affected_pairs cfg)
       (supdate (\<lambda>w. w\<lparr>wk_stats := (wk_stats w)\<lparr>ws_pairs := insert (mint, owner) (ws_pairs (wk_stats w))\<rparr>\<rparr>))"

section \<open>Token rows\<close>

definition token_account_row_of ::
  "externals \<Rightarrow> stored_account_meta \<Rightarrow> u64 \<Rightarrow> token_account \<Rightarrow> token_account_row" where
  "token_account_row_of ext a account_slot ta = \<lparr>ta_pubkey = account_pubkey ext a,
     ta_mint = pubkey_string ext (tka_mint ta), ta_owner = pubkey_string ext (tka_owner ta),
     ta_amount = tka_amount ta, ta_delegate = map_option (pubkey_string ext) (tka_delegate ta),
     ta_delegated_amount = tka_delegated_amount ta, ta_state = tka_state ta,
     ta_close_authority = map_option (pubkey_string ext) (tka_close_authority ta),
     ta_is_deleted = 0, ta_updated_slot = account_slot\<rparr>"

definition token_mint_row_of :: "externals \<Rightarrow> string \<Rightarrow> u64 \<Rightarrow> token_mint \<Rightarrow> token_mint_row" where
  "token_mint_row_of ext mint slot tm = \<lparr>tm_mint = mint,
     tm_mint_authority = map_option (pubkey_string ext) (tkm_mint_authority tm),
     tm_supply = tkm_supply tm, tm_decimals = tkm_decimals tm, tm_is_initialized = tkm_is_initialized tm,
     tm_freeze_authority = map_option (pubkey_string ext) (tkm_freeze_authority tm), tm_updated_slot = slot\<rparr>"

definition account_row_of :: "externals \<Rightarrow> u64 \<Rightarrow> stored_account_meta \<Rightarrow> account_row" where
  "account_row_of ext snapshot_slot a = \<lparr>ar_pubkey = account_pubkey ext a,
     ar_owner = pubkey_string ext (am_owner (account_meta a)), ar_lamports = lamports (account_meta a),
     ar_data_len = data_len (meta a), ar_executable = executable (account_meta a),
     ar_updated_slot = snapshot_slot\<rparr>"

definition write_hot_token_account_row ::
  "'i ins_ops \<Rightarrow> externals \<Rightarrow> worker_config \<Rightarrow> stored_account_meta \<Rightarrow> u64 \<Rightarrow> token_account \<Rightarrow> ('i, unit) worker_op" where
  "write_hot_token_account_row ops ext cfg a account_slot ta =
     (if \<not> writes_live_amount (wc_policy cfg) (tka_amount ta) then count_one ZeroBalanceOmitted
      else sthen (remember_affected_pair cfg (pubkey_string ext (tka_mint ta)) (pubkey_string ext (tka_owner ta)))
             (on_sink (write_token_account ops (token_account_row_of ext a account_slot ta))))"

section \<open>SPL token accounts\<close>

text \<open>\<^verbatim>\<open>match account.meta.data_len as usize\<close>: the account length is tried before the mint length.\<close>

definition insert_spl_token ::
  "'i ins_ops \<Rightarrow> externals \<Rightarrow> worker_config \<Rightarrow> stored_account_meta \<Rightarrow> u64 \<Rightarrow> ('i, unit) worker_op" where
  "insert_spl_token ops ext cfg a account_slot =
     (if unat (data_len (meta a)) = spl_account_len ext then
        (case spl_unpack_account ext (sa_data a) of
           Some ta \<Rightarrow>
             sthen (swhen (pubkey_string ext (tka_mint ta) \<in> wc_hot_mints cfg)
                      (write_hot_token_account_row ops ext cfg a account_slot ta))
            (sthen (count_one SplParsed) (progress_inc ProgressTokens))
         | None \<Rightarrow> sthen (count_one SplUnpackFailed) (record_close_candidate ext cfg a account_slot))
      else if unat (data_len (meta a)) = spl_mint_len ext then
        (case spl_unpack_mint ext (sa_data a) of
           Some tm \<Rightarrow>
             sthen (swhen (account_pubkey ext a \<in> wc_hot_mints cfg)
                      (on_sink (write_token_mint ops
                        (token_mint_row_of ext (account_pubkey ext a) (wc_snapshot_slot cfg) tm))))
            (sthen (count_one SplParsed) (progress_inc ProgressTokens))
         | None \<Rightarrow> count_one SplUnpackFailed)
      else count_one SplUnexpectedSize)"

section \<open>Token-2022 accounts\<close>

definition on_patches :: "(metadata_patches \<Rightarrow> metadata_patches) \<Rightarrow> ('i, unit) worker_op" where
  "on_patches f = supdate (\<lambda>w. w\<lparr>wk_patches := f (wk_patches w)\<rparr>)"

definition record_token_2022_metadata ::
  "externals \<Rightarrow> worker_config \<Rightarrow> token_2022_metadata \<Rightarrow> pubkey option \<Rightarrow> u64 \<Rightarrow> metadata_source \<Rightarrow> string \<Rightarrow>
    ('i, bool) worker_op" where
  "record_token_2022_metadata ext cfg md expected_mint account_slot source source_account =
     (if (case expected_mint of Some m \<Rightarrow> tm2_mint md \<noteq> m | None \<Rightarrow> False) then sreturn False
      else let mint = pubkey_string ext (tm2_mint md) in
        if mint \<notin> wc_hot_mints cfg then sreturn False
        else sthen (on_patches (record_metadata_fields mint
               (VersionedMetadataFields account_slot source source_account (token_2022_metadata_fields ext md))))
             (sreturn True))"

definition insert_token_2022_mint ::
  "'i ins_ops \<Rightarrow> externals \<Rightarrow> worker_config \<Rightarrow> stored_account_meta \<Rightarrow> u64 \<Rightarrow> token_mint \<Rightarrow> ('i, unit) worker_op" where
  "insert_token_2022_mint ops ext cfg a account_slot tm =
     (let mint = account_pubkey ext a in
      swhen (mint \<in> wc_hot_mints cfg)
        (sthen (on_sink (write_token_mint ops (token_mint_row_of ext mint (wc_snapshot_slot cfg) tm)))
          (case parse_token_2022_mint_extensions ext (sa_data a) of
             Inr parsed \<Rightarrow>
               sthen (on_patches (record_extensions mint (VersionedExtensions account_slot (pe_json parsed))))
              (sthen (case pe_token_metadata parsed of
                   Some md \<Rightarrow> sthen (record_token_2022_metadata ext cfg md (Some (sm_pubkey (meta a)))
                                 account_slot Token2022Embedded mint) (sreturn ())
                 | None \<Rightarrow> sreturn ())
                (progress_inc ProgressMetadata))
           | Inl _ \<Rightarrow> sreturn ())))"

definition insert_token_2022 ::
  "'i ins_ops \<Rightarrow> externals \<Rightarrow> worker_config \<Rightarrow> stored_account_meta \<Rightarrow> u64 \<Rightarrow> ('i, unit) worker_op" where
  "insert_token_2022 ops ext cfg a account_slot =
     (case unpack_token_2022_base_state ext (sa_data a) of
        Some (BaseAccount ta) \<Rightarrow>
          sthen (swhen (pubkey_string ext (tka_mint ta) \<in> wc_hot_mints cfg)
                   (write_hot_token_account_row ops ext cfg a account_slot ta))
         (sthen (count_one T22Parsed) (progress_inc ProgressTokens))
      | Some (BaseMint tm) \<Rightarrow>
          sthen (insert_token_2022_mint ops ext cfg a account_slot tm)
         (sthen (count_one T22Parsed) (progress_inc ProgressTokens))
      | None \<Rightarrow>
          (case parse_token_2022_metadata_value (sa_data a) of
             Inr md \<Rightarrow>
               sthen (sbind (record_token_2022_metadata ext cfg md None account_slot Token2022Standalone
                        (account_pubkey ext a))
                      (\<lambda>recorded. swhen recorded (progress_inc ProgressMetadata)))
                 (count_one T22Parsed)
           | Inl _ \<Rightarrow> sthen (count_one T22UnpackFailed) (record_close_candidate ext cfg a account_slot)))"

section \<open>Metaplex metadata\<close>

text \<open>The decoding shared by both kinds of workers: the mint and the fields, if the account has them.\<close>

definition decode_token_metadata :: "externals \<Rightarrow> u8 list \<Rightarrow> (string \<times> token_metadata_fields) option" where
  "decode_token_metadata ext d =
     (if d = [] then None
      else case borsh_account_key ext d of
        None \<Rightarrow> None
      | Some (key, d1) \<Rightarrow>
          if key \<noteq> MetadataV1 then None
          else (case borsh_metadata ext d1 of
            None \<Rightarrow> None
          | Some (md, d2) \<Rightarrow>
              let standard =
                (case borsh_metadata_ext ext d2 of
                   None \<Rightarrow> None
                 | Some (_, d3) \<Rightarrow>
                     (case borsh_metadata_ext_v1_2 ext d3 of
                        None \<Rightarrow> None | Some (x, _) \<Rightarrow> token_standard x));
                  creators = (case mp_creators (mp_data md) of None \<Rightarrow> [] | Some cs \<Rightarrow> cs)
              in Some (pubkey_string ext (mp_mint md),
                   TokenMetadataFields (mp_name (mp_data md)) (mp_symbol (mp_data md)) (mp_uri (mp_data md))
                     (pubkey_string ext (mp_update_authority md)) (mp_is_mutable md) standard
                     (mp_seller_fee_basis_points (mp_data md))
                     (map (\<lambda>c. pubkey_string ext (cr_address c)) creators))))"

definition insert_token_metadata ::
  "externals \<Rightarrow> worker_config \<Rightarrow> stored_account_meta \<Rightarrow> u64 \<Rightarrow> ('i, unit) worker_op" where
  "insert_token_metadata ext cfg a account_slot =
     (case decode_token_metadata ext (sa_data a) of
        None \<Rightarrow> sreturn ()
      | Some (mint, fs) \<Rightarrow>
          swhen (mint \<in> wc_hot_mints cfg)
            (sthen (on_patches (record_metadata_fields mint
               (VersionedMetadataFields account_slot Metaplex (account_pubkey ext a) fs)))
             (progress_inc ProgressMetadata)))"

section \<open>Accounts and AppendVecs\<close>

definition insert_account ::
  "'i ins_ops \<Rightarrow> externals \<Rightarrow> worker_config \<Rightarrow> u64 \<Rightarrow> stored_account_meta \<Rightarrow> ('i, unit) worker_op" where
  "insert_account ops ext cfg account_slot a =
     sthen (on_sink (maybe_force_commit ops))
    (sthen (on_sink (write_account ops (account_row_of ext (wc_snapshot_slot cfg) a)))
    (sthen (swhen (wc_collect_close_tombstones cfg \<and>
              is_canonical_empty_account (data_len (meta a)) (lamports (account_meta a))
                (am_owner (account_meta a)) (executable (account_meta a)))
             (record_close_candidate ext cfg a account_slot))
    (sthen (if am_owner (account_meta a) = spl_token_id ext
            then sthen (count_one SplOwnerSeen) (insert_spl_token ops ext cfg a account_slot)
            else if am_owner (account_meta a) = token_2022_id ext
            then sthen (count_one T22OwnerSeen) (insert_token_2022 ops ext cfg a account_slot)
            else sreturn ())
    (sthen (swhen (am_owner (account_meta a) = mpl_metadata_id ext)
              (insert_token_metadata ext cfg a account_slot))
           (progress_inc ProgressAccounts)))))"

text \<open>A panic or an endless iteration of the account iterator would end the thread.\<close>

definition on_append_vec_count ::
  "'i ins_ops \<Rightarrow> externals \<Rightarrow> worker_config \<Rightarrow> append_vec \<Rightarrow> ('i, u64) worker_op" where
  "on_append_vec_count ops ext cfg av =
     (case append_vec_accounts av of
        Some (Done as) \<Rightarrow>
          sthen (sfor (insert_account ops ext cfg (av_slot av)) as) (sreturn (word_of_nat (length as)))
      | _ \<Rightarrow> sfail ''append vec iteration does not return'')"

section \<open>The effects of an account\<close>

datatype worker_effect =
    ERow sink_table row
  | EStep patch_step
  | ECount counter
  | EProgress progress_counter
  | EClose string u64
  | EPair string string

fun stats_effect :: "worker_effect \<Rightarrow> worker_stats \<Rightarrow> worker_stats" where
  "stats_effect (ECount c) st = bump c st"
| "stats_effect (EClose k slot) st = st\<lparr>ws_closed := upsert_max k slot (ws_closed st)\<rparr>"
| "stats_effect (EPair m w) st = st\<lparr>ws_pairs := insert (m, w) (ws_pairs st)\<rparr>"
| "stats_effect _ st = st"

definition run_effect :: "'i ins_ops \<Rightarrow> worker_effect \<Rightarrow> ('i, unit) worker_op" where
  "run_effect ops e =
     (case e of
        ERow t r \<Rightarrow> on_sink (write_row ops t r)
      | EStep s \<Rightarrow> on_patches (run_patch_step s)
      | EProgress p \<Rightarrow> progress_inc p
      | _ \<Rightarrow> supdate (\<lambda>w. w\<lparr>wk_stats := stats_effect e (wk_stats w)\<rparr>))"

definition close_effects :: "externals \<Rightarrow> worker_config \<Rightarrow> u64 \<Rightarrow> stored_account_meta \<Rightarrow> worker_effect list" where
  "close_effects ext cfg slot a =
     (if wc_collect_close_tombstones cfg \<and> lamports (account_meta a) = 0
      then [EClose (account_pubkey ext a) slot] else [])"

definition token_account_effects ::
  "externals \<Rightarrow> worker_config \<Rightarrow> u64 \<Rightarrow> stored_account_meta \<Rightarrow> token_account \<Rightarrow> worker_effect list" where
  "token_account_effects ext cfg slot a ta =
     (let mint = pubkey_string ext (tka_mint ta) in
      if mint \<notin> wc_hot_mints cfg then []
      else if \<not> writes_live_amount (wc_policy cfg) (tka_amount ta) then [ECount ZeroBalanceOmitted]
      else (if wc_collect_affected_pairs cfg then [EPair mint (pubkey_string ext (tka_owner ta))] else []) @
        [ERow TTokenAccount (RTokenAccount (token_account_row_of ext a slot ta))])"

definition mint_row_effects :: "externals \<Rightarrow> worker_config \<Rightarrow> stored_account_meta \<Rightarrow> token_mint \<Rightarrow> worker_effect list" where
  "mint_row_effects ext cfg a tm =
     (if account_pubkey ext a \<in> wc_hot_mints cfg
      then [ERow TTokenMint (RTokenMint (token_mint_row_of ext (account_pubkey ext a) (wc_snapshot_slot cfg) tm))]
      else [])"

definition metadata_effects :: "externals \<Rightarrow> worker_config \<Rightarrow> token_2022_metadata \<Rightarrow> pubkey option \<Rightarrow> u64 \<Rightarrow>
    metadata_source \<Rightarrow> string \<Rightarrow> worker_effect list" where
  "metadata_effects ext cfg md expected slot source source_account =
     (if (case expected of Some m \<Rightarrow> tm2_mint md \<noteq> m | None \<Rightarrow> False) \<or>
         pubkey_string ext (tm2_mint md) \<notin> wc_hot_mints cfg then []
      else [EStep (StepFields (pubkey_string ext (tm2_mint md))
              (VersionedMetadataFields slot source source_account (token_2022_metadata_fields ext md)))])"

definition extension_effects ::
  "externals \<Rightarrow> worker_config \<Rightarrow> u64 \<Rightarrow> stored_account_meta \<Rightarrow> worker_effect list" where
  "extension_effects ext cfg slot a =
     (if account_pubkey ext a \<notin> wc_hot_mints cfg then []
      else case parse_token_2022_mint_extensions ext (sa_data a) of
        Inl _ \<Rightarrow> []
      | Inr parsed \<Rightarrow>
          EStep (StepExtensions (account_pubkey ext a) (VersionedExtensions slot (pe_json parsed))) #
          (case pe_token_metadata parsed of
             Some md \<Rightarrow> metadata_effects ext cfg md (Some (sm_pubkey (meta a))) slot Token2022Embedded
               (account_pubkey ext a)
           | None \<Rightarrow> []) @ [EProgress ProgressMetadata])"

definition spl_effects :: "externals \<Rightarrow> worker_config \<Rightarrow> u64 \<Rightarrow> stored_account_meta \<Rightarrow> worker_effect list" where
  "spl_effects ext cfg slot a =
     (if unat (data_len (meta a)) = spl_account_len ext then
        (case spl_unpack_account ext (sa_data a) of
           Some ta \<Rightarrow> token_account_effects ext cfg slot a ta @ [ECount SplParsed, EProgress ProgressTokens]
         | None \<Rightarrow> ECount SplUnpackFailed # close_effects ext cfg slot a)
      else if unat (data_len (meta a)) = spl_mint_len ext then
        (case spl_unpack_mint ext (sa_data a) of
           Some tm \<Rightarrow> mint_row_effects ext cfg a tm @ [ECount SplParsed, EProgress ProgressTokens]
         | None \<Rightarrow> [ECount SplUnpackFailed])
      else [ECount SplUnexpectedSize])"

definition t22_effects :: "externals \<Rightarrow> worker_config \<Rightarrow> u64 \<Rightarrow> stored_account_meta \<Rightarrow> worker_effect list" where
  "t22_effects ext cfg slot a =
     (case unpack_token_2022_base_state ext (sa_data a) of
        Some (BaseAccount ta) \<Rightarrow> token_account_effects ext cfg slot a ta @ [ECount T22Parsed, EProgress ProgressTokens]
      | Some (BaseMint tm) \<Rightarrow> mint_row_effects ext cfg a tm @ extension_effects ext cfg slot a @
          [ECount T22Parsed, EProgress ProgressTokens]
      | None \<Rightarrow>
          (case parse_token_2022_metadata_value (sa_data a) of
             Inr md \<Rightarrow>
               (let es = metadata_effects ext cfg md None slot Token2022Standalone (account_pubkey ext a)
                in es @ (if es = [] then [] else [EProgress ProgressMetadata]) @ [ECount T22Parsed])
           | Inl _ \<Rightarrow> ECount T22UnpackFailed # close_effects ext cfg slot a))"

definition metaplex_effects :: "externals \<Rightarrow> worker_config \<Rightarrow> u64 \<Rightarrow> stored_account_meta \<Rightarrow> worker_effect list" where
  "metaplex_effects ext cfg slot a =
     (case decode_token_metadata ext (sa_data a) of
        None \<Rightarrow> []
      | Some (mint, fs) \<Rightarrow>
          if mint \<in> wc_hot_mints cfg
          then [EStep (StepFields mint (VersionedMetadataFields slot Metaplex (account_pubkey ext a) fs)),
                EProgress ProgressMetadata]
          else [])"

definition account_effects :: "externals \<Rightarrow> worker_config \<Rightarrow> u64 \<Rightarrow> stored_account_meta \<Rightarrow> worker_effect list" where
  "account_effects ext cfg slot a =
     ERow TAccount (RAccount (account_row_of ext (wc_snapshot_slot cfg) a)) #
     (if is_canonical_empty_account (data_len (meta a)) (lamports (account_meta a))
           (am_owner (account_meta a)) (executable (account_meta a))
      then close_effects ext cfg slot a else []) @
     (if am_owner (account_meta a) = spl_token_id ext then ECount SplOwnerSeen # spl_effects ext cfg slot a
      else if am_owner (account_meta a) = token_2022_id ext then ECount T22OwnerSeen # t22_effects ext cfg slot a
      else []) @
     (if am_owner (account_meta a) = mpl_metadata_id ext then metaplex_effects ext cfg slot a else []) @
     [EProgress ProgressAccounts]"

section \<open>Refinement\<close>

lemma run_effect_simps:
  "run_effect ops (ERow t r) = on_sink (write_row ops t r)"
  "run_effect ops (EStep s) = on_patches (run_patch_step s)"
  "run_effect ops (EProgress p) = progress_inc p"
  "run_effect ops (ECount c) = count_one c"
  "run_effect ops (EClose k slot) =
     supdate (\<lambda>w. w\<lparr>wk_stats := (wk_stats w)\<lparr>ws_closed := upsert_max k slot (ws_closed (wk_stats w))\<rparr>\<rparr>)"
  "run_effect ops (EPair m v) =
     supdate (\<lambda>w. w\<lparr>wk_stats := (wk_stats w)\<lparr>ws_pairs := insert (m, v) (ws_pairs (wk_stats w))\<rparr>\<rparr>)"
  by (simp_all add: run_effect_def count_one_def)

lemmas effect_run = run_effect_simps sfor_append sthen_assoc

lemma on_patches_fields: "on_patches (record_metadata_fields m v) = on_patches (run_patch_step (StepFields m v))"
  and on_patches_extensions: "on_patches (record_extensions m x) = on_patches (run_patch_step (StepExtensions m x))"
  by (simp_all add: on_patches_def)

lemma record_close_effects:
  "record_close_candidate ext cfg a slot = sfor (run_effect ops) (close_effects ext cfg slot a)"
  by (simp add: record_close_candidate_def close_effects_def is_close_tombstone_candidate_def
      remember_close_candidate_def swhen_def effect_run)

lemma token_account_effects_run:
  "swhen (pubkey_string ext (tka_mint ta) \<in> wc_hot_mints cfg)
     (write_hot_token_account_row ops ext cfg a slot ta) =
   sfor (run_effect ops) (token_account_effects ext cfg slot a ta)"
  by (simp add: token_account_effects_def write_hot_token_account_row_def remember_affected_pair_def
      write_token_account_def effect_run Let_def)

lemma mint_row_effects_run:
  "swhen (account_pubkey ext a \<in> wc_hot_mints cfg)
     (on_sink (write_token_mint ops (token_mint_row_of ext (account_pubkey ext a) (wc_snapshot_slot cfg) tm))) =
   sfor (run_effect ops) (mint_row_effects ext cfg a tm)"
  by (simp add: mint_row_effects_def write_token_mint_def effect_run)

lemma metadata_effects_run:
  "record_token_2022_metadata ext cfg md expected slot source acct =
   sthen (sfor (run_effect ops) (metadata_effects ext cfg md expected slot source acct))
     (sreturn (metadata_effects ext cfg md expected slot source acct \<noteq> []))"
  by (simp add: record_token_2022_metadata_def metadata_effects_def Let_def effect_run on_patches_fields
      split: option.split)

lemma insert_spl_effects:
  "insert_spl_token ops ext cfg a slot = sfor (run_effect ops) (spl_effects ext cfg slot a)"
  by (auto simp: insert_spl_token_def spl_effects_def token_account_effects_run mint_row_effects_run
      record_close_effects [of _ _ _ _ ops] effect_run split: option.split)

lemma insert_t22_mint_effects:
  "insert_token_2022_mint ops ext cfg a slot tm =
   sfor (run_effect ops) (mint_row_effects ext cfg a tm @ extension_effects ext cfg slot a)"
  by (auto simp: insert_token_2022_mint_def mint_row_effects_def extension_effects_def Let_def effect_run
      write_token_mint_def metadata_effects_run [of _ _ _ _ _ _ _ ops] on_patches_extensions
      split: sum.split option.split)

lemma insert_t22_effects:
  "insert_token_2022 ops ext cfg a slot = sfor (run_effect ops) (t22_effects ext cfg slot a)"
  by (auto simp: insert_token_2022_def t22_effects_def token_account_effects_run insert_t22_mint_effects
      record_close_effects [of _ _ _ _ ops] metadata_effects_run [of _ _ _ _ _ _ _ ops] effect_run sbind_sthen Let_def
      split: option.split sum.split token_2022_base_state.split)

lemma insert_metaplex_effects:
  "insert_token_metadata ext cfg a slot = sfor (run_effect ops) (metaplex_effects ext cfg slot a)"
  by (auto simp: insert_token_metadata_def metaplex_effects_def effect_run on_patches_fields split: option.split)

lemma canonical_close_effects:
  "swhen (wc_collect_close_tombstones cfg \<and> c) (record_close_candidate ext cfg a slot) =
   sfor (run_effect ops) (if c then close_effects ext cfg slot a else [])"
  by (simp add: record_close_effects [of _ _ _ _ ops]) (simp add: swhen_def close_effects_def)

lemma owner_effects:
  "(if p then sthen (count_one SplOwnerSeen) (insert_spl_token ops ext cfg a slot)
    else if q then sthen (count_one T22OwnerSeen) (insert_token_2022 ops ext cfg a slot) else sreturn ()) =
   sfor (run_effect ops) (if p then ECount SplOwnerSeen # spl_effects ext cfg slot a
     else if q then ECount T22OwnerSeen # t22_effects ext cfg slot a else [])"
  by (simp add: insert_spl_effects insert_t22_effects run_effect_simps)

lemma metaplex_owner_effects:
  "swhen p (insert_token_metadata ext cfg a slot) =
   sfor (run_effect ops) (if p then metaplex_effects ext cfg slot a else [])"
  by (simp add: insert_metaplex_effects [of _ _ _ _ ops] swhen_def)

lemma insert_account_effects:
  "insert_account ops ext cfg slot a =
   sthen (on_sink (maybe_force_commit ops)) (sfor (run_effect ops) (account_effects ext cfg slot a))"
  unfolding insert_account_def account_effects_def canonical_close_effects [of _ _ _ _ _ ops] owner_effects
    metaplex_owner_effects [of _ _ _ _ _ ops] sfor_append sfor.simps run_effect_simps write_account_def
    sthen_assoc sthen_return_right
  by (rule refl)

lemma succeeds_on_sink: "succeeds P m \<Longrightarrow> succeeds (\<lambda>w. P (wk_sink w)) (on_sink m)"
  by (fastforce simp: succeeds_def on_sink_def)

lemma insert_account_succeeds:
  assumes "never_fails ops"
  shows "succeeds (\<lambda>w. gate_open (wk_sink w)) (insert_account ops ext cfg slot a)"
proof -
  have "succeeds (\<lambda>w. gate_open (wk_sink w)) (run_effect ops e)" for e
    using write_row_succeeds [OF assms]
    by (cases e) (auto simp: run_effect_simps on_patches_def progress_inc_def count_one_def
        intro!: succeeds_on_sink succeeds_supdate)
  then show ?thesis
    unfolding insert_account_effects
    by (intro succeeds_rules succeeds_on_sink maybe_force_commit_succeeds assms)
qed

lemma succeeds_flush:
  assumes "never_fails ops"
  shows "succeeds gate_open (\<lambda>s. if has_pending_rows ops s then force_commit_all ops s else (Inr (), s))"
  using force_commit_all_succeeds [OF assms] by (simp add: succeeds_def)

section \<open>What a list of effects does\<close>

definition rows_in :: "sink_table \<Rightarrow> worker_effect list \<Rightarrow> row list" where
  "rows_in t es = List.map_filter (\<lambda>e. case e of ERow t' r \<Rightarrow> if t' = t then Some r else None | _ \<Rightarrow> None) es"

definition steps_in :: "worker_effect list \<Rightarrow> patch_step list" where
  "steps_in es = List.map_filter (\<lambda>e. case e of EStep s \<Rightarrow> Some s | _ \<Rightarrow> None) es"

definition progress_in :: "progress_counter \<Rightarrow> worker_effect list \<Rightarrow> u64" where
  "progress_in p es = word_of_nat (length (filter (\<lambda>e. e = EProgress p) es))"

lemma effects_Nil [simp]: "rows_in t [] = []" "steps_in [] = []" "progress_in p [] = 0"
  by (simp_all add: rows_in_def steps_in_def progress_in_def)

lemma map_filter_append: "List.map_filter f (xs @ ys) = List.map_filter f xs @ List.map_filter f ys"
  by (simp add: map_filter_def)

lemma effects_append:
  "rows_in t (xs @ ys) = rows_in t xs @ rows_in t ys" "steps_in (xs @ ys) = steps_in xs @ steps_in ys"
  "progress_in p (xs @ ys) = progress_in p xs + progress_in p ys"
  by (simp_all add: rows_in_def steps_in_def progress_in_def map_filter_append)

lemma on_sink_eq_Inr_iff:
  "on_sink m w = (Inr x, w') \<longleftrightarrow> (\<exists>s'. m (wk_sink w) = (Inr x, s') \<and> w' = w\<lparr>wk_sink := s'\<rparr>)"
  by (auto simp: on_sink_def split: prod.splits)

context inserter
begin

text \<open>\<open>effects_done w es w'\<close>: \<open>w'\<close> is \<open>w\<close> after the effects \<open>es\<close>, as far as the sink can be observed.\<close>

definition effects_done :: "'i worker \<Rightarrow> worker_effect list \<Rightarrow> 'i worker \<Rightarrow> bool" where
  "effects_done w es w' \<longleftrightarrow>
     taken (wk_sink w') = (\<lambda>t. taken (wk_sink w) t @ rows_in t es) \<and>
     wk_patches w' = fold run_patch_step (steps_in es) (wk_patches w) \<and>
     wk_stats w' = fold stats_effect es (wk_stats w) \<and>
     wk_progress w' = (\<lambda>p. wk_progress w p + progress_in p es) \<and>
     (inv (wk_sink w) \<longrightarrow> inv (wk_sink w'))"

lemma effects_done_Nil: "effects_done w [] w"
  by (simp add: effects_done_def)

lemma effects_done_trans: "effects_done w es w1 \<Longrightarrow> effects_done w1 es' w2 \<Longrightarrow> effects_done w (es @ es') w2"
  by (simp add: effects_done_def effects_append add.assoc)

lemma run_effect_done:
  assumes "run_effect ops e w = (Inr u, w')"
  shows "effects_done w [e] w'"
proof (cases e)
  case (ERow t r)
  then obtain s' where s': "write_row ops t r (wk_sink w) = (Inr (), s')" "w' = w\<lparr>wk_sink := s'\<rparr>"
    using assms by (auto simp: run_effect_simps on_sink_eq_Inr_iff)
  show ?thesis
    using write_row_taken [OF s'(1)] write_row_inv [OF s'(1)] s'(2) ERow
    by (auto simp: effects_done_def rows_in_def steps_in_def progress_in_def fun_eq_iff)
next
  case (EProgress p)
  then show ?thesis
    using assms by (auto simp: run_effect_simps progress_inc_def effects_done_def rows_in_def steps_in_def
        progress_in_def fun_eq_iff)
qed (use assms in \<open>auto simp: run_effect_simps on_patches_def count_one_def effects_done_def
    rows_in_def steps_in_def progress_in_def\<close>)

lemma run_effects_done: "sfor (run_effect ops) es w = (Inr u, w') \<Longrightarrow> effects_done w es w'"
proof (induction es arbitrary: w)
  case Nil
  then show ?case by (simp add: effects_done_Nil)
next
  case (Cons e es)
  then obtain w1 where "run_effect ops e w = (Inr (), w1)" "sfor (run_effect ops) es w1 = (Inr u, w')"
    by (auto simp: op_success)
  then have "effects_done w ([e] @ es) w'"
    using run_effect_done Cons.IH effects_done_trans by blast
  then show ?case by simp
qed

lemma insert_account_done:
  assumes "insert_account ops ext cfg slot a w = (Inr u, w')"
  shows "effects_done w (account_effects ext cfg slot a) w'"
proof -
  obtain s1 where s1: "maybe_force_commit ops (wk_sink w) = (Inr (), s1)"
    "sfor (run_effect ops) (account_effects ext cfg slot a) (w\<lparr>wk_sink := s1\<rparr>) = (Inr u, w')"
    using assms by (auto simp: insert_account_effects op_success on_sink_eq_Inr_iff)
  have "effects_done w [] (w\<lparr>wk_sink := s1\<rparr>)"
    using maybe_force_commit_taken [OF s1(1)] maybe_force_commit_inv [OF s1(1)]
    by (simp add: effects_done_def)
  then show ?thesis using effects_done_trans run_effects_done [OF s1(2)] by fastforce
qed

end

section \<open>Properties\<close>

text \<open>An effect that only concerns hot mints and, for a live row, an amount the policy writes.\<close>

fun effect_ok :: "worker_config \<Rightarrow> u64 \<Rightarrow> worker_effect \<Rightarrow> bool" where
  "effect_ok cfg slot (ERow t r) \<longleftrightarrow>
     (case r of
        RTokenAccount ta \<Rightarrow> t = TTokenAccount \<and> ta_mint ta \<in> wc_hot_mints cfg \<and>
          writes_live_amount (wc_policy cfg) (ta_amount ta) \<and> ta_is_deleted ta = 0 \<and> ta_updated_slot ta = slot
      | RTokenMint tm \<Rightarrow> t = TTokenMint \<and> tm_mint tm \<in> wc_hot_mints cfg \<and> tm_updated_slot tm = wc_snapshot_slot cfg
      | _ \<Rightarrow> False)"
| "effect_ok cfg slot (EStep s) \<longleftrightarrow> step_mint s \<in> wc_hot_mints cfg"
| "effect_ok cfg slot (EClose k v) \<longleftrightarrow> wc_collect_close_tombstones cfg \<and> v = slot"
| "effect_ok cfg slot (EPair m v) \<longleftrightarrow> wc_collect_affected_pairs cfg \<and> m \<in> wc_hot_mints cfg"
| "effect_ok cfg slot _ \<longleftrightarrow> True"

lemma metadata_effects_ok: "list_all (effect_ok cfg slot) (metadata_effects ext cfg md x slot src acct)"
  by (simp add: metadata_effects_def)

lemma close_effects_ok: "list_all (effect_ok cfg slot) (close_effects ext cfg slot a)"
  by (simp add: close_effects_def)

lemma token_account_effects_ok: "list_all (effect_ok cfg slot) (token_account_effects ext cfg slot a ta)"
  by (simp add: token_account_effects_def Let_def token_account_row_of_def)

lemma mint_row_effects_ok: "list_all (effect_ok cfg slot) (mint_row_effects ext cfg a tm)"
  by (simp add: mint_row_effects_def token_mint_row_of_def)

lemmas effects_ok = metadata_effects_ok close_effects_ok token_account_effects_ok mint_row_effects_ok

lemma extension_effects_ok: "list_all (effect_ok cfg slot) (extension_effects ext cfg slot a)"
  by (simp add: extension_effects_def effects_ok split: sum.split option.split)

lemma spl_effects_ok: "list_all (effect_ok cfg slot) (spl_effects ext cfg slot a)"
  by (simp add: spl_effects_def effects_ok split: option.split)

lemma t22_effects_ok: "list_all (effect_ok cfg slot) (t22_effects ext cfg slot a)"
  by (simp add: t22_effects_def Let_def effects_ok extension_effects_ok
      split: option.split sum.split token_2022_base_state.split)

lemma metaplex_effects_ok: "list_all (effect_ok cfg slot) (metaplex_effects ext cfg slot a)"
  by (simp add: metaplex_effects_def split: option.split)

lemma account_effects_ok:
  "\<exists>es. account_effects ext cfg slot a = ERow TAccount (RAccount (account_row_of ext (wc_snapshot_slot cfg) a)) # es \<and>
    list_all (effect_ok cfg slot) es"
  unfolding account_effects_def
  by (intro exI conjI, rule refl) (simp add: effects_ok spl_effects_ok t22_effects_ok metaplex_effects_ok)

text \<open>C18: A successful \<^verbatim>\<open>insert_account\<close> refines the list of effects of its account: the sink takes
  its rows, the patches, counters and progress change by its steps, nothing else changes; exactly one
  raw account row is among them, all other rows, metadata patches and affected pairs concern hot mints,
  and a live token row has an amount that the zero balance policy writes.\<close>

theorem insert_account_refines:
  assumes "inserter ops committed pending"
    and "insert_account ops ext cfg slot a w = (Inr u, w')"
  shows "\<exists>es. account_effects ext cfg slot a = ERow TAccount (RAccount (account_row_of ext (wc_snapshot_slot cfg) a)) # es \<and>
    list_all (effect_ok cfg slot) es \<and>
    (\<forall>t. sink_taken committed pending (wk_sink w') t =
      sink_taken committed pending (wk_sink w) t @ rows_in t (account_effects ext cfg slot a)) \<and>
    wk_patches w' = fold run_patch_step (steps_in es) (wk_patches w) \<and>
    wk_stats w' = fold stats_effect es (wk_stats w) \<and>
    (\<forall>p. wk_progress w' p = wk_progress w p + progress_in p es) \<and>
    (sink_inv pending (wk_sink w) \<longrightarrow> sink_inv pending (wk_sink w'))"
proof -
  obtain es where es: "account_effects ext cfg slot a =
      ERow TAccount (RAccount (account_row_of ext (wc_snapshot_slot cfg) a)) # es" "list_all (effect_ok cfg slot) es"
    using account_effects_ok by blast
  have "steps_in (ERow t r # es) = steps_in es" "progress_in p (ERow t r # es) = progress_in p es" for t r p
    by (simp_all add: steps_in_def progress_in_def)
  with es inserter.insert_account_done [OF assms] show ?thesis
    by (intro exI [of _ es]) (simp add: inserter.effects_done_def [OF assms(1)])
qed

text \<open>A token account of a hot mint with a zero balance is written as a live row by an import
  of an incremental archive, which also remembers its pair, and only counted by an import of a full
  archive.\<close>

theorem zero_balance_by_kind:
  assumes "unat (data_len (meta a)) = spl_account_len ext" "spl_unpack_account ext (sa_data a) = Some ta"
    and "pubkey_string ext (tka_mint ta) \<in> hot" "tka_amount ta = 0"
  shows "insert_spl_token ops ext (worker_config_of kind snapshot hot) a slot =
    sthen
      (if kind = Incremental
       then sthen (supdate (\<lambda>w. w\<lparr>wk_stats := (wk_stats w)\<lparr>ws_pairs :=
                     insert (pubkey_string ext (tka_mint ta), pubkey_string ext (tka_owner ta)) (ws_pairs (wk_stats w))\<rparr>\<rparr>))
              (on_sink (write_row ops TTokenAccount (RTokenAccount (token_account_row_of ext a slot ta))))
       else count_one ZeroBalanceOmitted)
      (sthen (count_one SplParsed) (progress_inc ProgressTokens))"
  using assms by (cases kind) (simp_all add: insert_spl_token_def write_hot_token_account_row_def worker_config_of_def
      writes_live_amount_def remember_affected_pair_def write_token_account_def)

section \<open>Witnesses\<close>

definition sample_config :: "snapshot_kind \<Rightarrow> worker_config" where
  "sample_config kind = worker_config_of kind 9 {bytes_string (replicate 32 5)}"

text \<open>A token account of the hot mint of 165 bytes, of the program whose id is 32 times 1.\<close>

definition sample_token_account :: stored_account_meta where
  "sample_token_account = sample_account\<lparr>sa_data := replicate 165 0,
     meta := \<lparr>write_version = 7, data_len = 165, sm_pubkey = replicate 32 1\<rparr>\<rparr>"

lemma insert_account_refines_witness:
  "\<exists>w'. insert_account buffered_ops sample_externals (sample_config Incremental) 4 sample_token_account
      (worker_new (sink_new buffered_ops None Active (\<lambda>n. n)) [] (\<lambda>_. 0)) = (Inr (), w') \<and>
    sink_inv bf_pending (wk_sink w')"
proof -
  let ?w = "worker_new (sink_new buffered_ops None Active (\<lambda>n. n)) [] (\<lambda>_. 0)"
  have "gate_open (wk_sink ?w)" by (simp add: gate_open_def worker_new_def sink_new_def)
  then obtain u w' where w': "insert_account buffered_ops sample_externals (sample_config Incremental) 4
      sample_token_account ?w = (Inr u, w')"
    using insert_account_succeeds [OF buffered_never_fails] unfolding succeeds_def by blast
  moreover have "sink_inv bf_pending (wk_sink ?w)" by (simp add: worker_new_def buffered.inv_new)
  ultimately show ?thesis using insert_account_refines [OF buffered.inserter_axioms w'] by auto
qed

definition sample_empty_token :: token_account where
  "sample_empty_token = \<lparr>tka_mint = replicate 32 5, tka_owner = replicate 32 6, tka_amount = 0,
     tka_delegate = None, tka_delegated_amount = 0, tka_state = 1, tka_close_authority = None\<rparr>"

definition token_externals :: externals where
  "token_externals = sample_externals\<lparr>spl_unpack_account := (\<lambda>_. Some sample_empty_token)\<rparr>"

lemma zero_balance_by_kind_witness:
  "insert_spl_token buffered_ops token_externals
      (worker_config_of Full 9 {bytes_string (replicate 32 5)}) sample_token_account 4 =
    sthen (count_one ZeroBalanceOmitted) (sthen (count_one SplParsed) (progress_inc ProgressTokens))"
  using zero_balance_by_kind [of sample_token_account token_externals sample_empty_token
      "{bytes_string (replicate 32 5)}" buffered_ops Full 9 4]
  by (simp add: sample_token_account_def token_externals_def sample_externals_def sample_empty_token_def)

end
