(* ===== verification/Parallel_Scan.thy ===== *)
theory Parallel_Scan
  imports Worker
begin

text \<open>
  The scan of an archive in \<^verbatim>\<open>insert_all_sequential\<close> and \<^verbatim>\<open>insert_all_parallel\<close>: one worker over all
  AppendVecs, or several worker threads, each with its own sink and counters, that share the metadata
  patches and the progress counters.  What a thread does with one message is \<open>worker_message\<close>, the
  body of its loop; the threads' interleaving is a list of thread numbers with tasks, the atomic
  pieces of those bodies, so it is finer than the messages.
\<close>

section \<open>One worker\<close>

text \<open>
  An AppendVec received or, in a thread, a timeout of the queue: then open inserts are flushed.
\<close>

datatype worker_msg = Received append_vec | Timeout

definition worker_message ::
  "'i ins_ops \<Rightarrow> externals \<Rightarrow> worker_config \<Rightarrow> worker_msg \<Rightarrow> ('i, unit) worker_op" where
  "worker_message ops ext cfg msg =
     (case msg of
        Received av \<Rightarrow>
          sthen (count_one AppendVecsTotal)
            (sbind (on_append_vec_count ops ext cfg av) (\<lambda>parsed_accounts.
               swhen (parsed_accounts = 0) (count_one NonemptyZeroAccount)))
      | Timeout \<Rightarrow> on_sink (\<lambda>s. if has_pending_rows ops s then force_commit_all ops s else (Inr (), s)))"

text \<open>
  The sequential scan: it skips and counts the items that are errors.  The result is the number of
  skipped AppendVecs.
\<close>

primrec scan_sequential ::
  "'i ins_ops \<Rightarrow> externals \<Rightarrow> worker_config \<Rightarrow> ('e + append_vec) list \<Rightarrow> u64 \<Rightarrow> ('i, u64) worker_op" where
  "scan_sequential ops ext cfg [] skipped = sreturn skipped"
| "scan_sequential ops ext cfg (item # items) skipped =
     (case item of
        Inr av \<Rightarrow> sthen (worker_message ops ext cfg (Received av)) (scan_sequential ops ext cfg items skipped)
      | Inl _ \<Rightarrow> scan_sequential ops ext cfg items (skipped + 1))"

section \<open>Tasks\<close>

datatype task = TaskBegin | TaskAccount u64 stored_account_meta | TaskEmpty | TaskFlush

definition run_task :: "'i ins_ops \<Rightarrow> externals \<Rightarrow> worker_config \<Rightarrow> task \<Rightarrow> ('i, unit) worker_op" where
  "run_task ops ext cfg t =
     (case t of
        TaskBegin \<Rightarrow> count_one AppendVecsTotal
      | TaskAccount slot a \<Rightarrow> insert_account ops ext cfg slot a
      | TaskEmpty \<Rightarrow> count_one NonemptyZeroAccount
      | TaskFlush \<Rightarrow> on_sink (\<lambda>s. if has_pending_rows ops s then force_commit_all ops s else (Inr (), s)))"

definition tasks_of :: "append_vec \<Rightarrow> task list" where
  "tasks_of av =
     (case append_vec_accounts av of
        Some (Done as) \<Rightarrow> TaskBegin # map (TaskAccount (av_slot av)) as @ (if as = [] then [TaskEmpty] else [])
      | _ \<Rightarrow> [])"

fun task_effects :: "externals \<Rightarrow> worker_config \<Rightarrow> task \<Rightarrow> worker_effect list" where
  "task_effects ext cfg TaskBegin = [ECount AppendVecsTotal]"
| "task_effects ext cfg (TaskAccount slot a) = account_effects ext cfg slot a"
| "task_effects ext cfg TaskEmpty = [ECount NonemptyZeroAccount]"
| "task_effects ext cfg TaskFlush = []"

section \<open>Several workers\<close>

record 'i pool =
  pl_sinks :: "nat \<Rightarrow> 'i sink"
  pl_stats :: "nat \<Rightarrow> worker_stats"
  pl_patches :: metadata_patches
  pl_progress :: "progress_counter \<Rightarrow> u64"

definition pool_new :: "(nat \<Rightarrow> 'i sink) \<Rightarrow> 'i pool" where
  "pool_new sinks = \<lparr>pl_sinks = sinks, pl_stats = (\<lambda>_. stats_default), pl_patches = [],
     pl_progress = (\<lambda>_. 0)\<rparr>"

definition pool_worker :: "'i pool \<Rightarrow> nat \<Rightarrow> 'i worker" where
  "pool_worker p i = \<lparr>wk_sink = pl_sinks p i, wk_stats = pl_stats p i, wk_patches = pl_patches p,
     wk_progress = pl_progress p\<rparr>"

definition pool_step ::
  "'i ins_ops \<Rightarrow> externals \<Rightarrow> worker_config \<Rightarrow> nat \<times> task \<Rightarrow> ('i pool, string, unit) op" where
  "pool_step ops ext cfg it p =
     (case run_task ops ext cfg (snd it) (pool_worker p (fst it)) of
        (r, w) \<Rightarrow> (r, \<lparr>pl_sinks = (pl_sinks p)(fst it := wk_sink w), pl_stats = (pl_stats p)(fst it := wk_stats w),
                    pl_patches = wk_patches w, pl_progress = wk_progress w\<rparr>))"

text \<open>The join of the threads merges their counters in thread order.\<close>

definition pool_totals :: "nat \<Rightarrow> 'i pool \<Rightarrow> worker_stats" where
  "pool_totals workers p = fold (\<lambda>i acc. stats_merge acc (pl_stats p i)) [0..<workers] stats_default"

section \<open>The tasks of a message\<close>

lemma sfor_map: "sfor f (map g xs) = sfor (\<lambda>x. f (g x)) xs"
  by (induction xs) simp_all

lemma worker_message_tasks:
  assumes "append_vec_accounts av = Some (Done as)" "length as < 2 ^ 64"
  shows "worker_message ops ext cfg (Received av) = sfor (run_task ops ext cfg) (tasks_of av)"
proof -
  have z: "(word_of_nat (length as) :: u64) = 0 \<longleftrightarrow> as = []"
  proof
    assume "(word_of_nat (length as) :: u64) = 0"
    then have "unat (word_of_nat (length as) :: u64) = 0" by simp
    then show "as = []" using unat_of_nat_u64 [OF assms(2)] by simp
  qed simp
  show ?thesis
    by (simp add: worker_message_def on_append_vec_count_def assms(1) tasks_of_def sbind_sthen z run_task_def
        sfor_append sfor_map)
qed

section \<open>Counters do not depend on the order\<close>

type_synonym stats_view = "(counter \<Rightarrow> u64) \<times> (string \<Rightarrow> u64 option) \<times> token_pair set"

definition stats_view :: "worker_stats \<Rightarrow> stats_view" where
  "stats_view st = (ws_count st, map_of (ws_closed st), ws_pairs st)"

fun view_effect :: "worker_effect \<Rightarrow> stats_view \<Rightarrow> stats_view" where
  "view_effect (ECount c) (n, cl, ps) = (n(c := n c + 1), cl, ps)"
| "view_effect (EClose k slot) (n, cl, ps) = (n, cl(k := max_opt (cl k) (Some slot)), ps)"
| "view_effect (EPair m w) (n, cl, ps) = (n, cl, insert (m, w) ps)"
| "view_effect _ v = v"

lemma stats_view_effect: "stats_view (stats_effect e st) = view_effect e (stats_view st)"
  by (cases e) (simp_all add: stats_view_def bump_def map_of_upsert_max)

lemma stats_view_fold: "stats_view (fold stats_effect es st) = fold view_effect es (stats_view st)"
  by (induction es arbitrary: st) (simp_all add: stats_view_effect)

lemma view_effect_commute: "view_effect a \<circ> view_effect b = view_effect b \<circ> view_effect a"
proof
  fix v :: stats_view
  obtain n cl ps where v: "v = (n, cl, ps)" by (cases v)
  show "(view_effect a \<circ> view_effect b) v = (view_effect b \<circ> view_effect a) v"
    by (cases a; cases b) (auto simp: v fun_eq_iff max_opt_ac)
qed

lemma distinct_closed_effect:
  "distinct (map fst (ws_closed st)) \<Longrightarrow> distinct (map fst (ws_closed (stats_effect e st)))"
  by (cases e) (simp_all add: bump_def distinct_upsert_max)

lemma distinct_closed_fold:
  "distinct (map fst (ws_closed st)) \<Longrightarrow> distinct (map fst (ws_closed (fold stats_effect es st)))"
  by (induction es arbitrary: st) (simp_all add: distinct_closed_effect)

lemma view_merge_effect:
  assumes "distinct (map fst (ws_closed st))"
  shows "stats_view (stats_merge acc (stats_effect e st)) = view_effect e (stats_view (stats_merge acc st))"
proof -
  have m: "map_of (merge_max (ws_closed acc) bl) = (\<lambda>k. max_opt (map_of (ws_closed acc) k) (map_of bl k))"
    if "distinct (map fst bl)" for bl using map_of_merge_max [OF that] by (rule ext)
  show ?thesis
    using m [OF assms] m [OF distinct_upsert_max [OF assms]]
    by (cases e) (auto simp: stats_view_def stats_merge_def bump_def map_of_upsert_max fun_eq_iff max_opt_ac add.assoc)
qed

lemma view_merge_fold:
  "stats_view (stats_merge acc (fold stats_effect es stats_default)) = fold view_effect es (stats_view acc)"
proof (induction es rule: rev_induct)
  case Nil
  show ?case by (simp add: stats_view_def stats_merge_def stats_default_def merge_max_def)
next
  case (snoc e es)
  have "distinct (map fst (ws_closed (fold stats_effect es stats_default)))"
    by (rule distinct_closed_fold) (simp add: stats_default_def)
  then show ?case using snoc by (simp add: view_merge_effect)
qed

lemma fold_view_perm: "mset xs = mset ys \<Longrightarrow> fold view_effect xs v = fold view_effect ys v"
  using view_effect_commute by (metis (no_types, lifting) fold_multiset_equiv)

text \<open>The effects that worker \<open>i\<close> has in a schedule, and those of all workers.\<close>

definition effects_of :: "externals \<Rightarrow> worker_config \<Rightarrow> nat \<Rightarrow> (nat \<times> task) list \<Rightarrow> worker_effect list" where
  "effects_of ext cfg i sched = concat (map (\<lambda>(j, t). if j = i then task_effects ext cfg t else []) sched)"

definition all_effects :: "externals \<Rightarrow> worker_config \<Rightarrow> task list \<Rightarrow> worker_effect list" where
  "all_effects ext cfg ts = concat (map (task_effects ext cfg) ts)"

lemma effects_of_partition:
  assumes "\<forall>(i, t) \<in> set sched. i < workers"
  shows "mset (concat (map (\<lambda>i. effects_of ext cfg i sched) [0..<workers])) =
    mset (all_effects ext cfg (map snd sched))"
  using assms
proof (induction sched)
  case Nil
  show ?case by (simp add: effects_of_def all_effects_def)
next
  case (Cons it sched)
  obtain i t where it: "it = (i, t)" by (cases it)
  have i: "i < workers" using Cons.prems by (simp add: it)
  have e: "effects_of ext cfg j (it # sched) =
      (if i = j then task_effects ext cfg t else []) @ effects_of ext cfg j sched" for j
    by (auto simp: effects_of_def it)
  have split: "mset (concat (map (\<lambda>j. f j @ g j) xs)) = mset (concat (map f xs)) + mset (concat (map g xs))"
    for f g :: "nat \<Rightarrow> worker_effect list" and xs
    by (induction xs) auto
  have one: "concat (map (\<lambda>j. if i = j then task_effects ext cfg t else []) [0..<n]) =
      (if i < n then task_effects ext cfg t else [])" for n
    by (induction n) auto
  have "mset (concat (map (\<lambda>j. effects_of ext cfg j (it # sched)) [0..<workers])) =
    mset (task_effects ext cfg t) + mset (all_effects ext cfg (map snd sched))"
    unfolding e split one using i Cons by simp
  then show ?case by (simp add: all_effects_def it)
qed

lemma mset_rows_in: "mset (rows_in t es) = image_mset (\<lambda>e. case e of ERow _ r \<Rightarrow> r | _ \<Rightarrow> undefined)
    (filter_mset (\<lambda>e. case e of ERow t' r \<Rightarrow> t' = t | _ \<Rightarrow> False) (mset es))"
  by (induction es) (auto simp: rows_in_def split: worker_effect.split)

lemma mset_steps_in: "mset (steps_in es) = image_mset (\<lambda>e. case e of EStep s \<Rightarrow> s | _ \<Rightarrow> undefined)
    (filter_mset (\<lambda>e. case e of EStep s \<Rightarrow> True | _ \<Rightarrow> False) (mset es))"
  by (induction es) (auto simp: steps_in_def split: worker_effect.split)

lemma progress_in_mset: "progress_in p es = word_of_nat (count (mset es) (EProgress p))"
proof -
  have "(=) (EProgress p) = (\<lambda>e. e = EProgress p)" by auto
  then show ?thesis by (simp add: progress_in_def count_mset count_list_eq_length_filter)
qed

lemma rows_in_concat: "rows_in t (concat xss) = concat (map (rows_in t) xss)"
  by (induction xss) (simp_all add: effects_append)

text \<open>The AppendVecs of the items that are not errors.\<close>

definition scanned :: "('e + append_vec) list \<Rightarrow> append_vec list" where
  "scanned items = concat (map (\<lambda>item. case item of Inl _ \<Rightarrow> [] | Inr av \<Rightarrow> [av]) items)"

lemma accounts_tile_length: "accounts_tile len n as \<Longrightarrow> n + 136 * length as \<le> max n (len + 7)"
proof (induction as arbitrary: n)
  case (Cons a as)
  have s: "unat (stored_size a) = align8 (136 + length (sa_data a))" "n + 136 + length (sa_data a) \<le> len"
    using Cons.prems by simp_all
  moreover have "136 \<le> unat (stored_size a)" "unat (stored_size a) < 144 + length (sa_data a)"
    unfolding s(1) using align8_ge [of "136 + length (sa_data a)"] align8_lt [of "136 + length (sa_data a)"]
    by linarith+
  ultimately show ?case using Cons by fastforce
qed simp

lemma accounts_few:
  assumes "av_wf av"
  obtains as where "append_vec_accounts av = Some (Done as)" "length as < 2 ^ 64"
proof -
  let ?len = "unat (av_current_len av)"
  have len: "?len \<le> length (av_map av)" "?len + 8 \<le> 2 ^ 64" using assms by (simp_all add: av_wf_def)
  have "accounts_tile ?len 0 (accounts_spec (av_map av) ?len 0)"
    by (rule accounts_spec_tile) (use len in simp_all)
  from accounts_tile_length [OF this] len(2)
  have "length (accounts_spec (av_map av) ?len 0) < 2 ^ 64" by simp
  then show thesis using that append_vec_accounts_total [OF assms] by blast
qed

section \<open>Running tasks\<close>

context inserter
begin

lemma run_task_done:
  assumes "run_task ops ext cfg t w = (Inr u, w')"
  shows "effects_done w (task_effects ext cfg t) w'"
proof (cases t)
  case TaskFlush
  then obtain s' where s': "(if has_pending_rows ops (wk_sink w) then force_commit_all ops (wk_sink w)
      else (Inr (), wk_sink w)) = (Inr (), s')" "w' = w\<lparr>wk_sink := s'\<rparr>"
    using assms by (auto simp: run_task_def on_sink_eq_Inr_iff)
  then have "taken s' = taken (wk_sink w) \<and> (inv (wk_sink w) \<longrightarrow> inv s')"
    using force_commit_all_ok [of "wk_sink w" "()" s'] by (auto split: if_splits)
  then show ?thesis using s'(2) TaskFlush by (simp add: effects_done_def)
next
  case (TaskAccount slot a)
  then show ?thesis using assms insert_account_done by (simp add: run_task_def)
next
  case TaskBegin
  then show ?thesis
    using assms run_effect_done [of "ECount AppendVecsTotal"] by (simp add: run_task_def run_effect_simps)
next
  case TaskEmpty
  then show ?thesis
    using assms run_effect_done [of "ECount NonemptyZeroAccount"] by (simp add: run_task_def run_effect_simps)
qed

lemma run_tasks_done:
  "sfor (run_task ops ext cfg) ts w = (Inr u, w') \<Longrightarrow> effects_done w (all_effects ext cfg ts) w'"
proof (induction ts arbitrary: w)
  case Nil
  then show ?case by (simp add: effects_done_Nil all_effects_def)
next
  case (Cons t ts)
  then obtain w1 where "run_task ops ext cfg t w = (Inr (), w1)" "sfor (run_task ops ext cfg) ts w1 = (Inr u, w')"
    by (auto simp: op_success)
  then show ?case
    using run_task_done Cons.IH effects_done_trans by (fastforce simp: all_effects_def)
qed

lemma pool_done:
  assumes "sfor (pool_step ops ext cfg) sched p = (Inr u, p')"
  shows "(\<forall>i t. taken (pl_sinks p' i) t = taken (pl_sinks p i) t @ rows_in t (effects_of ext cfg i sched)) \<and>
    pl_patches p' = fold run_patch_step (steps_in (all_effects ext cfg (map snd sched))) (pl_patches p) \<and>
    (\<forall>i. pl_stats p' i = fold stats_effect (effects_of ext cfg i sched) (pl_stats p i)) \<and>
    pl_progress p' = (\<lambda>c. pl_progress p c + progress_in c (all_effects ext cfg (map snd sched)))"
  using assms
proof (induction sched arbitrary: p)
  case Nil
  then show ?case by (simp add: effects_of_def all_effects_def)
next
  case (Cons it sched)
  obtain i t where it: "it = (i, t)" by (cases it)
  obtain p1 where p1: "pool_step ops ext cfg (i, t) p = (Inr (), p1)"
    "sfor (pool_step ops ext cfg) sched p1 = (Inr u, p')"
    using Cons.prems by (auto simp: op_success it)
  obtain w where "run_task ops ext cfg t (pool_worker p i) = (Inr (), w)"
    "p1 = \<lparr>pl_sinks = (pl_sinks p)(i := wk_sink w), pl_stats = (pl_stats p)(i := wk_stats w),
       pl_patches = wk_patches w, pl_progress = wk_progress w\<rparr>"
    using p1(1) by (auto simp: pool_step_def split: prod.splits)
  note w = this p1(2)
  have d: "effects_done (pool_worker p i) (task_effects ext cfg t) w" using run_task_done [OF w(1)] .
  have e: "effects_of ext cfg j (it # sched) =
      (if i = j then task_effects ext cfg t else []) @ effects_of ext cfg j sched" for j
    by (auto simp: effects_of_def it)
  have a: "all_effects ext cfg (map snd (it # sched)) = task_effects ext cfg t @ all_effects ext cfg (map snd sched)"
    by (simp add: all_effects_def it)
  show ?case
    using Cons.IH [OF w(3)] d unfolding e a
    by (auto simp: w(2) effects_done_def pool_worker_def effects_append add.assoc)
qed

lemma scan_sequential_done:
  assumes "scan_sequential ops ext cfg items skipped w = (Inr n, w')"
    and "\<forall>av \<in> set (scanned items). av_wf av"
  shows "effects_done w (all_effects ext cfg (concat (map tasks_of (scanned items)))) w'"
  using assms
proof (induction items arbitrary: w skipped)
  case Nil
  then show ?case by (simp add: effects_done_Nil all_effects_def scanned_def)
next
  case (Cons item items)
  show ?case
  proof (cases item)
    case (Inl e)
    then show ?thesis using Cons by (simp add: scanned_def)
  next
    case (Inr av)
    obtain w1 where w1: "worker_message ops ext cfg (Received av) w = (Inr (), w1)"
      "scan_sequential ops ext cfg items skipped w1 = (Inr n, w')"
      using Cons.prems(1) Inr by (auto simp: op_success)
    have wf: "av_wf av" "\<forall>av \<in> set (scanned items). av_wf av" using Cons.prems(2) Inr by (auto simp: scanned_def)
    obtain as where "append_vec_accounts av = Some (Done as)" "length as < 2 ^ 64"
      using accounts_few [OF wf(1)] by blast
    then have "sfor (run_task ops ext cfg) (tasks_of av) w = (Inr (), w1)"
      using w1(1) by (simp add: worker_message_tasks)
    from effects_done_trans [OF run_tasks_done [OF this] Cons.IH [OF w1(2) wf(2)]]
    show ?thesis using Inr by (simp add: scanned_def all_effects_def)
  qed
qed

end

section \<open>Properties\<close>

lemma mset_all_effects:
  assumes "mset (filter (\<lambda>t. t \<noteq> TaskFlush) ts) = mset us"
  shows "mset (all_effects ext cfg ts) = mset (all_effects ext cfg us)"
proof -
  have e: "all_effects ext cfg ts = all_effects ext cfg (filter (\<lambda>t. t \<noteq> TaskFlush) ts)" for ts
    by (induction ts) (auto simp: all_effects_def)
  have m: "mset (all_effects ext cfg xs) = (\<Sum>t \<in># mset xs. mset (task_effects ext cfg t))" for xs
    by (induction xs) (simp_all add: all_effects_def)
  show ?thesis by (subst e) (simp only: m assms)
qed

lemma patch_of_mset:
  assumes "mset steps = mset steps'"
  shows "patch_of (fold run_patch_step steps ps) = patch_of (fold run_patch_step steps' ps)"
  unfolding patch_of_fold using assms abstract_patch_step_commute by (metis (no_types, lifting) fold_multiset_equiv)

lemma pool_totals_view:
  assumes "\<forall>i. pl_stats p i = fold stats_effect (es i) stats_default"
  shows "stats_view (pool_totals n p) = fold view_effect (concat (map es [0..<n])) (stats_view stats_default)"
  unfolding pool_totals_def
  by (induction n) (use assms view_merge_fold in \<open>simp_all\<close>)

text \<open>C8: The parallel scan computes what the sequential scan computes: under every interleaving of
  the threads' tasks, with idle flushes anywhere, in which each AppendVec's tasks are run once, the
  threads' sinks together have taken the same rows per table, the metadata patches are the same, the
  merged counters, close candidates and affected pairs are the same, and so is the progress.\<close>

theorem parallel_scan_equiv:
  assumes lib: "inserter ops committed pending"
    and wf: "\<forall>av \<in> set (scanned items). av_wf av"
    and sequential: "scan_sequential ops ext cfg items 0
      (worker_new (sink_new ops gate g clock) [] (\<lambda>_. 0)) = (Inr skipped, w)"
    and parallel: "sfor (pool_step ops ext cfg) sched
      (pool_new (\<lambda>i. sink_new ops gate g (clocks i))) = (Inr u, p)"
    and threads: "\<forall>(i, t) \<in> set sched. i < workers"
    and once: "mset (filter (\<lambda>t. t \<noteq> TaskFlush) (map snd sched)) = mset (concat (map tasks_of (scanned items)))"
  shows "(\<forall>t. mset (concat (map (\<lambda>i. sink_taken committed pending (pl_sinks p i) t) [0..<workers])) =
      mset (sink_taken committed pending (wk_sink w) t)) \<and>
    patch_of (pl_patches p) = patch_of (wk_patches w) \<and>
    stats_view (pool_totals workers p) = stats_view (wk_stats w) \<and>
    pl_progress p = wk_progress w"
proof -
  let ?seq = "all_effects ext cfg (concat (map tasks_of (scanned items)))"
  let ?par = "all_effects ext cfg (map snd sched)"
  let ?of = "\<lambda>i. effects_of ext cfg i sched"
  note ex = inserter.taken_new [OF lib]
  have s: "inserter.effects_done committed pending (worker_new (sink_new ops gate g clock) [] (\<lambda>_. 0)) ?seq w"
    by (rule inserter.scan_sequential_done [OF lib sequential wf])
  note p = inserter.pool_done [OF lib parallel]
  have same: "mset ?par = mset ?seq" by (rule mset_all_effects [OF once])
  have whole: "mset (concat (map ?of [0..<workers])) = mset ?seq"
    using effects_of_partition [OF threads] same by simp
  have "mset (concat (map (\<lambda>i. sink_taken committed pending (pl_sinks p i) t) [0..<workers])) =
      mset (sink_taken committed pending (wk_sink w) t)" for t
  proof -
    have "map (\<lambda>i. sink_taken committed pending (pl_sinks p i) t) [0..<workers] =
        map (rows_in t) (map ?of [0..<workers])"
      using p by (simp add: pool_new_def ex)
    then have "mset (concat (map (\<lambda>i. sink_taken committed pending (pl_sinks p i) t) [0..<workers])) =
        mset (rows_in t (concat (map ?of [0..<workers])))"
      by (simp only: rows_in_concat)
    also have "\<dots> = mset (rows_in t ?seq)" by (simp only: mset_rows_in whole)
    finally show ?thesis using s by (simp add: inserter.effects_done_def [OF lib] worker_new_def ex)
  qed
  moreover have "patch_of (pl_patches p) = patch_of (wk_patches w)"
    using p s patch_of_mset [of "steps_in ?par" "steps_in ?seq" "[]"]
    by (simp add: inserter.effects_done_def [OF lib] worker_new_def pool_new_def mset_steps_in same)
  moreover have "stats_view (pool_totals workers p) = stats_view (wk_stats w)"
  proof -
    have "stats_view (pool_totals workers p) = fold view_effect (concat (map ?of [0..<workers])) (stats_view stats_default)"
      by (rule pool_totals_view) (use p in \<open>simp add: pool_new_def\<close>)
    also have "\<dots> = fold view_effect ?seq (stats_view stats_default)" by (rule fold_view_perm [OF whole])
    finally show ?thesis using s by (simp add: inserter.effects_done_def [OF lib] worker_new_def stats_view_fold)
  qed
  moreover have "pl_progress p = wk_progress w"
    using p s by (simp add: inserter.effects_done_def [OF lib] worker_new_def pool_new_def progress_in_mset same)
  ultimately show ?thesis by blast
qed

lemma run_task_succeeds: "never_fails ops \<Longrightarrow> succeeds (\<lambda>w. gate_open (wk_sink w)) (run_task ops ext cfg t)"
  unfolding run_task_def
  by (cases t) (auto simp: count_one_def intro!: succeeds_on_sink insert_account_succeeds succeeds_supdate succeeds_flush)

lemma scan_sequential_succeeds:
  assumes "never_fails ops" "\<forall>av \<in> set (scanned items). av_wf av"
  shows "succeeds (\<lambda>w. gate_open (wk_sink w)) (scan_sequential ops ext cfg items skipped)"
  using assms(2)
proof (induction items arbitrary: skipped)
  case (Cons item items)
  have "succeeds (\<lambda>w. gate_open (wk_sink w)) (worker_message ops ext cfg (Received av))" if av: "av_wf av" for av
  proof -
    obtain as where "append_vec_accounts av = Some (Done as)" "length as < 2 ^ 64" by (rule accounts_few [OF av])
    then show ?thesis
      by (simp add: worker_message_tasks) (intro succeeds_sfor run_task_succeeds assms(1))
  qed
  then show ?case using Cons by (auto simp: scanned_def intro!: succeeds_sthen split: sum.split)
qed (simp add: succeeds_sreturn)


section \<open>Witnesses\<close>

definition sample_scan_av :: append_vec where
  "sample_scan_av = \<lparr>av_slot = 9, av_id = 1, av_map = replicate 136 0, av_current_len = 136, av_file_size = 136\<rparr>"

definition sample_worker_config :: worker_config where
  "sample_worker_config = worker_config_of Incremental 9 {''hot''}"

lemma sample_scan_av_wf: "av_wf sample_scan_av"
  by (simp add: av_wf_def sample_scan_av_def)

lemma pool_succeeds:
  assumes "never_fails ops"
  shows "succeeds (\<lambda>p. \<forall>i. gate_open (pl_sinks p i)) (sfor (pool_step ops ext cfg) sched)"
proof (rule succeeds_sfor)
  fix it
  show "succeeds (\<lambda>p. \<forall>i. gate_open (pl_sinks p i)) (pool_step ops ext cfg it)"
    unfolding succeeds_def
  proof (intro allI impI)
    fix p :: "'a pool" assume p: "\<forall>i. gate_open (pl_sinks p i)"
    then obtain u w where "run_task ops ext cfg (snd it) (pool_worker p (fst it)) = (Inr u, w)" "gate_open (wk_sink w)"
      using run_task_succeeds [OF assms] unfolding succeeds_def pool_worker_def
      by (metis worker.select_convs(1))
    then show "\<exists>x p'. pool_step ops ext cfg it p = (Inr x, p') \<and> (\<forall>i. gate_open (pl_sinks p' i))"
      using p by (simp add: pool_step_def)
  qed
qed

lemma parallel_scan_equiv_witness:
  "\<exists>w p. scan_sequential buffered_ops sample_externals sample_worker_config
      [Inr sample_scan_av, Inl (), Inr sample_scan_av] 0
      (worker_new (sink_new buffered_ops None Active (\<lambda>n. n)) [] (\<lambda>_. 0)) = (Inr 1, w) \<and>
    sfor (pool_step buffered_ops sample_externals sample_worker_config)
      (map (Pair 0) (tasks_of sample_scan_av) @ (1, TaskFlush) # map (Pair 1) (tasks_of sample_scan_av))
      (pool_new (\<lambda>i. sink_new buffered_ops None Active (\<lambda>n. n))) = (Inr (), p) \<and>
    stats_view (pool_totals 2 p) = stats_view (wk_stats w) \<and> pl_progress p = wk_progress w"
proof -
  let ?items = "[Inr sample_scan_av, Inl (), Inr sample_scan_av]"
  let ?sched = "map (Pair 0) (tasks_of sample_scan_av) @ (1, TaskFlush) # map (Pair 1) (tasks_of sample_scan_av)"
  let ?init = "worker_new (sink_new buffered_ops None Active (\<lambda>n. n)) [] (\<lambda>_. 0)"
  let ?pool = "pool_new (\<lambda>i. sink_new buffered_ops None Active (\<lambda>n. n))"
  have sc: "scanned ?items = [sample_scan_av, sample_scan_av]" by (simp add: scanned_def)
  then have wf: "\<forall>av \<in> set (scanned ?items). av_wf av" using sample_scan_av_wf by simp
  have g: "gate_open (wk_sink ?init)" "\<forall>i. gate_open (pl_sinks ?pool i)"
    by (simp_all add: gate_open_def worker_new_def sink_new_def pool_new_def)
  obtain n w where w: "scan_sequential buffered_ops sample_externals sample_worker_config ?items 0 ?init = (Inr n, w)"
    using scan_sequential_succeeds [OF buffered_never_fails wf] g(1) unfolding succeeds_def by blast
  have n: "n = 1" using w by (auto simp: op_success)
  obtain u p where p: "sfor (pool_step buffered_ops sample_externals sample_worker_config) ?sched ?pool = (Inr u, p)"
    using pool_succeeds [OF buffered_never_fails] g(2) unfolding succeeds_def by blast
  have "TaskFlush \<notin> set (tasks_of sample_scan_av)"
    by (auto simp: tasks_of_def split: option.splits outcome.splits if_splits)
  then have f: "filter (\<lambda>t. t \<noteq> TaskFlush) (tasks_of sample_scan_av) = tasks_of sample_scan_av"
    by (auto simp: filter_id_conv)
  have t: "\<forall>(i, t) \<in> set ?sched. i < (2 :: nat)" by auto
  have c: "mset (filter (\<lambda>t. t \<noteq> TaskFlush) (map snd ?sched)) = mset (concat (map tasks_of (scanned ?items)))"
    by (simp add: sc f o_def)
  have "stats_view (pool_totals 2 p) = stats_view (wk_stats w) \<and> pl_progress p = wk_progress w"
    using parallel_scan_equiv [OF buffered.inserter_axioms wf w p t c] by blast
  then show ?thesis using w [unfolded n] p by (intro exI [of _ w] exI [of _ p]) (simp del: scan_sequential.simps)
qed


end
