(* ===== verification/Fanout.thy ===== *)
theory Fanout
  imports Parallel_Scan
begin

text \<open>
  The shared full import of \<^verbatim>\<open>FullFanoutWorker\<close>: one pass over a full archive that feeds the staging
  group with the whole baseline and the active group with the AppendVecs above its resume slot.  The
  abstract specification is two imports: a full import into staging and an incremental import of the
  tail into active.  Each handler is proved equal to a list of effects marked with their target, and
  the marks are projected to the effects of the two imports.
\<close>

section \<open>State\<close>

record fanout_config =
  fc_snapshot_slot :: u64
  fc_active_resume_slot :: u64
  fc_active_hot_mints :: "string set"
  fc_staging_hot_mints :: "string set"

record 'i fanout =
  fo_staging_sink :: "'i sink"
  fo_active_sink :: "'i sink"
  fo_active_patches :: metadata_patches
  fo_staging_patches :: metadata_patches
  fo_stats :: worker_stats
  fo_progress :: "progress_counter \<Rightarrow> u64"

type_synonym ('i, 'a) fanout_op = "('i fanout, string, 'a) op"

definition fanout_new :: "'i sink \<Rightarrow> 'i sink \<Rightarrow> 'i fanout" where
  "fanout_new staging active = \<lparr>fo_staging_sink = staging, fo_active_sink = active, fo_active_patches = [],
     fo_staging_patches = [], fo_stats = stats_default, fo_progress = (\<lambda>_. 0)\<rparr>"

definition on_staging_sink :: "('i, 'a) sink_op \<Rightarrow> ('i, 'a) fanout_op" where
  "on_staging_sink m s = (case m (fo_staging_sink s) of (r, k) \<Rightarrow> (r, s\<lparr>fo_staging_sink := k\<rparr>))"

definition on_active_sink :: "('i, 'a) sink_op \<Rightarrow> ('i, 'a) fanout_op" where
  "on_active_sink m s = (case m (fo_active_sink s) of (r, k) \<Rightarrow> (r, s\<lparr>fo_active_sink := k\<rparr>))"

definition on_staging_patches :: "(metadata_patches \<Rightarrow> metadata_patches) \<Rightarrow> ('i, unit) fanout_op" where
  "on_staging_patches f = supdate (\<lambda>s. s\<lparr>fo_staging_patches := f (fo_staging_patches s)\<rparr>)"

definition on_active_patches :: "(metadata_patches \<Rightarrow> metadata_patches) \<Rightarrow> ('i, unit) fanout_op" where
  "on_active_patches f = supdate (\<lambda>s. s\<lparr>fo_active_patches := f (fo_active_patches s)\<rparr>)"

definition fan_count :: "counter \<Rightarrow> ('i, unit) fanout_op" where
  "fan_count c = supdate (\<lambda>s. s\<lparr>fo_stats := bump c (fo_stats s)\<rparr>)"

definition fan_progress :: "progress_counter \<Rightarrow> ('i, unit) fanout_op" where
  "fan_progress p = supdate (\<lambda>s. s\<lparr>fo_progress := (fo_progress s)(p := fo_progress s p + 1)\<rparr>)"

section \<open>Handlers\<close>

definition record_active_close_candidate ::
  "externals \<Rightarrow> stored_account_meta \<Rightarrow> u64 \<Rightarrow> ('i, unit) fanout_op" where
  "record_active_close_candidate ext a account_slot =
     swhen (is_close_tombstone_candidate (lamports (account_meta a)))
       (supdate (\<lambda>s. s\<lparr>fo_stats := (fo_stats s)\<lparr>ws_closed :=
          remember_close_candidate ext a account_slot (ws_closed (fo_stats s))\<rparr>\<rparr>))"

definition fan_write_token_account_row ::
  "'i ins_ops \<Rightarrow> externals \<Rightarrow> fanout_config \<Rightarrow> stored_account_meta \<Rightarrow> u64 \<Rightarrow> bool \<Rightarrow> token_account \<Rightarrow>
    ('i, unit) fanout_op" where
  "fan_write_token_account_row ops ext cfg a account_slot write_active ta =
     (let mint = pubkey_string ext (tka_mint ta);
          owner = pubkey_string ext (tka_owner ta);
          wanted = mint \<in> fc_staging_hot_mints cfg;
          write_active = (write_active \<and> mint \<in> fc_active_hot_mints cfg);
          omitted = (wanted \<and> \<not> writes_live_amount ExcludeFromFullBaseline (tka_amount ta));
          write_staging = (wanted \<and> \<not> omitted)
      in sthen (swhen omitted (fan_count ZeroBalanceOmitted))
        (if \<not> write_staging \<and> \<not> write_active then sreturn ()
         else let row = token_account_row_of ext a account_slot ta in
           sthen (swhen write_active
                   (supdate (\<lambda>s. s\<lparr>fo_stats := (fo_stats s)\<lparr>ws_pairs := insert (mint, owner) (ws_pairs (fo_stats s))\<rparr>\<rparr>)))
          (sthen (swhen write_staging (on_staging_sink (write_token_account ops row)))
                 (swhen write_active (on_active_sink (write_token_account ops row))))))"

definition fan_write_token_mint_row ::
  "'i ins_ops \<Rightarrow> externals \<Rightarrow> fanout_config \<Rightarrow> bool \<Rightarrow> string \<Rightarrow> token_mint \<Rightarrow> ('i, unit) fanout_op" where
  "fan_write_token_mint_row ops ext cfg write_active mint tm =
     (let write_staging = mint \<in> fc_staging_hot_mints cfg;
          write_active = (write_active \<and> mint \<in> fc_active_hot_mints cfg)
      in if \<not> write_staging \<and> \<not> write_active then sreturn ()
         else let row = token_mint_row_of ext mint (fc_snapshot_slot cfg) tm in
           sthen (swhen write_staging (on_staging_sink (write_token_mint ops row)))
                 (swhen write_active (on_active_sink (write_token_mint ops row))))"

definition fan_record_token_2022_metadata ::
  "externals \<Rightarrow> fanout_config \<Rightarrow> token_2022_metadata \<Rightarrow> pubkey option \<Rightarrow> u64 \<Rightarrow> metadata_source \<Rightarrow> string \<Rightarrow>
    bool \<Rightarrow> ('i, bool) fanout_op" where
  "fan_record_token_2022_metadata ext cfg md expected_mint account_slot source source_account write_active =
     (if (case expected_mint of Some m \<Rightarrow> tm2_mint md \<noteq> m | None \<Rightarrow> False) then sreturn False
      else let mint = pubkey_string ext (tm2_mint md);
             write_staging = mint \<in> fc_staging_hot_mints cfg;
             write_active = (write_active \<and> mint \<in> fc_active_hot_mints cfg)
        in if \<not> write_staging \<and> \<not> write_active then sreturn False
           else let candidate = VersionedMetadataFields account_slot source source_account
                      (token_2022_metadata_fields ext md)
             in sthen (swhen write_staging (on_staging_patches (record_metadata_fields mint candidate)))
               (sthen (swhen write_active (on_active_patches (record_metadata_fields mint candidate)))
                      (sreturn True)))"

definition fan_insert_spl_token ::
  "'i ins_ops \<Rightarrow> externals \<Rightarrow> fanout_config \<Rightarrow> stored_account_meta \<Rightarrow> u64 \<Rightarrow> bool \<Rightarrow> ('i, unit) fanout_op" where
  "fan_insert_spl_token ops ext cfg a account_slot write_active =
     (if unat (data_len (meta a)) = spl_account_len ext then
        (case spl_unpack_account ext (sa_data a) of
           Some ta \<Rightarrow>
             sthen (fan_write_token_account_row ops ext cfg a account_slot write_active ta)
            (sthen (fan_count SplParsed) (fan_progress ProgressTokens))
         | None \<Rightarrow>
             sthen (fan_count SplUnpackFailed)
               (swhen write_active (record_active_close_candidate ext a account_slot)))
      else if unat (data_len (meta a)) = spl_mint_len ext then
        (case spl_unpack_mint ext (sa_data a) of
           Some tm \<Rightarrow>
             sthen (fan_write_token_mint_row ops ext cfg write_active (account_pubkey ext a) tm)
            (sthen (fan_count SplParsed) (fan_progress ProgressTokens))
         | None \<Rightarrow> fan_count SplUnpackFailed)
      else fan_count SplUnexpectedSize)"

definition fan_insert_extensions ::
  "externals \<Rightarrow> fanout_config \<Rightarrow> stored_account_meta \<Rightarrow> u64 \<Rightarrow> bool \<Rightarrow> string \<Rightarrow> ('i, unit) fanout_op" where
  "fan_insert_extensions ext cfg a account_slot write_active mint =
     (let write_staging_metadata = mint \<in> fc_staging_hot_mints cfg;
          write_active_metadata = (write_active \<and> mint \<in> fc_active_hot_mints cfg)
      in if write_staging_metadata \<or> write_active_metadata then
           (case parse_token_2022_mint_extensions ext (sa_data a) of
              Inr parsed \<Rightarrow>
                let extension_patch = VersionedExtensions account_slot (pe_json parsed) in
                sthen (swhen write_staging_metadata (on_staging_patches (record_extensions mint extension_patch)))
               (sthen (swhen write_active_metadata (on_active_patches (record_extensions mint extension_patch)))
               (sthen (case pe_token_metadata parsed of
                    Some md \<Rightarrow> sthen (fan_record_token_2022_metadata ext cfg md (Some (sm_pubkey (meta a))) account_slot
                                  Token2022Embedded (account_pubkey ext a) write_active) (sreturn ())
                  | None \<Rightarrow> sreturn ())
                 (fan_progress ProgressMetadata)))
            | Inl _ \<Rightarrow> sreturn ())
         else sreturn ())"

definition fan_insert_token_2022 ::
  "'i ins_ops \<Rightarrow> externals \<Rightarrow> fanout_config \<Rightarrow> stored_account_meta \<Rightarrow> u64 \<Rightarrow> bool \<Rightarrow> ('i, unit) fanout_op" where
  "fan_insert_token_2022 ops ext cfg a account_slot write_active =
     (case unpack_token_2022_base_state ext (sa_data a) of
        Some (BaseAccount ta) \<Rightarrow>
          sthen (fan_write_token_account_row ops ext cfg a account_slot write_active ta)
         (sthen (fan_count T22Parsed) (fan_progress ProgressTokens))
      | Some (BaseMint tm) \<Rightarrow>
          sthen (fan_write_token_mint_row ops ext cfg write_active (account_pubkey ext a) tm)
         (sthen (fan_insert_extensions ext cfg a account_slot write_active (account_pubkey ext a))
         (sthen (fan_count T22Parsed) (fan_progress ProgressTokens)))
      | None \<Rightarrow>
          (case parse_token_2022_metadata_value (sa_data a) of
             Inr md \<Rightarrow>
               sthen (sbind (fan_record_token_2022_metadata ext cfg md None account_slot Token2022Standalone
                        (account_pubkey ext a) write_active)
                      (\<lambda>recorded. swhen recorded (fan_progress ProgressMetadata)))
                 (fan_count T22Parsed)
           | Inl _ \<Rightarrow>
               sthen (fan_count T22UnpackFailed)
                 (swhen write_active (record_active_close_candidate ext a account_slot))))"

definition fan_insert_token_metadata ::
  "externals \<Rightarrow> fanout_config \<Rightarrow> stored_account_meta \<Rightarrow> u64 \<Rightarrow> bool \<Rightarrow> ('i, unit) fanout_op" where
  "fan_insert_token_metadata ext cfg a account_slot write_active =
     (case decode_token_metadata ext (sa_data a) of
        None \<Rightarrow> sreturn ()
      | Some (mint, fs) \<Rightarrow>
          let write_staging = mint \<in> fc_staging_hot_mints cfg;
              write_active = (write_active \<and> mint \<in> fc_active_hot_mints cfg)
          in if \<not> write_staging \<and> \<not> write_active then sreturn ()
             else let candidate = VersionedMetadataFields account_slot Metaplex (account_pubkey ext a) fs in
               sthen (swhen write_staging (on_staging_patches (record_metadata_fields mint candidate)))
              (sthen (swhen write_active (on_active_patches (record_metadata_fields mint candidate)))
                     (fan_progress ProgressMetadata)))"

definition fan_insert_account ::
  "'i ins_ops \<Rightarrow> externals \<Rightarrow> fanout_config \<Rightarrow> u64 \<Rightarrow> bool \<Rightarrow> stored_account_meta \<Rightarrow> ('i, unit) fanout_op" where
  "fan_insert_account ops ext cfg account_slot write_active a =
     (let row = account_row_of ext (fc_snapshot_slot cfg) a in
      sthen (on_active_sink (maybe_force_commit ops))
     (sthen (on_staging_sink (maybe_force_commit ops))
     (sthen (on_staging_sink (write_account ops row))
     (sthen (swhen write_active (on_active_sink (write_account ops row)))
     (sthen (swhen (write_active \<and> is_canonical_empty_account (data_len (meta a)) (lamports (account_meta a))
                (am_owner (account_meta a)) (executable (account_meta a)))
              (record_active_close_candidate ext a account_slot))
     (sthen (if am_owner (account_meta a) = spl_token_id ext
             then sthen (fan_count SplOwnerSeen) (fan_insert_spl_token ops ext cfg a account_slot write_active)
             else if am_owner (account_meta a) = token_2022_id ext
             then sthen (fan_count T22OwnerSeen) (fan_insert_token_2022 ops ext cfg a account_slot write_active)
             else sreturn ())
     (sthen (swhen (am_owner (account_meta a) = mpl_metadata_id ext)
               (fan_insert_token_metadata ext cfg a account_slot write_active))
            (fan_progress ProgressAccounts))))))))"

definition fan_on_append_vec_count ::
  "'i ins_ops \<Rightarrow> externals \<Rightarrow> fanout_config \<Rightarrow> append_vec \<Rightarrow> ('i, u64) fanout_op" where
  "fan_on_append_vec_count ops ext cfg av =
     (let account_slot = av_slot av;
          write_active = fc_active_resume_slot cfg < account_slot
      in sthen (fan_count AppendVecsTotal)
        (case append_vec_accounts av of
           Some (Done as) \<Rightarrow>
             (let parsed_accounts = word_of_nat (length as) in
              sthen (sfor (fan_insert_account ops ext cfg account_slot write_active) as)
             (sthen (swhen (0 < av_len av \<and> parsed_accounts = 0) (fan_count NonemptyZeroAccount))
                    (sreturn parsed_accounts)))
         | _ \<Rightarrow> sfail ''append vec iteration does not return''))"

definition fan_message :: "'i ins_ops \<Rightarrow> externals \<Rightarrow> fanout_config \<Rightarrow> worker_msg \<Rightarrow> ('i, unit) fanout_op" where
  "fan_message ops ext cfg msg =
     (case msg of
        Received av \<Rightarrow> sthen (fan_on_append_vec_count ops ext cfg av) (sreturn ())
      | Timeout \<Rightarrow>
          sthen (on_staging_sink (\<lambda>s. if has_pending_rows ops s then force_commit_all ops s else (Inr (), s)))
                (on_active_sink (\<lambda>s. if has_pending_rows ops s then force_commit_all ops s else (Inr (), s))))"

definition fan_finish :: "'i ins_ops \<Rightarrow> ('i, worker_stats) fanout_op" where
  "fan_finish ops =
     sthen (on_staging_sink (sink_end ops)) (sthen (on_active_sink (sink_end ops)) (sread fo_stats))"

section \<open>Marked effects\<close>

datatype fan_effect = FStaging worker_effect | FActive worker_effect | FShared worker_effect

definition run_fan_effect :: "'i ins_ops \<Rightarrow> fan_effect \<Rightarrow> ('i, unit) fanout_op" where
  "run_fan_effect ops fe =
     (case fe of
        FStaging (ERow t r) \<Rightarrow> on_staging_sink (write_row ops t r)
      | FStaging (EStep st) \<Rightarrow> on_staging_patches (run_patch_step st)
      | FActive (ERow t r) \<Rightarrow> on_active_sink (write_row ops t r)
      | FActive (EStep st) \<Rightarrow> on_active_patches (run_patch_step st)
      | FShared (EProgress p) \<Rightarrow> fan_progress p
      | FShared e \<Rightarrow> supdate (\<lambda>s. s\<lparr>fo_stats := stats_effect e (fo_stats s)\<rparr>)
      | _ \<Rightarrow> sreturn ())"

definition both :: "bool \<Rightarrow> bool \<Rightarrow> worker_effect \<Rightarrow> fan_effect list" where
  "both st act e = (if st then [FStaging e] else []) @ (if act then [FActive e] else [])"

definition fan_token_effects ::
  "externals \<Rightarrow> fanout_config \<Rightarrow> bool \<Rightarrow> u64 \<Rightarrow> stored_account_meta \<Rightarrow> token_account \<Rightarrow> fan_effect list" where
  "fan_token_effects ext cfg active slot a ta =
     (let mint = pubkey_string ext (tka_mint ta);
          wanted = mint \<in> fc_staging_hot_mints cfg;
          live = writes_live_amount ExcludeFromFullBaseline (tka_amount ta);
          act = (active \<and> mint \<in> fc_active_hot_mints cfg)
      in (if wanted \<and> \<not> live then [FShared (ECount ZeroBalanceOmitted)] else []) @
         (if act then [FShared (EPair mint (pubkey_string ext (tka_owner ta)))] else []) @
         both (wanted \<and> live) act (ERow TTokenAccount (RTokenAccount (token_account_row_of ext a slot ta))))"

definition fan_mint_effects ::
  "externals \<Rightarrow> fanout_config \<Rightarrow> bool \<Rightarrow> stored_account_meta \<Rightarrow> token_mint \<Rightarrow> fan_effect list" where
  "fan_mint_effects ext cfg active a tm =
     both (account_pubkey ext a \<in> fc_staging_hot_mints cfg)
          (active \<and> account_pubkey ext a \<in> fc_active_hot_mints cfg)
          (ERow TTokenMint (RTokenMint (token_mint_row_of ext (account_pubkey ext a) (fc_snapshot_slot cfg) tm)))"

definition fan_metadata_effects ::
  "externals \<Rightarrow> fanout_config \<Rightarrow> bool \<Rightarrow> token_2022_metadata \<Rightarrow> pubkey option \<Rightarrow> u64 \<Rightarrow> metadata_source \<Rightarrow> string \<Rightarrow>
    fan_effect list" where
  "fan_metadata_effects ext cfg active md expected slot source acct =
     (if (case expected of Some m \<Rightarrow> tm2_mint md \<noteq> m | None \<Rightarrow> False) then []
      else both (pubkey_string ext (tm2_mint md) \<in> fc_staging_hot_mints cfg)
             (active \<and> pubkey_string ext (tm2_mint md) \<in> fc_active_hot_mints cfg)
             (EStep (StepFields (pubkey_string ext (tm2_mint md))
               (VersionedMetadataFields slot source acct (token_2022_metadata_fields ext md)))))"

definition fan_close_effects ::
  "externals \<Rightarrow> bool \<Rightarrow> u64 \<Rightarrow> stored_account_meta \<Rightarrow> fan_effect list" where
  "fan_close_effects ext active slot a =
     (if active \<and> lamports (account_meta a) = 0 then [FShared (EClose (account_pubkey ext a) slot)] else [])"

definition fan_extension_effects ::
  "externals \<Rightarrow> fanout_config \<Rightarrow> bool \<Rightarrow> u64 \<Rightarrow> stored_account_meta \<Rightarrow> fan_effect list" where
  "fan_extension_effects ext cfg active slot a =
     (let st = account_pubkey ext a \<in> fc_staging_hot_mints cfg;
          act = (active \<and> account_pubkey ext a \<in> fc_active_hot_mints cfg)
      in if \<not> st \<and> \<not> act then []
         else case parse_token_2022_mint_extensions ext (sa_data a) of
           Inl _ \<Rightarrow> []
         | Inr parsed \<Rightarrow>
             both st act (EStep (StepExtensions (account_pubkey ext a) (VersionedExtensions slot (pe_json parsed)))) @
             (case pe_token_metadata parsed of
                Some md \<Rightarrow> fan_metadata_effects ext cfg active md (Some (sm_pubkey (meta a))) slot Token2022Embedded
                  (account_pubkey ext a)
              | None \<Rightarrow> []) @ [FShared (EProgress ProgressMetadata)])"

definition fan_spl_effects ::
  "externals \<Rightarrow> fanout_config \<Rightarrow> bool \<Rightarrow> u64 \<Rightarrow> stored_account_meta \<Rightarrow> fan_effect list" where
  "fan_spl_effects ext cfg active slot a =
     (if unat (data_len (meta a)) = spl_account_len ext then
        (case spl_unpack_account ext (sa_data a) of
           Some ta \<Rightarrow> fan_token_effects ext cfg active slot a ta @
             [FShared (ECount SplParsed), FShared (EProgress ProgressTokens)]
         | None \<Rightarrow> FShared (ECount SplUnpackFailed) # fan_close_effects ext active slot a)
      else if unat (data_len (meta a)) = spl_mint_len ext then
        (case spl_unpack_mint ext (sa_data a) of
           Some tm \<Rightarrow> fan_mint_effects ext cfg active a tm @
             [FShared (ECount SplParsed), FShared (EProgress ProgressTokens)]
         | None \<Rightarrow> [FShared (ECount SplUnpackFailed)])
      else [FShared (ECount SplUnexpectedSize)])"

definition fan_t22_effects ::
  "externals \<Rightarrow> fanout_config \<Rightarrow> bool \<Rightarrow> u64 \<Rightarrow> stored_account_meta \<Rightarrow> fan_effect list" where
  "fan_t22_effects ext cfg active slot a =
     (case unpack_token_2022_base_state ext (sa_data a) of
        Some (BaseAccount ta) \<Rightarrow> fan_token_effects ext cfg active slot a ta @
          [FShared (ECount T22Parsed), FShared (EProgress ProgressTokens)]
      | Some (BaseMint tm) \<Rightarrow> fan_mint_effects ext cfg active a tm @ fan_extension_effects ext cfg active slot a @
          [FShared (ECount T22Parsed), FShared (EProgress ProgressTokens)]
      | None \<Rightarrow>
          (case parse_token_2022_metadata_value (sa_data a) of
             Inr md \<Rightarrow>
               (let es = fan_metadata_effects ext cfg active md None slot Token2022Standalone (account_pubkey ext a)
                in es @ (if es = [] then [] else [FShared (EProgress ProgressMetadata)]) @ [FShared (ECount T22Parsed)])
           | Inl _ \<Rightarrow> FShared (ECount T22UnpackFailed) # fan_close_effects ext active slot a))"

definition fan_metaplex_effects ::
  "externals \<Rightarrow> fanout_config \<Rightarrow> bool \<Rightarrow> u64 \<Rightarrow> stored_account_meta \<Rightarrow> fan_effect list" where
  "fan_metaplex_effects ext cfg active slot a =
     (case decode_token_metadata ext (sa_data a) of
        None \<Rightarrow> []
      | Some (mint, fs) \<Rightarrow>
          let es = both (mint \<in> fc_staging_hot_mints cfg) (active \<and> mint \<in> fc_active_hot_mints cfg)
                (EStep (StepFields mint (VersionedMetadataFields slot Metaplex (account_pubkey ext a) fs)))
          in es @ (if es = [] then [] else [FShared (EProgress ProgressMetadata)]))"

definition fan_effects ::
  "externals \<Rightarrow> fanout_config \<Rightarrow> bool \<Rightarrow> u64 \<Rightarrow> stored_account_meta \<Rightarrow> fan_effect list" where
  "fan_effects ext cfg active slot a =
     both True active (ERow TAccount (RAccount (account_row_of ext (fc_snapshot_slot cfg) a))) @
     (if is_canonical_empty_account (data_len (meta a)) (lamports (account_meta a))
           (am_owner (account_meta a)) (executable (account_meta a))
      then fan_close_effects ext active slot a else []) @
     (if am_owner (account_meta a) = spl_token_id ext
      then FShared (ECount SplOwnerSeen) # fan_spl_effects ext cfg active slot a
      else if am_owner (account_meta a) = token_2022_id ext
      then FShared (ECount T22OwnerSeen) # fan_t22_effects ext cfg active slot a
      else []) @
     (if am_owner (account_meta a) = mpl_metadata_id ext then fan_metaplex_effects ext cfg active slot a else []) @
     [FShared (EProgress ProgressAccounts)]"

section \<open>The handlers run their effects\<close>

lemma run_fan_effect_simps:
  "run_fan_effect ops (FStaging (ERow t r)) = on_staging_sink (write_row ops t r)"
  "run_fan_effect ops (FStaging (EStep s)) = on_staging_patches (run_patch_step s)"
  "run_fan_effect ops (FActive (ERow t r)) = on_active_sink (write_row ops t r)"
  "run_fan_effect ops (FActive (EStep s)) = on_active_patches (run_patch_step s)"
  "run_fan_effect ops (FShared (EProgress p)) = fan_progress p"
  "run_fan_effect ops (FShared (ECount c)) = fan_count c"
  "run_fan_effect ops (FShared (EClose k slot)) =
     supdate (\<lambda>s. s\<lparr>fo_stats := (fo_stats s)\<lparr>ws_closed := upsert_max k slot (ws_closed (fo_stats s))\<rparr>\<rparr>)"
  "run_fan_effect ops (FShared (EPair m v)) =
     supdate (\<lambda>s. s\<lparr>fo_stats := (fo_stats s)\<lparr>ws_pairs := insert (m, v) (ws_pairs (fo_stats s))\<rparr>\<rparr>)"
  by (simp_all add: run_fan_effect_def fan_count_def)

lemmas fan_run = run_fan_effect_simps sfor_append sthen_assoc

lemma fan_patch_steps:
  "on_staging_patches (record_metadata_fields m v) = on_staging_patches (run_patch_step (StepFields m v))"
  "on_active_patches (record_metadata_fields m v) = on_active_patches (run_patch_step (StepFields m v))"
  "on_staging_patches (record_extensions m x) = on_staging_patches (run_patch_step (StepExtensions m x))"
  "on_active_patches (record_extensions m x) = on_active_patches (run_patch_step (StepExtensions m x))"
  by (simp_all add: on_staging_patches_def on_active_patches_def)

lemma fan_close_run:
  "swhen active (record_active_close_candidate ext a slot) =
   sfor (run_fan_effect ops) (fan_close_effects ext active slot a)"
  by (simp add: record_active_close_candidate_def fan_close_effects_def is_close_tombstone_candidate_def
      remember_close_candidate_def swhen_def fan_run)

lemma fan_token_run:
  "fan_write_token_account_row ops ext cfg a slot active ta =
   sfor (run_fan_effect ops) (fan_token_effects ext cfg active slot a ta)"
  by (cases active) (simp_all add: fan_write_token_account_row_def fan_token_effects_def both_def Let_def write_token_account_def fan_run)

lemma fan_mint_run:
  "fan_write_token_mint_row ops ext cfg active (account_pubkey ext a) tm =
   sfor (run_fan_effect ops) (fan_mint_effects ext cfg active a tm)"
  by (cases active) (simp_all add: fan_write_token_mint_row_def fan_mint_effects_def both_def Let_def write_token_mint_def fan_run)

lemma fan_metadata_run:
  "fan_record_token_2022_metadata ext cfg md expected slot source acct active =
   sthen (sfor (run_fan_effect ops) (fan_metadata_effects ext cfg active md expected slot source acct))
     (sreturn (fan_metadata_effects ext cfg active md expected slot source acct \<noteq> []))"
  by (cases active) (simp_all add: fan_record_token_2022_metadata_def fan_metadata_effects_def both_def Let_def fan_run fan_patch_steps
      split: option.split)

lemma fan_extension_run:
  "fan_insert_extensions ext cfg a slot active (account_pubkey ext a) =
   sfor (run_fan_effect ops) (fan_extension_effects ext cfg active slot a)"
  by (cases active) (simp_all add: fan_insert_extensions_def fan_extension_effects_def both_def Let_def fan_run fan_patch_steps
      fan_metadata_run [of _ _ _ _ _ _ _ _ ops] split: sum.split option.split)

lemma fan_spl_run:
  "fan_insert_spl_token ops ext cfg a slot active = sfor (run_fan_effect ops) (fan_spl_effects ext cfg active slot a)"
  by (simp add: fan_insert_spl_token_def fan_spl_effects_def fan_token_run fan_mint_run
      fan_close_run [of _ _ _ _ ops] fan_run split: option.split)

lemma fan_t22_run:
  "fan_insert_token_2022 ops ext cfg a slot active = sfor (run_fan_effect ops) (fan_t22_effects ext cfg active slot a)"
  by (simp add: fan_insert_token_2022_def fan_t22_effects_def fan_token_run fan_mint_run
      fan_extension_run [of _ _ _ _ _ ops] fan_close_run [of _ _ _ _ ops] fan_metadata_run [of _ _ _ _ _ _ _ _ ops]
      fan_run sbind_sthen Let_def split: option.split sum.split token_2022_base_state.split)

lemma fan_metaplex_run:
  "fan_insert_token_metadata ext cfg a slot active =
   sfor (run_fan_effect ops) (fan_metaplex_effects ext cfg active slot a)"
  by (cases active) (simp_all add: fan_insert_token_metadata_def fan_metaplex_effects_def both_def Let_def fan_run fan_patch_steps
      split: option.split)

lemma fan_account_run:
  "fan_insert_account ops ext cfg slot active a =
   sthen (on_active_sink (maybe_force_commit ops)) (sthen (on_staging_sink (maybe_force_commit ops))
     (sfor (run_fan_effect ops) (fan_effects ext cfg active slot a)))"
proof -
  have c: "swhen (active \<and> e) (record_active_close_candidate ext a slot) =
      sfor (run_fan_effect ops) (if e then fan_close_effects ext active slot a else [])" for e
    using fan_close_run [of active ext a slot ops] by simp
  have o: "(if p then sthen (fan_count SplOwnerSeen) (fan_insert_spl_token ops ext cfg a slot active)
      else if q then sthen (fan_count T22OwnerSeen) (fan_insert_token_2022 ops ext cfg a slot active) else sreturn ()) =
     sfor (run_fan_effect ops) (if p then FShared (ECount SplOwnerSeen) # fan_spl_effects ext cfg active slot a
       else if q then FShared (ECount T22OwnerSeen) # fan_t22_effects ext cfg active slot a else [])" for p q
    by (simp add: fan_spl_run fan_t22_run run_fan_effect_simps)
  have m: "swhen p (fan_insert_token_metadata ext cfg a slot active) =
      sfor (run_fan_effect ops) (if p then fan_metaplex_effects ext cfg active slot a else [])" for p
    by (simp add: fan_metaplex_run [of _ _ _ _ _ ops])
  have b: "sthen (on_staging_sink (write_account ops row)) (sthen (swhen active (on_active_sink (write_account ops row))) k) =
      sthen (sfor (run_fan_effect ops) (both True active (ERow TAccount (RAccount row)))) k" for row k
    by (simp add: both_def write_account_def fan_run)
  show ?thesis
    unfolding fan_insert_account_def Let_def fan_effects_def c o m b sfor_append sfor.simps run_fan_effect_simps
      sthen_return_right
    by (rule refl)
qed

section \<open>Projections\<close>

text \<open>Which effects are rows and patch steps, closes and pairs, counts.\<close>

fun is_data :: "worker_effect \<Rightarrow> bool" where
  "is_data (ERow _ _) = True"
| "is_data (EStep _) = True"
| "is_data _ = False"

fun is_set :: "worker_effect \<Rightarrow> bool" where
  "is_set (EClose _ _) = True"
| "is_set (EPair _ _) = True"
| "is_set _ = False"

fun is_count :: "worker_effect \<Rightarrow> bool" where
  "is_count (ECount _) = True"
| "is_count _ = False"

fun to_staging :: "fan_effect list \<Rightarrow> worker_effect list" where
  "to_staging [] = []"
| "to_staging (FStaging e # es) = e # to_staging es"
| "to_staging (_ # es) = to_staging es"

fun to_active :: "fan_effect list \<Rightarrow> worker_effect list" where
  "to_active [] = []"
| "to_active (FActive e # es) = e # to_active es"
| "to_active (_ # es) = to_active es"

fun to_shared :: "fan_effect list \<Rightarrow> worker_effect list" where
  "to_shared [] = []"
| "to_shared (FShared e # es) = e # to_shared es"
| "to_shared (_ # es) = to_shared es"

lemma to_append [simp]:
  "to_staging (xs @ ys) = to_staging xs @ to_staging ys"
  "to_active (xs @ ys) = to_active xs @ to_active ys"
  "to_shared (xs @ ys) = to_shared xs @ to_shared ys"
  by (induction xs rule: to_staging.induct) simp_all

lemma to_both [simp]:
  "to_staging (both st act e) = (if st then [e] else [])"
  "to_active (both st act e) = (if act then [e] else [])"
  "to_shared (both st act e) = []"
  by (simp_all add: both_def)

definition staging_config :: "fanout_config \<Rightarrow> worker_config" where
  "staging_config cfg = worker_config_of Full (fc_snapshot_slot cfg) (fc_staging_hot_mints cfg)"

definition active_config :: "fanout_config \<Rightarrow> worker_config" where
  "active_config cfg = worker_config_of Incremental (fc_snapshot_slot cfg) (fc_active_hot_mints cfg)"

lemma fan_config_simps [simp]:
  "wc_snapshot_slot (staging_config cfg) = fc_snapshot_slot cfg" "wc_snapshot_slot (active_config cfg) = fc_snapshot_slot cfg"
  "wc_hot_mints (staging_config cfg) = fc_staging_hot_mints cfg" "wc_hot_mints (active_config cfg) = fc_active_hot_mints cfg"
  "\<not> wc_collect_close_tombstones (staging_config cfg)" "wc_collect_close_tombstones (active_config cfg)"
  "\<not> wc_collect_affected_pairs (staging_config cfg)" "wc_collect_affected_pairs (active_config cfg)"
  "wc_policy (staging_config cfg) = ExcludeFromFullBaseline" "wc_policy (active_config cfg) = Retain"
  by (simp_all add: staging_config_def active_config_def worker_config_of_def)

text \<open>
  \<open>splits_into fes act fs is\<close>: the effects \<open>fes\<close> of the shared import are the effects \<open>fs\<close> of the full
  import and, when \<open>act\<close>, the effects \<open>is\<close> of the incremental import.
\<close>

definition splits_into :: "fan_effect list \<Rightarrow> bool \<Rightarrow> worker_effect list \<Rightarrow> worker_effect list \<Rightarrow> bool" where
  "splits_into fes act fs is \<longleftrightarrow>
     to_staging fes = filter is_data fs \<and>
     to_active fes = (if act then filter is_data is else []) \<and>
     filter is_set (to_shared fes) = (if act then filter is_set is else []) \<and>
     filter is_count (to_shared fes) = filter is_count fs \<and> filter is_set fs = [] \<and>
     list_all (\<lambda>e. \<not> is_data e) (to_shared fes)"

lemma splits_Nil [intro]: "splits_into [] act [] []"
  by (simp add: splits_into_def)

lemma splits_append [intro]:
  "splits_into fes act fs is \<Longrightarrow> splits_into fes' act fs' is' \<Longrightarrow> splits_into (fes @ fes') act (fs @ fs') (is @ is')"
  by (auto simp: splits_into_def)

lemma splits_count: "splits_into [FShared (ECount c)] act [ECount c] [ECount c]"
  and splits_progress: "splits_into [FShared (EProgress p)] act [EProgress p] [EProgress p]"
  by (auto simp: splits_into_def)

lemma splits_token:
  "splits_into (fan_token_effects ext cfg act slot a ta) act
    (token_account_effects ext (staging_config cfg) slot a ta) (token_account_effects ext (active_config cfg) slot a ta)"
  by (simp add: splits_into_def fan_token_effects_def token_account_effects_def Let_def writes_live_amount_def)

lemma splits_mint:
  "splits_into (fan_mint_effects ext cfg act a tm) act
    (mint_row_effects ext (staging_config cfg) a tm) (mint_row_effects ext (active_config cfg) a tm)"
  by (simp add: splits_into_def fan_mint_effects_def mint_row_effects_def)

lemma splits_metadata:
  "splits_into (fan_metadata_effects ext cfg act md expected slot source acct) act
    (metadata_effects ext (staging_config cfg) md expected slot source acct)
    (metadata_effects ext (active_config cfg) md expected slot source acct)"
  by (simp add: splits_into_def fan_metadata_effects_def metadata_effects_def)

lemma splits_close:
  "splits_into (fan_close_effects ext act slot a) act
    (close_effects ext (staging_config cfg) slot a) (close_effects ext (active_config cfg) slot a)"
  by (simp add: splits_into_def fan_close_effects_def close_effects_def)

text \<open>Progress marks do not matter for the split.\<close>

lemma splits_progress_any:
  "splits_into [FShared (EProgress p)] act [] []" "splits_into [] act [EProgress p] []"
  "splits_into [] act [] [EProgress p]"
  by (simp_all add: splits_into_def)

lemma splits_active_off:
  "splits_into fes False fs is \<longleftrightarrow> splits_into fes False fs []"
  by (simp add: splits_into_def)

lemma splits_extension:
  "splits_into (fan_extension_effects ext cfg act slot a) act
    (extension_effects ext (staging_config cfg) slot a) (extension_effects ext (active_config cfg) slot a)"
proof (cases "parse_token_2022_mint_extensions ext (sa_data a)")
  case (Inl e)
  then show ?thesis by (simp add: splits_into_def fan_extension_effects_def extension_effects_def Let_def)
next
  case (Inr parsed)
  show ?thesis
  proof (cases "pe_token_metadata parsed")
    case None
    with Inr show ?thesis by (simp add: splits_into_def fan_extension_effects_def extension_effects_def Let_def)
  next
    case (Some md)
    show ?thesis
      using splits_metadata [of ext cfg act md "Some (sm_pubkey (meta a))" slot Token2022Embedded "account_pubkey ext a"] Inr Some
      by (auto simp: splits_into_def fan_extension_effects_def extension_effects_def Let_def
          fan_metadata_effects_def metadata_effects_def account_pubkey_def split: if_splits)
  qed
qed

lemma splits_spl:
  "splits_into (fan_spl_effects ext cfg act slot a) act
    (spl_effects ext (staging_config cfg) slot a) (spl_effects ext (active_config cfg) slot a)"
proof -
  have t: "splits_into (es @ [FShared (ECount c), FShared (EProgress p)]) act
      (fs @ [ECount c, EProgress p]) (gs @ [ECount c, EProgress p])" if "splits_into es act fs gs" for es fs gs c p
    using that by (simp add: splits_into_def)
  have h: "splits_into (FShared (ECount c) # es) act (ECount c # fs) (ECount c # gs)"
    if "splits_into es act fs gs" for es fs gs c
    using that by (simp add: splits_into_def)
  show ?thesis
    unfolding fan_spl_effects_def spl_effects_def
    using t [OF splits_token] t [OF splits_mint] h [OF splits_close] h [OF splits_Nil]
    by (simp split: option.split)
qed

lemma splits_head:
  "splits_into es act fs gs \<Longrightarrow> splits_into (FShared (ECount c) # es) act (ECount c # fs) (ECount c # gs)"
  by (simp add: splits_into_def)

lemma splits_tail:
  "splits_into es act fs gs \<Longrightarrow> splits_into (es @ [FShared (ECount c), FShared (EProgress p)]) act
    (fs @ [ECount c, EProgress p]) (gs @ [ECount c, EProgress p])"
  by (simp add: splits_into_def)

lemma splits_recorded:
  assumes "splits_into es act fs gs"
  shows "splits_into (es @ (if es = [] then [] else [FShared (EProgress p)]) @ es2) act
    (fs @ (if fs = [] then [] else [EProgress p]) @ fs2) (gs @ (if gs = [] then [] else [EProgress p]) @ gs2) \<longleftrightarrow>
    splits_into (es @ es2) act (fs @ fs2) (gs @ gs2)"
  by (simp add: splits_into_def)

lemma splits_t22:
  "splits_into (fan_t22_effects ext cfg act slot a) act
    (t22_effects ext (staging_config cfg) slot a) (t22_effects ext (active_config cfg) slot a)"
proof (cases "unpack_token_2022_base_state ext (sa_data a)")
  case None
  show ?thesis
  proof (cases "parse_token_2022_metadata_value (sa_data a)")
    case (Inr md)
    have m: "splits_into (fan_metadata_effects ext cfg act md None slot Token2022Standalone (account_pubkey ext a)) act
      (metadata_effects ext (staging_config cfg) md None slot Token2022Standalone (account_pubkey ext a))
      (metadata_effects ext (active_config cfg) md None slot Token2022Standalone (account_pubkey ext a))"
      by (rule splits_metadata)
    show ?thesis
      using splits_append [OF m splits_count [of T22Parsed]]
      by (simp add: fan_t22_effects_def t22_effects_def None Inr Let_def splits_recorded [OF m])
  qed (simp add: fan_t22_effects_def t22_effects_def None splits_head splits_close)
next
  case (Some b)
  show ?thesis
  proof (cases b)
    case (BaseAccount ta)
    then show ?thesis by (simp add: fan_t22_effects_def t22_effects_def Some splits_tail splits_token)
  next
    case (BaseMint tm)
    show ?thesis
      using splits_tail [OF splits_append [OF splits_mint splits_extension]]
      by (simp add: fan_t22_effects_def t22_effects_def Some BaseMint)
  qed
qed

lemma splits_metaplex:
  "splits_into (fan_metaplex_effects ext cfg act slot a) act
    (metaplex_effects ext (staging_config cfg) slot a) (metaplex_effects ext (active_config cfg) slot a)"
  by (simp add: splits_into_def fan_metaplex_effects_def metaplex_effects_def Let_def both_def split: option.split)

lemma fan_effects_split:
  "splits_into (fan_effects ext cfg act slot a) act
    (account_effects ext (staging_config cfg) slot a) (account_effects ext (active_config cfg) slot a)"
proof -
  have r: "splits_into (both True act (ERow TAccount r)) act [ERow TAccount r] [ERow TAccount r]" for r
    by (simp add: splits_into_def)
  have c: "splits_into (if p then es else []) act (if p then fs else []) (if p then gs else [])"
    if "splits_into es act fs gs" for p es fs gs
    using that by (simp add: splits_Nil)
  have o: "splits_into (if p then es else if q then es2 else []) act (if p then fs else if q then fs2 else [])
      (if p then gs else if q then gs2 else [])"
    if "splits_into es act fs gs" "splits_into es2 act fs2 gs2" for p q es fs gs es2 fs2 gs2
    using that by (simp add: splits_Nil)
  have e: "account_effects ext w slot a = [ERow TAccount (RAccount (account_row_of ext (wc_snapshot_slot w) a))] @
     (if is_canonical_empty_account (data_len (meta a)) (lamports (account_meta a))
           (am_owner (account_meta a)) (executable (account_meta a))
      then close_effects ext w slot a else []) @
     (if am_owner (account_meta a) = spl_token_id ext then ECount SplOwnerSeen # spl_effects ext w slot a
      else if am_owner (account_meta a) = token_2022_id ext then ECount T22OwnerSeen # t22_effects ext w slot a
      else []) @
     (if am_owner (account_meta a) = mpl_metadata_id ext then metaplex_effects ext w slot a else []) @
     [EProgress ProgressAccounts]" for w
    by (simp add: account_effects_def)
  show ?thesis
    unfolding e fan_effects_def fan_config_simps
    by (intro splits_append r c o splits_close splits_head splits_spl splits_t22 splits_metaplex splits_progress)
qed

section \<open>What the shared import does\<close>

definition fan_done_view ::
  "('i sink \<Rightarrow> sink_table \<Rightarrow> row list) \<Rightarrow> 'i fanout \<Rightarrow> fan_effect list \<Rightarrow> 'i fanout \<Rightarrow> bool" where
  "fan_done_view taken s fes s' \<longleftrightarrow>
     taken (fo_staging_sink s') = (\<lambda>t. taken (fo_staging_sink s) t @ rows_in t (to_staging fes)) \<and>
     taken (fo_active_sink s') = (\<lambda>t. taken (fo_active_sink s) t @ rows_in t (to_active fes)) \<and>
     fo_staging_patches s' = fold run_patch_step (steps_in (to_staging fes)) (fo_staging_patches s) \<and>
     fo_active_patches s' = fold run_patch_step (steps_in (to_active fes)) (fo_active_patches s) \<and>
     fo_stats s' = fold stats_effect (to_shared fes) (fo_stats s)"

lemma fan_done_view_Nil: "fan_done_view taken s [] s"
  by (simp add: fan_done_view_def)

lemma fan_done_view_trans:
  "fan_done_view taken s fes s1 \<Longrightarrow> fan_done_view taken s1 fes' s2 \<Longrightarrow> fan_done_view taken s (fes @ fes') s2"
  by (simp add: fan_done_view_def effects_append)

lemma on_staging_sink_eq_Inr_iff:
  "on_staging_sink m s = (Inr x, s') \<longleftrightarrow> (\<exists>k. m (fo_staging_sink s) = (Inr x, k) \<and> s' = s\<lparr>fo_staging_sink := k\<rparr>)"
  by (auto simp: on_staging_sink_def split: prod.splits)

lemma on_active_sink_eq_Inr_iff:
  "on_active_sink m s = (Inr x, s') \<longleftrightarrow> (\<exists>k. m (fo_active_sink s) = (Inr x, k) \<and> s' = s\<lparr>fo_active_sink := k\<rparr>)"
  by (auto simp: on_active_sink_def split: prod.splits)

lemma rows_in_simps [simp]:
  "rows_in t (ERow t' r # es) = (if t' = t then r # rows_in t es else rows_in t es)"
  "rows_in t (EStep s # es) = rows_in t es" "steps_in (EStep s # es) = s # steps_in es"
  "steps_in (ERow t' r # es) = steps_in es"
  by (simp_all add: rows_in_def steps_in_def)

fun fan_ok :: "fan_effect \<Rightarrow> bool" where
  "fan_ok (FStaging e) = is_data e"
| "fan_ok (FActive e) = is_data e"
| "fan_ok (FShared e) = (\<not> is_data e)"

lemma splits_fan_ok:
  assumes "splits_into fes act fs is"
  shows "list_all fan_ok fes"
proof -
  have "list_all is_data (to_staging fes)" "list_all is_data (to_active fes)" "list_all (\<lambda>e. \<not> is_data e) (to_shared fes)"
    using assms by (auto simp: splits_into_def list_all_iff)
  then show ?thesis by (induction fes rule: to_staging.induct) simp_all
qed

context inserter
begin

abbreviation fan_done :: "'i fanout \<Rightarrow> fan_effect list \<Rightarrow> 'i fanout \<Rightarrow> bool" where
  "fan_done \<equiv> fan_done_view taken"

lemma run_fan_effect_done:
  assumes "run_fan_effect ops fe s = (Inr u, s')"
    and "fan_ok fe"
  shows "fan_done s [fe] s'"
proof (cases fe)
  case (FStaging e)
  then show ?thesis
  proof (cases e)
    case (ERow t r)
    then obtain k where "write_row ops t r (fo_staging_sink s) = (Inr (), k)" "s' = s\<lparr>fo_staging_sink := k\<rparr>"
      using assms(1) FStaging by (auto simp: run_fan_effect_simps on_staging_sink_eq_Inr_iff)
    then show ?thesis
      using write_row_taken [of t r "fo_staging_sink s" "()" k] FStaging ERow by (auto simp: fan_done_view_def fun_eq_iff)
  qed (use assms FStaging in \<open>auto simp: run_fan_effect_simps on_staging_patches_def fan_done_view_def split: if_splits\<close>)
next
  case (FActive e)
  then show ?thesis
  proof (cases e)
    case (ERow t r)
    then obtain k where "write_row ops t r (fo_active_sink s) = (Inr (), k)" "s' = s\<lparr>fo_active_sink := k\<rparr>"
      using assms(1) FActive by (auto simp: run_fan_effect_simps on_active_sink_eq_Inr_iff)
    then show ?thesis
      using write_row_taken [of t r "fo_active_sink s" "()" k] FActive ERow by (auto simp: fan_done_view_def fun_eq_iff)
  qed (use assms FActive in \<open>auto simp: run_fan_effect_simps on_active_patches_def fan_done_view_def split: if_splits\<close>)
next
  case (FShared e)
  then show ?thesis
    using assms by (cases e) (auto simp: run_fan_effect_def fan_progress_def fan_done_view_def)
qed

lemma run_fan_effects_done:
  "sfor (run_fan_effect ops) fes s = (Inr u, s') \<Longrightarrow> list_all fan_ok fes \<Longrightarrow> fan_done s fes s'"
proof (induction fes arbitrary: s)
  case Nil
  then show ?case by (simp add: fan_done_view_Nil)
next
  case (Cons fe fes)
  then obtain s1 where "run_fan_effect ops fe s = (Inr (), s1)" "sfor (run_fan_effect ops) fes s1 = (Inr u, s')"
    by (auto simp: op_success)
  then have "fan_done s ([fe] @ fes) s'"
    using run_fan_effect_done Cons.IH Cons.prems(2) fan_done_view_trans by (metis list.pred_inject(2))
  then show ?case by simp
qed

lemma fan_flush_done:
  "on_staging_sink m s = (Inr u, s') \<Longrightarrow> (\<And>k k'. m k = (Inr u, k') \<Longrightarrow> taken k' = taken k) \<Longrightarrow> fan_done s [] s'"
  "on_active_sink m s = (Inr u, s') \<Longrightarrow> (\<And>k k'. m k = (Inr u, k') \<Longrightarrow> taken k' = taken k) \<Longrightarrow> fan_done s [] s'"
  by (auto simp: on_staging_sink_eq_Inr_iff on_active_sink_eq_Inr_iff fan_done_view_def)

lemma fan_insert_account_done:
  assumes "fan_insert_account ops ext cfg slot active a s = (Inr u, s')"
  shows "fan_done s (fan_effects ext cfg active slot a) s'"
proof -
  obtain s1 s2 where s1: "on_active_sink (maybe_force_commit ops) s = (Inr (), s1)"
    and s2: "on_staging_sink (maybe_force_commit ops) s1 = (Inr (), s2)"
    and s3: "sfor (run_fan_effect ops) (fan_effects ext cfg active slot a) s2 = (Inr u, s')"
    using assms by (auto simp: fan_account_run op_success)
  have "fan_done s [] s1" using fan_flush_done(2) [OF s1] maybe_force_commit_taken by blast
  moreover have "fan_done s1 [] s2" using fan_flush_done(1) [OF s2] maybe_force_commit_taken by blast
  moreover have "fan_done s2 (fan_effects ext cfg active slot a) s'"
    by (rule run_fan_effects_done [OF s3 splits_fan_ok [OF fan_effects_split]])
  ultimately have "fan_done s (([] @ []) @ fan_effects ext cfg active slot a) s'"
    by (blast intro: fan_done_view_trans)
  then show ?thesis by simp
qed

lemma fan_accounts_done:
  "sfor (fan_insert_account ops ext cfg slot active) as s = (Inr u, s') \<Longrightarrow>
   fan_done s (concat (map (fan_effects ext cfg active slot) as)) s'"
proof (induction as arbitrary: s)
  case Nil
  then show ?case by (simp add: fan_done_view_Nil)
next
  case (Cons a as)
  then obtain s1 where "fan_insert_account ops ext cfg slot active a s = (Inr (), s1)"
    "sfor (fan_insert_account ops ext cfg slot active) as s1 = (Inr u, s')"
    by (auto simp: op_success)
  then show ?case using fan_insert_account_done Cons.IH fan_done_view_trans by fastforce
qed

end

text \<open>The marked effects of a message, and the effects of the two imports it stands for.\<close>

definition accounts_of :: "append_vec \<Rightarrow> stored_account_meta list" where
  "accounts_of av = (case append_vec_accounts av of Some (Done as) \<Rightarrow> as | _ \<Rightarrow> [])"

fun message_effects :: "externals \<Rightarrow> fanout_config \<Rightarrow> worker_msg \<Rightarrow> fan_effect list" where
  "message_effects ext cfg (Received av) = FShared (ECount AppendVecsTotal) #
     concat (map (fan_effects ext cfg (fc_active_resume_slot cfg < av_slot av) (av_slot av)) (accounts_of av)) @
     (if 0 < av_len av \<and> accounts_of av = [] then [FShared (ECount NonemptyZeroAccount)] else [])"
| "message_effects ext cfg Timeout = []"

fun received :: "worker_msg list \<Rightarrow> append_vec list" where
  "received [] = []"
| "received (Received av # ms) = av # received ms"
| "received (Timeout # ms) = received ms"

definition import_effects :: "externals \<Rightarrow> worker_config \<Rightarrow> append_vec list \<Rightarrow> worker_effect list" where
  "import_effects ext wcfg avs = all_effects ext wcfg (concat (map tasks_of avs))"

lemma import_effects_Cons: "import_effects ext wcfg (av # avs) = import_effects ext wcfg [av] @ import_effects ext wcfg avs"
  by (simp add: import_effects_def all_effects_def)

lemma import_effects_one:
  assumes "av_wf av"
  shows "import_effects ext wcfg [av] = ECount AppendVecsTotal #
    concat (map (account_effects ext wcfg (av_slot av)) (accounts_of av)) @
    (if accounts_of av = [] then [ECount NonemptyZeroAccount] else [])"
proof -
  obtain as where as: "append_vec_accounts av = Some (Done as)" "length as < 2 ^ 64" by (rule accounts_few [OF assms])
  have "all_effects ext wcfg (map (TaskAccount (av_slot av)) as) = concat (map (account_effects ext wcfg (av_slot av)) as)"
    by (simp add: all_effects_def o_def)
  then show ?thesis using as by (simp add: import_effects_def tasks_of_def accounts_of_def all_effects_def)
qed

lemma splits_into_concat:
  "(\<And>a. a \<in> set as \<Longrightarrow> splits_into (f a) act (g a) (h a)) \<Longrightarrow>
   splits_into (concat (map f as)) act (concat (map g as)) (concat (map h as))"
  by (induction as) (auto intro!: splits_append)

definition av_counts :: "worker_effect list \<Rightarrow> worker_effect list" where
  "av_counts es = filter (\<lambda>e. is_count e \<and> e \<noteq> ECount NonemptyZeroAccount) es"

lemma av_counts_append [simp]: "av_counts (xs @ ys) = av_counts xs @ av_counts ys"
  by (simp add: av_counts_def)

definition split_imports ::
  "fan_effect list \<Rightarrow> worker_effect list \<Rightarrow> worker_effect list \<Rightarrow> bool" where
  "split_imports fes fs is \<longleftrightarrow> to_staging fes = filter is_data fs \<and> to_active fes = filter is_data is \<and>
     filter is_set (to_shared fes) = filter is_set is \<and> av_counts (to_shared fes) = av_counts fs \<and>
     list_all fan_ok fes"

lemma splits_imports:
  assumes "splits_into fes act fs is"
  shows "split_imports fes fs (if act then is else [])"
proof -
  have c: "av_counts es = av_counts (filter is_count es)" for es
    unfolding av_counts_def filter_filter by (rule filter_cong) auto
  show ?thesis
    using assms splits_fan_ok [OF assms] c [of "to_shared fes"] c [of fs]
    by (auto simp: splits_into_def split_imports_def)
qed

lemma split_imports_append:
  "split_imports fes fs is \<Longrightarrow> split_imports fes' fs' is' \<Longrightarrow> split_imports (fes @ fes') (fs @ fs') (is @ is')"
  by (simp add: split_imports_def)

lemma message_effects_split:
  "\<forall>av \<in> set (received ms). av_wf av \<Longrightarrow>
   split_imports (concat (map (message_effects ext cfg) ms)) (import_effects ext (staging_config cfg) (received ms))
    (import_effects ext (active_config cfg) (filter (\<lambda>av. fc_active_resume_slot cfg < av_slot av) (received ms)))"
proof (induction ms rule: received.induct)
  case (2 av ms)
  let ?act = "fc_active_resume_slot cfg < av_slot av"
  let ?fes = "concat (map (fan_effects ext cfg ?act (av_slot av)) (accounts_of av))"
  let ?imp = "\<lambda>wcfg. concat (map (account_effects ext wcfg (av_slot av)) (accounts_of av))"
  have "splits_into ?fes ?act (?imp (staging_config cfg)) (?imp (active_config cfg))"
    by (intro splits_into_concat fan_effects_split)
  from splits_imports [OF this]
  have one: "split_imports (message_effects ext cfg (Received av)) (import_effects ext (staging_config cfg) [av])
      (if ?act then import_effects ext (active_config cfg) [av] else [])"
    using "2.prems" by (simp add: split_imports_def av_counts_def import_effects_one)
  have wf: "\<forall>av \<in> set (received ms). av_wf av" using "2.prems" by simp
  let ?tail = "filter (\<lambda>av. fc_active_resume_slot cfg < av_slot av)"
  have t: "import_effects ext (active_config cfg) (?tail (av # received ms)) =
      (if ?act then import_effects ext (active_config cfg) [av] else []) @
      import_effects ext (active_config cfg) (?tail (received ms))"
    by (cases ?act) (simp_all add: import_effects_Cons [of ext _ av "?tail (received ms)"])
  show ?case
    using split_imports_append [OF one "2.IH" [OF wf]]
    by (simp only: received.simps list.map concat.simps t import_effects_Cons [of ext _ av "received ms"])
qed (simp_all add: split_imports_def import_effects_def all_effects_def av_counts_def)

lemma ws_count_fold:
  "ws_count (fold stats_effect es st) c = ws_count st c + word_of_nat (length (filter (\<lambda>e. e = ECount c) es))"
proof (induction es arbitrary: st)
  case (Cons e es)
  then show ?case using Cons.IH [of "stats_effect e st"] by (cases e) (simp_all add: bump_def)
qed simp

lemma ws_sets_cong:
  "ws_closed st = ws_closed st' \<and> ws_pairs st = ws_pairs st' \<Longrightarrow>
   ws_closed (fold stats_effect es st) = ws_closed (fold stats_effect es st') \<and>
   ws_pairs (fold stats_effect es st) = ws_pairs (fold stats_effect es st')"
proof (induction es arbitrary: st st')
  case (Cons e es)
  have "ws_closed (stats_effect e st) = ws_closed (stats_effect e st') \<and>
      ws_pairs (stats_effect e st) = ws_pairs (stats_effect e st')"
    using Cons.prems by (cases e) (simp_all add: bump_def)
  from Cons.IH [OF this] show ?case by simp
qed simp

lemma ws_sets_fold: "ws_closed (fold stats_effect es st) = ws_closed (fold stats_effect (filter is_set es) st) \<and>
    ws_pairs (fold stats_effect es st) = ws_pairs (fold stats_effect (filter is_set es) st)"
proof (induction es arbitrary: st)
  case (Cons x es)
  have "is_set x \<or> ws_closed (stats_effect x st) = ws_closed st \<and> ws_pairs (stats_effect x st) = ws_pairs st"
    by (cases x) (simp_all add: bump_def)
  then show ?case
  proof
    assume "ws_closed (stats_effect x st) = ws_closed st \<and> ws_pairs (stats_effect x st) = ws_pairs st"
    from ws_sets_cong [OF this, of "filter is_set es"] Cons [of "stats_effect x st"]
    show ?thesis using Cons by (cases "is_set x") simp_all
  qed (use Cons in simp)
qed simp

lemma rows_in_Cons: "rows_in t (e # es) = (case e of ERow t' r \<Rightarrow> if t' = t then r # rows_in t es else rows_in t es | _ \<Rightarrow> rows_in t es)"
  and steps_in_Cons: "steps_in (e # es) = (case e of EStep s \<Rightarrow> s # steps_in es | _ \<Rightarrow> steps_in es)"
  by (simp_all add: rows_in_def steps_in_def split: worker_effect.split)

lemma data_view: "rows_in t (filter is_data es) = rows_in t es \<and> steps_in (filter is_data es) = steps_in es"
proof (induction es)
  case (Cons e es)
  then show ?case by (cases e) (simp_all add: rows_in_Cons steps_in_Cons)
qed simp

lemma count_view:
  assumes "c \<noteq> NonemptyZeroAccount"
  shows "length (filter (\<lambda>e. e = ECount c) es) = length (filter (\<lambda>e. e = ECount c) (av_counts es))"
proof -
  have "filter (\<lambda>e. e = ECount c) es = filter (\<lambda>e. e = ECount c) (av_counts es)"
    unfolding av_counts_def filter_filter by (rule filter_cong) (use assms in auto)
  then show ?thesis by simp
qed

context inserter
begin

lemma fan_message_done:
  assumes "fan_message ops ext cfg msg s = (Inr u, s')" "\<forall>av. msg = Received av \<longrightarrow> av_wf av"
  shows "fan_done s (message_effects ext cfg msg) s'"
proof (cases msg)
  case Timeout
  let ?flush = "\<lambda>s. if has_pending_rows ops s then force_commit_all ops s else (Inr (), s)"
  obtain s1 where s1: "on_staging_sink ?flush s = (Inr (), s1)" "on_active_sink ?flush s1 = (Inr u, s')"
    using assms(1) Timeout by (auto simp: fan_message_def op_success)
  have "taken k' = taken k" if "?flush k = (Inr (), k')" for k k'
    using that force_commit_all_ok(1) by (auto split: if_splits)
  note t = this
  have "fan_done s [] s1" by (rule fan_flush_done(1) [OF s1(1)]) (rule t, simp)
  moreover have "fan_done s1 [] s'" by (rule fan_flush_done(2) [OF s1(2)]) (rule t, simp)
  ultimately show ?thesis using fan_done_view_trans [of taken s "[]" s1 "[]" s'] Timeout by simp
next
  case (Received av)
  obtain as where as: "append_vec_accounts av = Some (Done as)" "length as < 2 ^ 64"
    using accounts_few assms(2) Received by metis
  have z: "(word_of_nat (length as) :: u64) = 0 \<longleftrightarrow> as = []"
  proof
    assume "(word_of_nat (length as) :: u64) = 0"
    then have "unat (word_of_nat (length as) :: u64) = 0" by simp
    then show "as = []" using unat_of_nat_u64 [OF as(2)] by simp
  qed simp
  let ?n = "if 0 < av_len av \<and> as = [] then [FShared (ECount NonemptyZeroAccount)] else []"
  obtain s1 s2 where s1: "fan_count AppendVecsTotal s = (Inr (), s1)"
    and s2: "sfor (fan_insert_account ops ext cfg (av_slot av) (fc_active_resume_slot cfg < av_slot av)) as s1 = (Inr (), s2)"
    and s3: "sfor (run_fan_effect ops) ?n s2 = (Inr (), s')"
    using assms(1) Received as(1)
    by (auto simp: fan_message_def fan_on_append_vec_count_def Let_def op_success z run_fan_effect_simps split: if_splits)
  have "fan_done s [FShared (ECount AppendVecsTotal)] s1"
    using run_fan_effect_done [of "FShared (ECount AppendVecsTotal)"] s1 by (simp add: run_fan_effect_simps)
  moreover have "fan_done s1 (concat (map (fan_effects ext cfg (fc_active_resume_slot cfg < av_slot av) (av_slot av)) as)) s2"
    by (rule fan_accounts_done [OF s2])
  moreover have "fan_done s2 ?n s'" by (rule run_fan_effects_done [OF s3]) simp
  ultimately have "fan_done s ([FShared (ECount AppendVecsTotal)] @
      (concat (map (fan_effects ext cfg (fc_active_resume_slot cfg < av_slot av) (av_slot av)) as) @ ?n)) s'"
    using fan_done_view_trans by blast
  then show ?thesis using Received as(1) by (simp add: accounts_of_def)
qed

lemma fan_messages_done:
  "sfor (fan_message ops ext cfg) ms s = (Inr u, s') \<Longrightarrow> \<forall>av \<in> set (received ms). av_wf av \<Longrightarrow>
   fan_done s (concat (map (message_effects ext cfg) ms)) s'"
proof (induction ms arbitrary: s)
  case Nil
  then show ?case by (simp add: fan_done_view_Nil)
next
  case (Cons m ms)
  obtain s1 where "fan_message ops ext cfg m s = (Inr (), s1)" "sfor (fan_message ops ext cfg) ms s1 = (Inr u, s')"
    using Cons.prems(1) by (auto simp: op_success)
  note m = this
  have wf: "\<forall>av. m = Received av \<longrightarrow> av_wf av" "\<forall>av \<in> set (received ms). av_wf av"
    using Cons.prems(2) by (cases m; simp)+
  show ?case
    using fan_done_view_trans [OF fan_message_done [OF m(1) wf(1)] Cons.IH [OF m(2) wf(2)]] by simp
qed

lemma worker_messages_done:
  assumes "sfor (worker_message ops ext wcfg) (map Received avs) w = (Inr u, w')" "\<forall>av \<in> set avs. av_wf av"
  shows "effects_done w (import_effects ext wcfg avs) w'"
  using assms
proof (induction avs arbitrary: w)
  case Nil
  then show ?case by (simp add: effects_done_Nil import_effects_def all_effects_def)
next
  case (Cons av avs)
  obtain w1 where w1: "worker_message ops ext wcfg (Received av) w = (Inr (), w1)"
    "sfor (worker_message ops ext wcfg) (map Received avs) w1 = (Inr u, w')"
    using Cons.prems(1) by (auto simp: op_success)
  obtain as where "append_vec_accounts av = Some (Done as)" "length as < 2 ^ 64"
    using accounts_few Cons.prems(2) by (metis list.set_intros(1))
  then have "sfor (run_task ops ext wcfg) (tasks_of av) w = (Inr (), w1)"
    using w1(1) by (simp add: worker_message_tasks)
  from effects_done_trans [OF run_tasks_done [OF this] Cons.IH [OF w1(2)]] Cons.prems(2)
  show ?case by (simp add: import_effects_def all_effects_def)
qed

end

section \<open>The shared import returns\<close>

abbreviation fan_gates_open :: "'i fanout \<Rightarrow> bool" where
  "fan_gates_open s \<equiv> gate_open (fo_staging_sink s) \<and> gate_open (fo_active_sink s)"

lemma succeeds_on_staging: "succeeds gate_open m \<Longrightarrow> succeeds fan_gates_open (on_staging_sink m)"
  by (fastforce simp: succeeds_def on_staging_sink_def)

lemma succeeds_on_active: "succeeds gate_open m \<Longrightarrow> succeeds fan_gates_open (on_active_sink m)"
  by (fastforce simp: succeeds_def on_active_sink_def)

lemma run_fan_effect_succeeds:
  assumes "never_fails ops"
  shows "succeeds fan_gates_open (run_fan_effect ops fe)"
proof -
  note ok = succeeds_on_staging succeeds_on_active succeeds_supdate write_row_succeeds assms
  note defs = run_fan_effect_def on_staging_patches_def on_active_patches_def fan_progress_def succeeds_sreturn
  show ?thesis
  proof (cases fe)
    case (FStaging e)
    then show ?thesis by (cases e) (auto simp: defs intro!: ok)
  next
    case (FActive e)
    then show ?thesis by (cases e) (auto simp: defs intro!: ok)
  next
    case (FShared e)
    then show ?thesis by (cases e) (auto simp: defs intro!: ok)
  qed
qed

lemma fan_message_succeeds:
  assumes "never_fails ops" "\<forall>av. msg = Received av \<longrightarrow> av_wf av"
  shows "succeeds fan_gates_open (fan_message ops ext cfg msg)"
proof (cases msg)
  case Timeout
  then show ?thesis
    by (auto simp: fan_message_def intro!: succeeds_sthen succeeds_on_staging succeeds_on_active succeeds_flush assms)
next
  case (Received av)
  obtain as where as: "append_vec_accounts av = Some (Done as)" "length as < 2 ^ 64"
    using accounts_few assms(2) Received by metis
  have "succeeds fan_gates_open (fan_insert_account ops ext cfg slot active a)" for slot active a
    unfolding fan_account_run
    by (intro succeeds_rules succeeds_on_staging succeeds_on_active maybe_force_commit_succeeds run_fan_effect_succeeds assms)
  then show ?thesis
    unfolding fan_message_def fan_on_append_vec_count_def Received Let_def
    by (simp add: as fan_count_def) (intro succeeds_rules succeeds_supdate; simp)
qed

lemma fan_messages_succeed:
  assumes "never_fails ops" "\<forall>av \<in> set (received ms). av_wf av"
  shows "succeeds fan_gates_open (sfor (fan_message ops ext cfg) ms)"
  using assms(2)
proof (induction ms rule: received.induct)
  case (2 av ms)
  then show ?case using fan_message_succeeds [OF assms(1), of "Received av"] by (simp add: succeeds_sthen)
next
  case (3 ms)
  then show ?case using fan_message_succeeds [OF assms(1), of Timeout] by (simp add: succeeds_sthen)
qed (simp add: succeeds_sreturn)

lemma worker_messages_succeed:
  assumes "never_fails ops" "\<forall>av \<in> set avs. av_wf av"
  shows "succeeds (\<lambda>w. gate_open (wk_sink w)) (sfor (worker_message ops ext cfg) (map Received avs))"
  using assms(2)
proof (induction avs)
  case (Cons av avs)
  obtain as where "append_vec_accounts av = Some (Done as)" "length as < 2 ^ 64"
    using accounts_few Cons.prems by (metis list.set_intros(1))
  then have "worker_message ops ext cfg (Received av) = sfor (run_task ops ext cfg) (tasks_of av)"
    by (rule worker_message_tasks)
  then show ?case using Cons by (simp add: succeeds_sthen succeeds_sfor run_task_succeeds assms(1))
qed (simp add: succeeds_sreturn)

section \<open>Property\<close>

text \<open>C9: The shared full import is two imports: over the messages of a worker (AppendVecs, with idle
  flushes anywhere) the staging sink takes the rows, and the staging patches become the patches, of a
  full import of the same AppendVecs with the staging hot mints; the active sink, patches, close
  candidates and affected pairs are those of an incremental import of the AppendVecs above the resume
  slot with the active hot mints.  The counters are those of the full import, but for the AppendVecs
  without accounts, which the shared import counts only when they have bytes.\<close>

theorem fanout_two_imports:
  assumes lib: "inserter ops committed pending"
    and wf: "\<forall>av \<in> set (received ms). av_wf av"
    and shared: "sfor (fan_message ops ext cfg) ms
      (fanout_new (sink_new ops gate Backup clock1) (sink_new ops gate Active clock2)) = (Inr u, s)"
    and full: "sfor (worker_message ops ext (staging_config cfg)) (map Received (received ms))
      (worker_new (sink_new ops gate Backup clock3) [] (\<lambda>_. 0)) = (Inr v, f)"
    and tail: "sfor (worker_message ops ext (active_config cfg))
      (map Received (filter (\<lambda>av. fc_active_resume_slot cfg < av_slot av) (received ms)))
      (worker_new (sink_new ops gate Active clock4) [] (\<lambda>_. 0)) = (Inr v', i)"
  shows "sink_taken committed pending (fo_staging_sink s) = sink_taken committed pending (wk_sink f) \<and>
    sink_taken committed pending (fo_active_sink s) = sink_taken committed pending (wk_sink i) \<and>
    fo_staging_patches s = wk_patches f \<and> fo_active_patches s = wk_patches i \<and>
    ws_closed (fo_stats s) = ws_closed (wk_stats i) \<and> ws_pairs (fo_stats s) = ws_pairs (wk_stats i) \<and>
    (\<forall>c. c \<noteq> NonemptyZeroAccount \<longrightarrow> ws_count (fo_stats s) c = ws_count (wk_stats f) c)"
proof -
  let ?fes = "concat (map (message_effects ext cfg) ms)"
  let ?fs = "import_effects ext (staging_config cfg) (received ms)"
  let ?is = "import_effects ext (active_config cfg) (filter (\<lambda>av. fc_active_resume_slot cfg < av_slot av) (received ms))"
  note d = inserter.fan_messages_done [OF lib shared wf]
  note df = inserter.worker_messages_done [OF lib full wf]
  have di: "inserter.effects_done committed pending
      (worker_new (sink_new ops gate Active clock4) [] (\<lambda>_. 0)) ?is i"
    by (rule inserter.worker_messages_done [OF lib tail]) (use wf in simp)
  have sp: "split_imports ?fes ?fs ?is" by (rule message_effects_split [OF wf])
  note views = fan_done_view_def inserter.effects_done_def [OF lib] fanout_new_def worker_new_def split_imports_def
  have rd: "rows_in t (filter is_data es) = rows_in t es" "steps_in (filter is_data es) = steps_in es" for t es
    by (simp_all add: data_view)
  have cnt: "length (filter (\<lambda>e. e = ECount c) (to_shared ?fes)) = length (filter (\<lambda>e. e = ECount c) ?fs)"
    if "c \<noteq> NonemptyZeroAccount" for c
    using count_view [OF that] sp by (metis split_imports_def)
  have "fo_stats s = fold stats_effect (to_shared ?fes) stats_default" "wk_stats f = fold stats_effect ?fs stats_default"
    "wk_stats i = fold stats_effect ?is stats_default"
    using d df di by (simp_all add: views)
  then have "ws_closed (fo_stats s) = ws_closed (wk_stats i) \<and> ws_pairs (fo_stats s) = ws_pairs (wk_stats i) \<and>
    (\<forall>c. c \<noteq> NonemptyZeroAccount \<longrightarrow> ws_count (fo_stats s) c = ws_count (wk_stats f) c)"
    using ws_sets_fold [of "to_shared ?fes" stats_default] ws_sets_fold [of ?is stats_default] sp cnt
    by (simp add: split_imports_def ws_count_fold)
  then show ?thesis
    using d df di sp by (simp add: views inserter.taken_new [OF lib] rd)
qed

section \<open>Witness\<close>

text \<open>One AppendVec below and one above the resume slot, with an idle flush between them.\<close>

definition sample_fanout_config :: fanout_config where
  "sample_fanout_config = \<lparr>fc_snapshot_slot = 20, fc_active_resume_slot = 9, fc_active_hot_mints = {''hot''},
     fc_staging_hot_mints = {''hot''}\<rparr>"

definition sample_messages :: "worker_msg list" where
  "sample_messages = [Received sample_scan_av, Timeout, Received (sample_scan_av\<lparr>av_slot := 12\<rparr>)]"

lemma fanout_two_imports_witness:
  "\<exists>s f i. sfor (fan_message buffered_ops sample_externals sample_fanout_config) sample_messages
      (fanout_new (sink_new buffered_ops None Backup (\<lambda>n. n)) (sink_new buffered_ops None Active (\<lambda>n. n))) = (Inr (), s) \<and>
    sfor (worker_message buffered_ops sample_externals (staging_config sample_fanout_config))
      [Received sample_scan_av, Received (sample_scan_av\<lparr>av_slot := 12\<rparr>)]
      (worker_new (sink_new buffered_ops None Backup (\<lambda>n. n)) [] (\<lambda>_. 0)) = (Inr (), f) \<and>
    sfor (worker_message buffered_ops sample_externals (active_config sample_fanout_config))
      [Received (sample_scan_av\<lparr>av_slot := 12\<rparr>)]
      (worker_new (sink_new buffered_ops None Active (\<lambda>n. n)) [] (\<lambda>_. 0)) = (Inr (), i) \<and>
    fo_staging_patches s = wk_patches f \<and> ws_pairs (fo_stats s) = ws_pairs (wk_stats i)"
proof -
  let ?fan = "fanout_new (sink_new buffered_ops None Backup (\<lambda>n. n)) (sink_new buffered_ops None Active (\<lambda>n. n))"
  let ?new = "\<lambda>g. worker_new (sink_new buffered_ops None g (\<lambda>n. n)) [] (\<lambda>_. 0)"
  let ?tail = "filter (\<lambda>av. fc_active_resume_slot sample_fanout_config < av_slot av) (received sample_messages)"
  have r: "received sample_messages = [sample_scan_av, sample_scan_av\<lparr>av_slot := 12\<rparr>]"
    by (simp add: sample_messages_def)
  have t: "?tail = [sample_scan_av\<lparr>av_slot := 12\<rparr>]" unfolding r by (simp add: sample_fanout_config_def sample_scan_av_def)
  have wf: "\<forall>av \<in> set (received sample_messages). av_wf av"
    unfolding r using sample_scan_av_wf by (simp add: av_wf_def)
  then have wft: "\<forall>av \<in> set ?tail. av_wf av" by simp
  have g: "fan_gates_open ?fan" "gate_open (wk_sink (?new Backup))" "gate_open (wk_sink (?new Active))"
    by (simp_all add: gate_open_def fanout_new_def worker_new_def sink_new_def)
  obtain u s where s: "sfor (fan_message buffered_ops sample_externals sample_fanout_config) sample_messages ?fan = (Inr u, s)"
    using fan_messages_succeed [OF buffered_never_fails wf] g(1) unfolding succeeds_def by meson
  obtain v f where f: "sfor (worker_message buffered_ops sample_externals (staging_config sample_fanout_config))
      (map Received (received sample_messages)) (?new Backup) = (Inr v, f)"
    using worker_messages_succeed [OF buffered_never_fails wf] g(2) unfolding succeeds_def by meson
  obtain v' i where i: "sfor (worker_message buffered_ops sample_externals (active_config sample_fanout_config))
      (map Received ?tail) (?new Active) = (Inr v', i)"
    using worker_messages_succeed [OF buffered_never_fails wft] g(3) unfolding succeeds_def by meson
  have "fo_staging_patches s = wk_patches f \<and> ws_pairs (fo_stats s) = ws_pairs (wk_stats i)"
    using fanout_two_imports [OF buffered.inserter_axioms wf s f i] by blast
  then show ?thesis
    using s f [unfolded r] i [unfolded t] by (intro exI [of _ s] exI [of _ f] exI [of _ i]) (simp del: sfor.simps)
qed

end
