(* ===== verification/Snapshot_Source.thy ===== *)
theory Snapshot_Source
  imports Append_Vec
begin

text \<open>
  The two snapshot readers, \<^verbatim>\<open>src/archived.rs\<close> (a tar.zst stream) and \<^verbatim>\<open>src/unpacked.rs\<close> (an
  unpacked directory), with \<^verbatim>\<open>parse_append_vec_name\<close> of \<^verbatim>\<open>src/lib.rs\<close>.  The tar and zstd crates are
  the list of entries they deliver, each entry an error or its path, size and bytes; bincode is the
  record \<open>decoders\<close> of the two decoding functions the readers call.  The file system of the
  unpacked reader is the record \<open>snapshot_dir\<close>.  Logging and its clocks are left out.
\<close>

section \<open>Errors and names\<close>

datatype snapshot_error =
    IOError io_error
  | BincodeError
  | NoStatusCache
  | NoSnapshotManifest
  | UnexpectedAppendVec

definition io_result :: "io_error + 'a \<Rightarrow> snapshot_error + 'a" where
  "io_result r = (case r of Inl e \<Rightarrow> Inl (IOError e) | Inr x \<Rightarrow> Inr x)"

text \<open>\<^verbatim>\<open>splitn(2, '.')\<close>: the part before the first dot, and the rest when there is a dot.\<close>

definition splitn2 :: "char \<Rightarrow> string \<Rightarrow> string \<times> string option" where
  "splitn2 sep s =
     (takeWhile (\<lambda>c. c \<noteq> sep) s,
      case dropWhile (\<lambda>c. c \<noteq> sep) s of [] \<Rightarrow> None | _ # rest \<Rightarrow> Some rest)"

definition parse_append_vec_name :: "string \<Rightarrow> (u64 \<times> u64) option" where
  "parse_append_vec_name name =
     (if \<not> utf8_valid (string_bytes name) then None
      else case splitn2 CHR ''.'' name of (first, second) \<Rightarrow>
        (case (parse_u64 first, parse_u64 (case second of Some t \<Rightarrow> t | None \<Rightarrow> '''')) of
           (Some slot, Some ident) \<Rightarrow> Some (slot, ident)
         | _ \<Rightarrow> None))"

text \<open>\<^verbatim>\<open>Path::components\<close> and \<^verbatim>\<open>Path::file_name\<close> on Unix.\<close>

datatype path_component = RootDir | CurDir | ParentDir | Normal string

fun split_slash :: "string \<Rightarrow> string list" where
  "split_slash [] = [[]]"
| "split_slash (c # cs) =
     (if c = CHR ''/'' then [] # split_slash cs
      else case split_slash cs of p # ps \<Rightarrow> (c # p) # ps | [] \<Rightarrow> [[c]])"

definition components :: "string \<Rightarrow> path_component list" where
  "components path =
     (let parts = split_slash path; absolute = (take 1 path = ''/'');
          body = map (\<lambda>p. if p = ''..'' then ParentDir else Normal p)
                     (filter (\<lambda>p. p \<noteq> '''' \<and> p \<noteq> ''.'') parts)
      in (if absolute then [RootDir] else if hd parts = ''.'' then [CurDir] else []) @ body)"

definition file_name :: "string \<Rightarrow> string option" where
  "file_name path =
     (case components path of [] \<Rightarrow> None
      | cs \<Rightarrow> (case last cs of Normal n \<Rightarrow> Some n | _ \<Rightarrow> None))"

section \<open>The manifest\<close>

record storage_entry =
  se_id :: usize
  accounts_current_len :: usize

text \<open>
  Of the bank only the slot is used, of the accounts database only the map from slots to storage
  entries, here an association list (a \<^verbatim>\<open>HashMap\<close> has each key once).
\<close>

record decoders =
  decode_bank :: "u8 list \<Rightarrow> (u64 \<times> u8 list) option"
  decode_accounts_db :: "u8 list \<Rightarrow> ((u64 \<times> storage_entry list) list \<times> u8 list) option"

definition read_manifest ::
  "decoders \<Rightarrow> u8 list \<Rightarrow> snapshot_error + (u64 \<times> (u64 \<times> storage_entry list) list)" where
  "read_manifest dec bytes =
     (case decode_bank dec bytes of
        None \<Rightarrow> Inl BincodeError
      | Some (slot, rest) \<Rightarrow>
          (case decode_accounts_db dec rest of
             None \<Rightarrow> Inl BincodeError
           | Some (stores, _) \<Rightarrow> Inr (slot, stores)))"

definition known_vecs :: "(u64 \<times> storage_entry list) list \<Rightarrow> u64 \<Rightarrow> storage_entry list" where
  "known_vecs stores slot = (case map_of stores slot of Some v \<Rightarrow> v | None \<Rightarrow> [])"

definition known_vec :: "(u64 \<times> storage_entry list) list \<Rightarrow> u64 \<Rightarrow> u64 \<Rightarrow> storage_entry option" where
  "known_vec stores slot ident = find (\<lambda>e. se_id e = ident) (known_vecs stores slot)"

section \<open>The archive reader\<close>

record tar_entry =
  te_path :: "io_error + string"
  te_size :: u64
  te_reader :: reader

record archive_extractor =
  ax_snapshot_slot :: u64
  minimum_append_vec_slot :: "u64 option"
  ax_fields :: "(u64 \<times> storage_entry list) list"
  ax_entries :: "(io_error + tar_entry) list option"

definition is_snapshot_manifest_file :: "string \<Rightarrow> bool" where
  "is_snapshot_manifest_file path =
     (case components path of
        Normal d # Normal s1 # Normal s2 # rest \<Rightarrow>
          d = ''snapshots'' \<and> utf8_valid (string_bytes s1) \<and> parse_u64 s1 \<noteq> None \<and>
          rest = [] \<and> s1 = s2
      | _ \<Rightarrow> False)"

definition is_appendvec_file :: "string \<Rightarrow> bool" where
  "is_appendvec_file path =
     (case components path of
        Normal d # Normal name # rest \<Rightarrow>
          d = ''accounts'' \<and> rest = [] \<and> parse_append_vec_name name \<noteq> None
      | _ \<Rightarrow> False)"

text \<open>The search for the manifest: it stops at the manifest, at an error and at an AppendVec.\<close>

fun find_manifest ::
  "(io_error + tar_entry) list \<Rightarrow> snapshot_error + (tar_entry \<times> (io_error + tar_entry) list)" where
  "find_manifest [] = Inl NoSnapshotManifest"
| "find_manifest (Inl e # es) = Inl (IOError e)"
| "find_manifest (Inr entry # es) =
     (case te_path entry of
        Inl e \<Rightarrow> Inl (IOError e)
      | Inr path \<Rightarrow>
          if is_snapshot_manifest_file path then Inr (entry, es)
          else if is_appendvec_file path then Inl UnexpectedAppendVec
          else find_manifest es)"

text \<open>
  The source is what opening the zstd stream and then the tar archive gives.  A manifest entry whose
  reader fails before the decoders are satisfied is the decoders' failure.
\<close>

definition from_reader ::
  "decoders \<Rightarrow> io_error + (io_error + tar_entry) list \<Rightarrow> snapshot_error + archive_extractor" where
  "from_reader dec source =
     try_bind (io_result source) (\<lambda>entries.
     try_bind (find_manifest entries) (\<lambda>(manifest, rest).
     try_bind (read_manifest dec (rd_bytes (te_reader manifest))) (\<lambda>(slot, stores).
       Inr \<lparr>ax_snapshot_slot = slot, minimum_append_vec_slot = None, ax_fields = stores,
            ax_entries = Some rest\<rparr>)))"

definition with_minimum_append_vec_slot :: "u64 \<Rightarrow> archive_extractor \<Rightarrow> archive_extractor" where
  "with_minimum_append_vec_slot slot ax = ax\<lparr>minimum_append_vec_slot := Some slot\<rparr>"

definition should_process_append_vec_slot :: "u64 option \<Rightarrow> u64 \<Rightarrow> bool" where
  "should_process_append_vec_slot m slot = (case m of None \<Rightarrow> True | Some minimum \<Rightarrow> minimum < slot)"

definition archive_append_vec_count_hint :: "archive_extractor \<Rightarrow> u64 option" where
  "archive_append_vec_count_hint ax =
     Some (sum_list (map (\<lambda>(_, entries). word_of_nat (length entries))
       (filter (\<lambda>(slot, _). should_process_append_vec_slot (minimum_append_vec_slot ax) slot)
          (ax_fields ax))))"

text \<open>\<open>map_ok\<close> says for which lengths the anonymous map of \<^verbatim>\<open>new_from_reader\<close> succeeds.\<close>

definition process_entry ::
  "(usize \<Rightarrow> bool) \<Rightarrow> archive_extractor \<Rightarrow> tar_entry \<Rightarrow> u64 \<Rightarrow> u64 \<Rightarrow> snapshot_error + append_vec" where
  "process_entry map_ok ax entry slot ident =
     (case known_vec (ax_fields ax) slot ident of
        None \<Rightarrow> Inl UnexpectedAppendVec
      | Some kv \<Rightarrow>
          try_bind (io_result (te_path entry)) (\<lambda>_.
            io_result (new_from_reader (te_reader entry) (map_ok (accounts_current_len kv))
              (accounts_current_len kv) slot ident)))"

text \<open>One \<^verbatim>\<open>next\<close> of the archive iterator: the item and the entries left.\<close>

fun archive_next ::
  "(usize \<Rightarrow> bool) \<Rightarrow> archive_extractor \<Rightarrow> (io_error + tar_entry) list \<Rightarrow>
    (snapshot_error + append_vec) option \<times> (io_error + tar_entry) list" where
  "archive_next map_ok ax [] = (None, [])"
| "archive_next map_ok ax (Inl e # es) = (Some (Inl (IOError e)), es)"
| "archive_next map_ok ax (Inr entry # es) =
     (case te_path entry of
        Inl e \<Rightarrow> (Some (Inl (IOError e)), es)
      | Inr path \<Rightarrow>
          (case Option.bind (file_name path) parse_append_vec_name of
             None \<Rightarrow> archive_next map_ok ax es
           | Some (slot, ident) \<Rightarrow>
               if \<not> should_process_append_vec_slot (minimum_append_vec_slot ax) slot
               then archive_next map_ok ax es
               else (Some (process_entry map_ok ax entry slot ident), es)))"

lemma archive_next_shorter:
  "archive_next map_ok ax es = (Some r, es') \<Longrightarrow> length es' < length es"
proof (induction es)
  case (Cons x es)
  then show ?case
    by (cases x) (auto split: sum.splits option.splits if_splits prod.splits)
qed simp

function archive_collect ::
  "(usize \<Rightarrow> bool) \<Rightarrow> archive_extractor \<Rightarrow> (io_error + tar_entry) list \<Rightarrow>
    (snapshot_error + append_vec) list" where
  "archive_collect map_ok ax es =
     (case archive_next map_ok ax es of
        (None, _) \<Rightarrow> []
      | (Some r, es') \<Rightarrow> r # archive_collect map_ok ax es')"
  by auto
termination
  by (relation "measure (\<lambda>(map_ok, ax, es). length es)") (auto dest: archive_next_shorter [OF sym])

declare archive_collect.simps [simp del]

text \<open>The iterator takes the entries, so a second iteration yields nothing.\<close>

definition unboxed_iter ::
  "(usize \<Rightarrow> bool) \<Rightarrow> archive_extractor \<Rightarrow> (snapshot_error + append_vec) list \<times> archive_extractor" where
  "unboxed_iter map_ok ax =
     (archive_collect map_ok ax (case ax_entries ax of Some es \<Rightarrow> es | None \<Rightarrow> []),
      ax\<lparr>ax_entries := None\<rparr>)"

section \<open>The unpacked reader\<close>

text \<open>
  \<open>sd_snapshots\<close> and \<open>sd_accounts\<close> are the directory listings, \<open>sd_manifest slot\<close> is the file
  \<^verbatim>\<open>snapshots/slot/slot\<close> if it is a file, with its bytes if it opens, and \<open>sd_file name\<close> is the
  file \<^verbatim>\<open>accounts/name\<close>.
\<close>

record snapshot_dir =
  sd_status_cache :: bool
  sd_snapshots :: "io_error + (io_error + string) list"
  sd_manifest :: "u64 \<Rightarrow> (io_error + u8 list) option"
  sd_accounts :: "io_error + (io_error + string) list"
  sd_metadata :: "string \<Rightarrow> io_error + u64"
  sd_file :: "string \<Rightarrow> u8 list option"

record unpacked_extractor =
  ux_snapshot_slot :: u64
  ux_fields :: "(u64 \<times> storage_entry list) list"

text \<open>\<open>filter_map(|e| e.ok())\<close> and \<open>filter_map\<close> of the standard library.\<close>

definition oks :: "('e + 'a) list \<Rightarrow> 'a list" where
  "oks xs = List.map_filter (\<lambda>x. case x of Inr y \<Rightarrow> Some y | Inl _ \<Rightarrow> None) xs"

definition unpacked_open :: "decoders \<Rightarrow> snapshot_dir \<Rightarrow> snapshot_error + unpacked_extractor" where
  "unpacked_open dec d =
     (if \<not> sd_status_cache d then Inl NoStatusCache
      else try_bind (io_result (sd_snapshots d)) (\<lambda>entries.
        case List.map_filter parse_u64 (oks entries) of
          [] \<Rightarrow> Inl NoSnapshotManifest
        | s # ss \<Rightarrow>
            (case sd_manifest d (fold max ss s) of
               None \<Rightarrow> Inl NoSnapshotManifest
             | Some file \<Rightarrow>
                 try_bind (io_result file) (\<lambda>bytes.
                 try_bind (read_manifest dec bytes) (\<lambda>(slot, stores).
                   Inr \<lparr>ux_snapshot_slot = slot, ux_fields = stores\<rparr>)))))"

definition open_append_vec ::
  "bool \<Rightarrow> snapshot_dir \<Rightarrow> unpacked_extractor \<Rightarrow> u64 \<Rightarrow> u64 \<Rightarrow> string \<Rightarrow> snapshot_error + append_vec" where
  "open_append_vec map_ok d ux slot ident name =
     (case known_vec (ux_fields ux) slot ident of
        None \<Rightarrow> Inl (IOError InvalidData)
      | Some kv \<Rightarrow>
          try_bind (io_result (sd_metadata d name)) (\<lambda>_.
            io_result (new_from_file (sd_file d name) map_ok (accounts_current_len kv) slot ident)))"

definition iter_streams ::
  "bool \<Rightarrow> snapshot_dir \<Rightarrow> unpacked_extractor \<Rightarrow> snapshot_error + (snapshot_error + append_vec) list" where
  "iter_streams map_ok d ux =
     try_bind (io_result (sd_accounts d)) (\<lambda>entries.
       let parsed_files = List.map_filter (\<lambda>name.
             map_option (\<lambda>(slot, version). (slot, version, name)) (parse_append_vec_name name))
             (oks entries)
       in Inr (map (\<lambda>(slot, version, name). open_append_vec map_ok d ux slot version name) parsed_files))"

definition unpacked_iter ::
  "bool \<Rightarrow> snapshot_dir \<Rightarrow> unpacked_extractor \<Rightarrow> (snapshot_error + append_vec) list" where
  "unpacked_iter map_ok d ux =
     (case iter_streams map_ok d ux of Inl e \<Rightarrow> [Inl e] | Inr items \<Rightarrow> items)"

definition unpacked_append_vec_count_hint :: "snapshot_dir \<Rightarrow> u64 option" where
  "unpacked_append_vec_count_hint d =
     (case sd_accounts d of
        Inl _ \<Rightarrow> None
      | Inr entries \<Rightarrow>
          Some (word_of_nat (length (filter (\<lambda>name. parse_append_vec_name name \<noteq> None) (oks entries)))))"

section \<open>Either reader\<close>

text \<open>
  \<^verbatim>\<open>SupportedLoader\<close> of \<^verbatim>\<open>main.rs\<close>.  What lies at a path is a directory or a file with its archive
  stream.  The unpacked reader keeps the directory it reads from.
\<close>

datatype source_path = SourceDir snapshot_dir | SourceFile "io_error + (io_error + tar_entry) list"

datatype supported_loader = Unpacked snapshot_dir unpacked_extractor | ArchiveFile archive_extractor

definition loader_new_file :: "decoders \<Rightarrow> source_path \<Rightarrow> snapshot_error + supported_loader" where
  "loader_new_file dec src =
     (case src of
        SourceDir d \<Rightarrow> try_bind (unpacked_open dec d) (\<lambda>ux. Inr (Unpacked d ux))
      | SourceFile f \<Rightarrow> try_bind (from_reader dec f) (\<lambda>ax. Inr (ArchiveFile ax)))"

definition loader_new_incremental_snapshot ::
  "decoders \<Rightarrow> io_error + (io_error + tar_entry) list \<Rightarrow> u64 \<Rightarrow> snapshot_error + supported_loader" where
  "loader_new_incremental_snapshot dec f last_processed_slot =
     try_bind (from_reader dec f) (\<lambda>ax.
       Inr (ArchiveFile (with_minimum_append_vec_slot last_processed_slot ax)))"

definition loader_new_full_snapshot ::
  "decoders \<Rightarrow> io_error + (io_error + tar_entry) list \<Rightarrow> u64 \<Rightarrow> snapshot_error + supported_loader" where
  "loader_new_full_snapshot dec f last_processed_slot =
     try_bind (from_reader dec f) (\<lambda>ax.
       Inr (ArchiveFile (with_minimum_append_vec_slot last_processed_slot ax)))"

definition loader_iter ::
  "(usize \<Rightarrow> bool) \<Rightarrow> bool \<Rightarrow> supported_loader \<Rightarrow> (snapshot_error + append_vec) list \<times> supported_loader" where
  "loader_iter map_ok file_map_ok l =
     (case l of
        Unpacked d ux \<Rightarrow> (unpacked_iter file_map_ok d ux, l)
      | ArchiveFile ax \<Rightarrow> (case unboxed_iter map_ok ax of (items, ax') \<Rightarrow> (items, ArchiveFile ax')))"

fun loader_snapshot_slot :: "supported_loader \<Rightarrow> u64" where
  "loader_snapshot_slot (Unpacked d ux) = ux_snapshot_slot ux"
| "loader_snapshot_slot (ArchiveFile ax) = ax_snapshot_slot ax"

fun loader_append_vec_count_hint :: "supported_loader \<Rightarrow> u64 option" where
  "loader_append_vec_count_hint (Unpacked d ux) = unpacked_append_vec_count_hint d"
| "loader_append_vec_count_hint (ArchiveFile ax) = archive_append_vec_count_hint ax"

section \<open>Names\<close>

lemma utf8_valid_ascii: "\<forall>b \<in> set bs. b < 0x80 \<Longrightarrow> utf8_valid bs"
  by (induction bs) auto

lemma string_bytes_digits:
  assumes "set s \<subseteq> digit_char ` {..<10} \<union> {CHR ''.''}"
  shows "\<forall>b \<in> set (string_bytes s). b < 0x80"
proof -
  have "word_of_nat (of_char c) < (0x80 :: u8)" if c: "c \<in> digit_char ` {..<10} \<union> {CHR ''.''}" for c
  proof (cases "c = CHR ''.''")
    case False
    then obtain d where d: "c = digit_char d" "d < 10" using c by blast
    then have "of_char c = 48 + d" by (simp add: digit_char_def)
    moreover have "unat (word_of_nat (48 + d) :: u8) = 48 + d"
      using d by (simp add: unat_of_nat take_bit_nat_eq_self_iff del: of_nat_add)
    ultimately show ?thesis using d by (simp add: word_less_nat_alt del: of_nat_add)
  qed simp
  note small = this
  show ?thesis
  proof
    fix b assume "b \<in> set (string_bytes s)"
    then obtain c where c: "c \<in> set s" "b = word_of_nat (of_char c)"
      unfolding string_bytes_def set_map by blast
    then show "b < 0x80" using small [of c] assms by blast
  qed
qed

definition append_vec_file_name :: "u64 \<Rightarrow> u64 \<Rightarrow> string" where
  "append_vec_file_name slot ident = display_nat (unat slot) @ ''.'' @ display_nat (unat ident)"

lemma digits_no_dot: "c \<in> set (display_nat n) \<Longrightarrow> c \<noteq> CHR ''.''" "c \<in> set (display_nat n) \<Longrightarrow> c \<noteq> CHR ''/''"
  using set_display_nat [of n] by auto

lemma splitn2_name: "splitn2 CHR ''.'' (display_nat n @ ''.'' @ t) = (display_nat n, Some t)"
proof -
  have "takeWhile (\<lambda>c. c \<noteq> CHR ''.'') (xs @ CHR ''.'' # t) = xs"
    "dropWhile (\<lambda>c. c \<noteq> CHR ''.'') (xs @ CHR ''.'' # t) = CHR ''.'' # t"
    if "\<forall>c \<in> set xs. c \<noteq> CHR ''.''" for xs
    using that by (induction xs) auto
  from this [of "display_nat n"] digits_no_dot(1) show ?thesis by (auto simp: splitn2_def)
qed

lemma parse_append_vec_file_name [simp]:
  "parse_append_vec_name (append_vec_file_name slot ident) = Some (slot, ident)"
proof -
  have "set (append_vec_file_name slot ident) \<subseteq> digit_char ` {..<10} \<union> {CHR ''.''}"
    using set_display_nat [of "unat slot"] set_display_nat [of "unat ident"]
    by (auto simp: append_vec_file_name_def)
  then have "utf8_valid (string_bytes (append_vec_file_name slot ident))"
    by (intro utf8_valid_ascii string_bytes_digits)
  then show ?thesis
    using splitn2_name [of "unat slot" "display_nat (unat ident)"]
    by (simp add: parse_append_vec_name_def append_vec_file_name_def)
qed

lemma split_slash_no_slash: "CHR ''/'' \<notin> set s \<Longrightarrow> split_slash s = [s]"
  by (induction s) auto

lemma split_slash_append:
  "CHR ''/'' \<notin> set s \<Longrightarrow> split_slash (s @ CHR ''/'' # t) = s # split_slash t"
  by (induction s) auto

lemma components_two:
  assumes "CHR ''/'' \<notin> set s" "CHR ''/'' \<notin> set t" "s \<notin> {'''', ''.'', ''..''}" "t \<notin> {'''', ''.'', ''..''}"
  shows "components (s @ CHR ''/'' # t) = [Normal s, Normal t]"
proof -
  have "take 1 (s @ CHR ''/'' # t) \<noteq> ''/''" using assms(1,3) by (cases s) auto
  then show ?thesis
    using assms by (simp add: components_def Let_def split_slash_append split_slash_no_slash)
qed

lemma append_vec_file_name_normal:
  "CHR ''/'' \<notin> set (append_vec_file_name slot ident)"
  "append_vec_file_name slot ident \<notin> {'''', ''.'', ''..''}"
proof -
  show "CHR ''/'' \<notin> set (append_vec_file_name slot ident)"
    using digits_no_dot by (auto simp: append_vec_file_name_def)
  obtain c cs where c: "display_nat (unat slot) = c # cs" by (cases "display_nat (unat slot)") auto
  then have "c \<noteq> CHR ''.''" using digits_no_dot(1) [of c "unat slot"] by simp
  with c show "append_vec_file_name slot ident \<notin> {'''', ''.'', ''..''}"
    by (auto simp: append_vec_file_name_def)
qed

definition append_vec_path :: "u64 \<Rightarrow> u64 \<Rightarrow> string" where
  "append_vec_path slot ident = ''accounts/'' @ append_vec_file_name slot ident"

lemma components_append_vec_path:
  "components (append_vec_path slot ident) = [Normal ''accounts'', Normal (append_vec_file_name slot ident)]"
  using components_two [of "''accounts''" "append_vec_file_name slot ident"] append_vec_file_name_normal
  by (simp add: append_vec_path_def)

lemma file_name_append_vec_path [simp]:
  "file_name (append_vec_path slot ident) = Some (append_vec_file_name slot ident)"
  by (simp add: file_name_def components_append_vec_path)

lemma is_appendvec_append_vec_path: "is_appendvec_file (append_vec_path slot ident)"
  by (simp add: is_appendvec_file_def components_append_vec_path)

section \<open>Iteration\<close>

text \<open>What one archive entry contributes to the iteration, independently of the others.\<close>

definition archive_item ::
  "(usize \<Rightarrow> bool) \<Rightarrow> archive_extractor \<Rightarrow> io_error + tar_entry \<Rightarrow> (snapshot_error + append_vec) option" where
  "archive_item map_ok ax r =
     (case r of
        Inl e \<Rightarrow> Some (Inl (IOError e))
      | Inr entry \<Rightarrow>
          (case te_path entry of
             Inl e \<Rightarrow> Some (Inl (IOError e))
           | Inr path \<Rightarrow>
               (case Option.bind (file_name path) parse_append_vec_name of
                  None \<Rightarrow> None
                | Some (slot, ident) \<Rightarrow>
                    if should_process_append_vec_slot (minimum_append_vec_slot ax) slot
                    then Some (process_entry map_ok ax entry slot ident) else None)))"

lemma archive_next_item:
  "archive_next map_ok ax (r # es) =
     (case archive_item map_ok ax r of None \<Rightarrow> archive_next map_ok ax es | Some x \<Rightarrow> (Some x, es))"
  by (cases r) (auto simp: archive_item_def split: sum.splits option.splits)

lemma archive_collect_items:
  "archive_collect map_ok ax es = List.map_filter (archive_item map_ok ax) es"
proof (induction es)
  case Nil
  show ?case by (subst archive_collect.simps) simp
next
  case (Cons r es)
  show ?case
  proof (cases "archive_item map_ok ax r")
    case None
    then have "archive_next map_ok ax (r # es) = archive_next map_ok ax es"
      by (simp add: archive_next_item)
    then have "archive_collect map_ok ax (r # es) = archive_collect map_ok ax es"
      by (simp add: archive_collect.simps [of map_ok ax "r # es"] archive_collect.simps [of map_ok ax es])
    with Cons None show ?thesis by simp
  next
    case (Some x)
    then show ?thesis
      by (subst archive_collect.simps) (simp add: archive_next_item Cons.IH)
  qed
qed

lemma map_filter_filter_eq:
  assumes "\<And>x. x \<in> set xs \<Longrightarrow> f x = (if p x then g x else None)"
  shows "List.map_filter f xs = List.map_filter g (filter p xs)"
  using assms by (induction xs) (auto split: option.split)

lemma length_map_filter_all:
  "\<forall>x \<in> set xs. f x \<noteq> None \<Longrightarrow> length (List.map_filter f xs) = length xs"
  by (induction xs) auto

text \<open>Whether the slot watermark makes the iterator pass over an entry.\<close>

definition below_watermark :: "u64 \<Rightarrow> io_error + tar_entry \<Rightarrow> bool" where
  "below_watermark m r =
     (case r of
        Inr entry \<Rightarrow>
          (case te_path entry of
             Inr path \<Rightarrow>
               (case Option.bind (file_name path) parse_append_vec_name of
                  Some (slot, ident) \<Rightarrow> slot \<le> m | None \<Rightarrow> False)
           | Inl _ \<Rightarrow> False)
      | Inl _ \<Rightarrow> False)"

lemma archive_item_watermark:
  "archive_item map_ok (with_minimum_append_vec_slot m ax) r =
     (if below_watermark m r then None
      else archive_item map_ok (ax\<lparr>minimum_append_vec_slot := None\<rparr>) r)"
  by (auto simp: archive_item_def below_watermark_def with_minimum_append_vec_slot_def
      should_process_append_vec_slot_def process_entry_def split: sum.splits option.splits)

lemma archive_item_cong:
  "minimum_append_vec_slot ax = minimum_append_vec_slot ax' \<Longrightarrow> ax_fields ax = ax_fields ax' \<Longrightarrow>
   archive_item map_ok ax = archive_item map_ok ax'"
  by (rule ext) (auto simp: archive_item_def process_entry_def split: sum.split option.split)

lemma archive_item_Inr:
  assumes "archive_item map_ok ax r = Some (Inr av)"
  shows "should_process_append_vec_slot (minimum_append_vec_slot ax) (av_slot av) \<and>
    (\<exists>kv. known_vec (ax_fields ax) (av_slot av) (av_id av) = Some kv \<and>
      av_current_len av = accounts_current_len kv \<and> length (av_map av) = unat (accounts_current_len kv))"
proof -
  obtain entry path where r: "r = Inr entry" "te_path entry = Inr path"
    using assms by (auto simp: archive_item_def split: sum.splits)
  then obtain slot ident where n: "Option.bind (file_name path) parse_append_vec_name = Some (slot, ident)"
    "should_process_append_vec_slot (minimum_append_vec_slot ax) slot"
    "process_entry map_ok ax entry slot ident = Inr av"
    using assms by (auto simp: archive_item_def split: option.splits if_splits)
  then obtain kv where kv: "known_vec (ax_fields ax) slot ident = Some kv"
    "new_from_reader (te_reader entry) (map_ok (accounts_current_len kv)) (accounts_current_len kv)
       slot ident = Inr av"
    by (auto simp: process_entry_def io_result_def try_bind_eq_Inr_iff split: option.splits sum.splits)
  then have "av_slot av = slot" "av_id av = ident" "av_current_len av = accounts_current_len kv"
    "length (av_map av) = unat (accounts_current_len kv)"
    by (auto simp: new_from_reader_def Let_def split: if_splits)
  with n kv show ?thesis by simp
qed

section \<open>Properties\<close>

text \<open>C30: The slot watermark is a filter on the archive: with a minimum slot the iterator yields what
  it would yield without one on the archive from which the AppendVecs at or below that slot are
  removed; every AppendVec it yields lies above the watermark, is listed in the manifest and has the
  length the manifest gives.\<close>

theorem archive_watermark:
  assumes "ax_entries ax = Some es"
  shows "fst (unboxed_iter map_ok (with_minimum_append_vec_slot m ax)) =
      fst (unboxed_iter map_ok (ax\<lparr>minimum_append_vec_slot := None,
        ax_entries := Some (filter (\<lambda>r. \<not> below_watermark m r) es)\<rparr>)) \<and>
    (\<forall>av. Inr av \<in> set (fst (unboxed_iter map_ok (with_minimum_append_vec_slot m ax))) \<longrightarrow>
      m < av_slot av \<and> (\<exists>kv. known_vec (ax_fields ax) (av_slot av) (av_id av) = Some kv \<and>
        av_current_len av = accounts_current_len kv))"
proof
  let ?none = "ax\<lparr>minimum_append_vec_slot := None\<rparr>"
  have "archive_item map_ok (ax\<lparr>minimum_append_vec_slot := None, ax_entries := e\<rparr>) =
    archive_item map_ok ?none" for e
    by (rule archive_item_cong) simp_all
  moreover have "ax_entries (with_minimum_append_vec_slot m ax) = Some es"
    using assms by (simp add: with_minimum_append_vec_slot_def)
  ultimately show "fst (unboxed_iter map_ok (with_minimum_append_vec_slot m ax)) =
    fst (unboxed_iter map_ok (ax\<lparr>minimum_append_vec_slot := None,
      ax_entries := Some (filter (\<lambda>r. \<not> below_watermark m r) es)\<rparr>))"
    by (simp add: unboxed_iter_def archive_collect_items)
      (rule map_filter_filter_eq, simp add: archive_item_watermark)
  show "\<forall>av. Inr av \<in> set (fst (unboxed_iter map_ok (with_minimum_append_vec_slot m ax))) \<longrightarrow>
      m < av_slot av \<and> (\<exists>kv. known_vec (ax_fields ax) (av_slot av) (av_id av) = Some kv \<and>
        av_current_len av = accounts_current_len kv)"
    using archive_item_Inr [of map_ok "with_minimum_append_vec_slot m ax"]
    by (fastforce simp: unboxed_iter_def archive_collect_items map_filter_def
        should_process_append_vec_slot_def with_minimum_append_vec_slot_def)
qed

text \<open>File names: the name under which an AppendVec is stored parses back to its slot and its
  id, in the directory listing as well as at the end of its archive path, which is recognised as an
  AppendVec path and never as the manifest.\<close>

theorem append_vec_name_roundtrip:
  "parse_append_vec_name (append_vec_file_name slot ident) = Some (slot, ident) \<and>
   Option.bind (file_name (append_vec_path slot ident)) parse_append_vec_name = Some (slot, ident) \<and>
   is_appendvec_file (append_vec_path slot ident) \<and>
   \<not> is_snapshot_manifest_file (append_vec_path slot ident)"
  using is_appendvec_append_vec_path
  by (simp add: is_snapshot_manifest_file_def components_append_vec_path)

text \<open>
  A snapshot whose files are \<open>files\<close>, given as slot, id and bytes, both as the entries of an archive
  behind the manifest and as an unpacked directory.
\<close>

definition archive_of :: "(u64 \<times> u64 \<times> u8 list) list \<Rightarrow> (io_error + tar_entry) list" where
  "archive_of files = map (\<lambda>(slot, ident, bytes). Inr \<lparr>te_path = Inr (append_vec_path slot ident),
     te_size = word_of_nat (length bytes), te_reader = \<lparr>rd_bytes = bytes, rd_fails = False\<rparr>\<rparr>) files"

definition dir_of :: "(u64 \<times> u64 \<times> u8 list) list \<Rightarrow> snapshot_dir \<Rightarrow> snapshot_dir" where
  "dir_of files d = d\<lparr>
     sd_accounts := Inr (map (\<lambda>(slot, ident, _). Inr (append_vec_file_name slot ident)) files),
     sd_metadata := (\<lambda>name. case map_of (map (\<lambda>(slot, ident, bytes).
       (append_vec_file_name slot ident, word_of_nat (length bytes))) files) name of
         Some l \<Rightarrow> Inr l | None \<Rightarrow> Inl NotFound),
     sd_file := map_of (map (\<lambda>(slot, ident, bytes). (append_vec_file_name slot ident, bytes)) files)\<rparr>"

text \<open>The files fit the manifest: each is listed, long enough and of an admissible size.\<close>

definition fits :: "(u64 \<times> storage_entry list) list \<Rightarrow> (u64 \<times> u64 \<times> u8 list) list \<Rightarrow> bool" where
  "fits stores files \<longleftrightarrow> (\<forall>(slot, ident, bytes) \<in> set files.
     (case known_vec stores slot ident of None \<Rightarrow> False
      | Some kv \<Rightarrow> unat (accounts_current_len kv) \<le> length bytes) \<and>
     0 < length bytes \<and> length bytes \<le> 16 * 1024 * 1024 * 1024)"

lemma fitsD:
  assumes "fits stores files" "(slot, ident, bytes) \<in> set files"
  obtains kv where "known_vec stores slot ident = Some kv" "unat (accounts_current_len kv) \<le> length bytes"
    "0 < length bytes" "length bytes \<le> 16 * 1024 * 1024 * 1024"
  using assms by (fastforce simp: fits_def split: option.splits)

text \<open>The accounts of an AppendVec depend on its used bytes only.\<close>

lemma account_at_take:
  "account_at bytes len n = account_at (take len bytes) len n"
proof (cases "n + 136 \<le> len")
  case True
  have s: "subrange i j (take len bytes) = subrange i j bytes" if "j \<le> len" for i j
    using that by (simp add: subrange_def drop_take min_def)
  show ?thesis using True by (simp add: account_at_def Let_def s)
qed (simp add: account_at_def)

lemma accounts_spec_take:
  "accounts_spec bytes len n = accounts_spec (take len bytes) len n"
proof (induction bytes len n rule: accounts_spec.induct)
  case (1 bytes len n)
  then show ?case
    by (simp add: accounts_spec.simps [of bytes] accounts_spec.simps [of "take len bytes"]
        account_at_take [of bytes] split: option.split)
qed

lemma append_vec_accounts_same_bytes:
  assumes "av_wf av" "av_wf av'" "av_current_len av = av_current_len av'"
    and "take (unat (av_current_len av)) (av_map av) = take (unat (av_current_len av)) (av_map av')"
  shows "append_vec_accounts av = append_vec_accounts av'"
  using assms accounts_spec_take [of "av_map av"] accounts_spec_take [of "av_map av'"]
  by (simp add: append_vec_accounts_total)

lemma readers_same_accounts:
  assumes "unat len \<le> length bytes" "0 < length bytes" "length bytes \<le> 16 * 1024 * 1024 * 1024"
  obtains av av' where "new_from_reader \<lparr>rd_bytes = bytes, rd_fails = False\<rparr> True len slot ident = Inr av"
    "new_from_file (Some bytes) True len slot ident = Inr av'"
    "append_vec_accounts av = append_vec_accounts av'" "av_slot av = slot" "av_id av = ident"
    "av_slot av' = slot" "av_id av' = ident"
proof -
  obtain av where av: "new_from_reader \<lparr>rd_bytes = bytes, rd_fails = False\<rparr> True len slot ident = Inr av"
    by (simp add: new_from_reader_def Let_def)
  then have f: "av_map av = take (unat len) bytes" "av_current_len av = len" "av_slot av = slot" "av_id av = ident"
    using assms by (auto simp: new_from_reader_def Let_def)
  have wf: "av_wf av" using f assms by (simp add: av_wf_def)
  obtain av' where av': "new_from_file (Some bytes) True len slot ident = Inr av'"
    "av_wf av'" "av_map av' = bytes" "av_current_len av' = len" "av_slot av' = slot" "av_id av' = ident"
    using new_from_file_wf [of "Some bytes" True len slot ident] assms
    by (auto simp: new_from_file_def Let_def sanitize_len_and_size_def MAXIMUM_APPEND_VEC_FILE_SIZE_def
        word_less_nat_alt unat_of_nat take_bit_nat_eq_self_iff word_unat_eq_iff)
  have "append_vec_accounts av = append_vec_accounts av'"
    using f av' assms by (intro append_vec_accounts_same_bytes wf) simp_all
  with av av' f that show thesis by blast
qed

definition vec_view :: "snapshot_error + append_vec \<Rightarrow>
    snapshot_error + (u64 \<times> u64 \<times> stored_account_meta list outcome option)" where
  "vec_view r = (case r of Inl e \<Rightarrow> Inl e
     | Inr av \<Rightarrow> Inr (av_slot av, av_id av, append_vec_accounts av))"

lemma map_filter_eq_map:
  "\<forall>x \<in> set xs. f x = Some (g x) \<Longrightarrow> List.map_filter f xs = map g xs"
  by (induction xs) auto

lemma oks_map_Inr [simp]: "oks (map (\<lambda>x. Inr (f x)) xs) = map f xs"
  by (induction xs) (auto simp: oks_def)

lemma append_vec_file_name_inject:
  "append_vec_file_name s i = append_vec_file_name s' i' \<longleftrightarrow> s = s' \<and> i = i'"
  by (metis parse_append_vec_file_name option.inject prod.inject)

lemma map_of_names:
  assumes "distinct (map (\<lambda>(s, i, b). (s, i)) files)" "(slot, ident, bytes) \<in> set files"
  shows "map_of (map (\<lambda>(s, i, b). (append_vec_file_name s i, f b)) files)
    (append_vec_file_name slot ident) = Some (f bytes)"
  using assms by (induction files) (force simp: append_vec_file_name_inject)+

lemma archive_item_file:
  assumes "fits (ax_fields ax) files" "(slot, ident, bytes) \<in> set files"
    "should_process_append_vec_slot (minimum_append_vec_slot ax) slot"
  shows "\<exists>av kv. archive_item (\<lambda>_. True) ax (Inr \<lparr>te_path = Inr (append_vec_path slot ident), te_size = sz,
      te_reader = \<lparr>rd_bytes = bytes, rd_fails = False\<rparr>\<rparr>) = Some (Inr av) \<and>
    known_vec (ax_fields ax) slot ident = Some kv \<and>
    new_from_reader \<lparr>rd_bytes = bytes, rd_fails = False\<rparr> True (accounts_current_len kv) slot ident = Inr av"
proof -
  obtain kv where "known_vec (ax_fields ax) slot ident = Some kv"
    using fitsD [OF assms(1,2)] by metis
  then show ?thesis
    using assms(3) by (simp add: archive_item_def process_entry_def io_result_def new_from_reader_def Let_def)
qed

text \<open>C13: The two readers agree: on the same AppendVec files, each listed in the manifest and long
  enough, the archive reader and the directory reader yield AppendVecs with the same slots, ids and
  accounts in the same order, and neither yields an error.\<close>

theorem readers_agree:
  assumes "fits stores files" and "distinct (map (\<lambda>(s, i, b). (s, i)) files)"
    and "ax_fields ax = stores" "minimum_append_vec_slot ax = None" "ax_entries ax = Some (archive_of files)"
    and "ux_fields ux = stores"
  shows "map vec_view (fst (unboxed_iter (\<lambda>_. True) ax)) =
      map vec_view (unpacked_iter True (dir_of files d) ux) \<and>
    map (\<lambda>r. case r of Inr (s, i, _) \<Rightarrow> Some (s, i) | Inl _ \<Rightarrow> None)
      (map vec_view (fst (unboxed_iter (\<lambda>_. True) ax))) = map (\<lambda>(s, i, _). Some (s, i)) files"
proof -
  let ?entry = "\<lambda>(slot, ident, bytes). Inr \<lparr>te_path = Inr (append_vec_path slot ident),
     te_size = word_of_nat (length bytes), te_reader = \<lparr>rd_bytes = bytes, rd_fails = False\<rparr>\<rparr>"
  let ?open = "\<lambda>(slot, ident, bytes :: u8 list). open_append_vec True (dir_of files d) ux slot ident
     (append_vec_file_name slot ident)"
  let ?item = "\<lambda>f. the (archive_item (\<lambda>_. True) ax (?entry f))"
  have each: "archive_item (\<lambda>_. True) ax (?entry f) = Some (?item f) \<and>
      vec_view (?item f) = vec_view (?open f) \<and>
      (\<exists>as. vec_view (?open f) = Inr (fst f, fst (snd f), as))" if mem: "f \<in> set files" for f
  proof -
    obtain slot ident bytes where f: "f = (slot, ident, bytes)" by (cases f)
    obtain kv where kv: "known_vec stores slot ident = Some kv" "unat (accounts_current_len kv) \<le> length bytes"
      "0 < length bytes" "length bytes \<le> 16 * 1024 * 1024 * 1024"
      by (rule fitsD [OF assms(1), of slot ident bytes]) (use mem f in auto)
    obtain av av' where av: "new_from_reader \<lparr>rd_bytes = bytes, rd_fails = False\<rparr> True
        (accounts_current_len kv) slot ident = Inr av"
      "new_from_file (Some bytes) True (accounts_current_len kv) slot ident = Inr av'"
      "append_vec_accounts av = append_vec_accounts av'" "av_slot av = slot" "av_id av = ident"
      "av_slot av' = slot" "av_id av' = ident"
      using readers_same_accounts [OF kv(2-4)] by metis
    have "archive_item (\<lambda>_. True) ax (?entry f) = Some (Inr av)"
      using archive_item_file [of ax files slot ident bytes] mem f assms(1,3,4) kv(1) av(1)
      by (force simp: should_process_append_vec_slot_def)
    moreover have "?open f = Inr av'"
      using map_of_names [OF assms(2) mem [unfolded f], of "\<lambda>b. b"]
        map_of_names [OF assms(2) mem [unfolded f], of "\<lambda>b. word_of_nat (length b) :: u64"] kv(1) assms(6) av(2)
      by (simp add: f open_append_vec_def dir_of_def io_result_def)
    ultimately show ?thesis using av by (simp add: vec_view_def f)
  qed
  have "List.map_filter (\<lambda>f. archive_item (\<lambda>_. True) ax (?entry f)) files = map ?item files"
    using each by (intro map_filter_eq_map) blast
  then have a: "fst (unboxed_iter (\<lambda>_. True) ax) = map ?item files"
    using assms(5) by (simp add: unboxed_iter_def archive_collect_items archive_of_def map_filter_def
        comp_def filter_map)
  have "List.map_filter (\<lambda>name. map_option (\<lambda>(slot, version). (slot, version, name)) (parse_append_vec_name name))
      (map (\<lambda>(slot, ident, _). append_vec_file_name slot ident) files) =
    map (\<lambda>(slot, ident, _). (slot, ident, append_vec_file_name slot ident)) files"
    by (induction files) auto
  moreover have "oks (map (\<lambda>(slot, ident, _). Inr (append_vec_file_name slot ident)) files) =
    map (\<lambda>(slot, ident, _). append_vec_file_name slot ident) files"
    by (induction files) (auto simp: oks_def)
  ultimately have u: "unpacked_iter True (dir_of files d) ux = map ?open files"
    by (simp add: unpacked_iter_def iter_streams_def dir_of_def io_result_def split_def)
  have "(case vec_view (?item f) of Inr (s, i, _) \<Rightarrow> Some (s, i) | Inl _ \<Rightarrow> None) =
    (case f of (s, i, _) \<Rightarrow> Some (s, i))" if "f \<in> set files" for f
    using each [OF that] by (auto split: prod.split)
  moreover have "map vec_view (map ?item files) = map vec_view (map ?open files)"
    using each by (simp only: map_map comp_def map_eq_conv) blast
  ultimately show ?thesis unfolding a u by (simp only: map_map comp_def map_eq_conv simp_thms) simp
qed

definition storage_pairs :: "(u64 \<times> storage_entry list) list \<Rightarrow> (u64 \<times> u64) list" where
  "storage_pairs stores = concat (map (\<lambda>(slot, es). map (\<lambda>e. (slot, se_id e)) es) stores)"

lemma filter_storage_pairs:
  "length (filter (\<lambda>(s, i). P s) (storage_pairs stores)) =
    sum_list (map (\<lambda>(s, es). length es) (filter (\<lambda>(s, es). P s) stores))"
  by (induction stores) (auto simp: storage_pairs_def filter_map comp_def split_def filter_empty_conv)

lemma sum_list_word_of_nat:
  "sum_list (map (\<lambda>x. word_of_nat (f x)) xs) = (word_of_nat (sum_list (map f xs)) :: u64)"
  by (induction xs) auto

text \<open>The progress total: when the archive holds exactly the AppendVecs its manifest lists, each
  once, the count hint is the number of items the iterator yields, whatever the watermark.\<close>

theorem count_hint_exact:
  assumes "mset (map (\<lambda>(s, i, b). (s, i)) files) = mset (storage_pairs (ax_fields ax))"
    and "fits (ax_fields ax) files" and "ax_entries ax = Some (archive_of files)"
  shows "archive_append_vec_count_hint ax =
    Some (word_of_nat (length (fst (unboxed_iter (\<lambda>_. True) ax))))"
proof -
  let ?P = "should_process_append_vec_slot (minimum_append_vec_slot ax)"
  let ?entry = "\<lambda>(slot, ident, bytes). Inr \<lparr>te_path = Inr (append_vec_path slot ident),
     te_size = word_of_nat (length bytes), te_reader = \<lparr>rd_bytes = bytes, rd_fails = False\<rparr>\<rparr>"
  have item: "archive_item (\<lambda>_. True) ax (?entry f) \<noteq> None \<longleftrightarrow> ?P (fst f)" if "f \<in> set files" for f
    using archive_item_file [OF assms(2), of "fst f" "fst (snd f)" "snd (snd f)"] that
    by (cases "?P (fst f)") (force simp: split_def archive_item_def)+
  have "length (List.map_filter (\<lambda>f. archive_item (\<lambda>_. True) ax (?entry f)) files) =
    length (filter (\<lambda>f. ?P (fst f)) files)"
    using item by (simp add: map_filter_def cong: filter_cong)
  also have "\<dots> = length (filter (\<lambda>(s, i). ?P s) (map (\<lambda>(s, i, b). (s, i)) files))"
    by (simp add: filter_map comp_def split_def)
  also have "\<dots> = length (filter (\<lambda>(s, i). ?P s) (storage_pairs (ax_fields ax)))"
    by (metis (no_types, lifting) assms(1) mset_filter size_mset)
  finally have "length (fst (unboxed_iter (\<lambda>_. True) ax)) =
    sum_list (map (\<lambda>(s, es). length es) (filter (\<lambda>(s, es). ?P s) (ax_fields ax)))"
    using assms(3) by (simp add: unboxed_iter_def archive_collect_items archive_of_def map_filter_def
        comp_def filter_map filter_storage_pairs)
  then show ?thesis
    by (simp add: archive_append_vec_count_hint_def split_def sum_list_word_of_nat)
qed

definition sample_stores :: "(u64 \<times> storage_entry list) list" where
  "sample_stores = [(5, [\<lparr>se_id = 1, accounts_current_len = 2\<rparr>]),
     (9, [\<lparr>se_id = 2, accounts_current_len = 0\<rparr>, \<lparr>se_id = 3, accounts_current_len = 1\<rparr>])]"

definition sample_files :: "(u64 \<times> u64 \<times> u8 list) list" where
  "sample_files = [(9, 2, [1]), (5, 1, [1, 2, 3]), (9, 3, [4])]"

definition sample_extractor :: archive_extractor where
  "sample_extractor = \<lparr>ax_snapshot_slot = 9, minimum_append_vec_slot = None,
     ax_fields = sample_stores, ax_entries = Some (archive_of sample_files)\<rparr>"

lemma fits_sample: "fits sample_stores sample_files"
  by (simp add: fits_def sample_stores_def sample_files_def known_vec_def known_vecs_def)

lemma archive_watermark_witness:
  "fst (unboxed_iter (\<lambda>_. True) (with_minimum_append_vec_slot 5 sample_extractor)) =
    fst (unboxed_iter (\<lambda>_. True) (sample_extractor\<lparr>minimum_append_vec_slot := None, ax_entries :=
      Some (filter (\<lambda>r. \<not> below_watermark 5 r) (archive_of sample_files))\<rparr>))"
  using archive_watermark [of sample_extractor "archive_of sample_files" "\<lambda>_. True" 5]
  by (simp add: sample_extractor_def)

lemma readers_agree_witness:
  "map vec_view (fst (unboxed_iter (\<lambda>_. True) sample_extractor)) =
    map vec_view (unpacked_iter True
      (dir_of sample_files \<lparr>sd_status_cache = True, sd_snapshots = Inr [], sd_manifest = (\<lambda>_. None),
        sd_accounts = Inr [], sd_metadata = (\<lambda>_. Inl NotFound), sd_file = (\<lambda>_. None)\<rparr>)
      \<lparr>ux_snapshot_slot = 9, ux_fields = sample_stores\<rparr>)"
proof -
  have "distinct (map (\<lambda>(s, i, b). (s, i)) sample_files)" by (simp add: sample_files_def)
  then show ?thesis
    using readers_agree [OF fits_sample, of sample_extractor "\<lparr>ux_snapshot_slot = 9, ux_fields = sample_stores\<rparr>"]
    by (simp add: sample_extractor_def)
qed

lemma count_hint_exact_witness:
  "archive_append_vec_count_hint sample_extractor =
    Some (word_of_nat (length (fst (unboxed_iter (\<lambda>_. True) sample_extractor))))"
proof (rule count_hint_exact)
  show "mset (map (\<lambda>(s, i, b). (s, i)) sample_files) = mset (storage_pairs (ax_fields sample_extractor))"
    by (simp add: sample_files_def sample_extractor_def sample_stores_def storage_pairs_def)
qed (use fits_sample in \<open>simp_all add: sample_extractor_def\<close>)

end
