(* ===== verification/Incremental.thy ===== *)
theory Incremental
  imports Snapshot_Source
begin

text \<open>
  Discovery, selection and removal of snapshot archives: \<^verbatim>\<open>src/incremental.rs\<close> and the selection
  functions of \<^verbatim>\<open>main.rs\<close>.  The parsers of the Solana archive names are third-party code: the
  record \<open>name_parsers\<close>.  A directory is its listing with the type of each entry, and what the
  operating system answers when a file is removed.
\<close>

section \<open>The order of paths\<close>

text \<open>\<^verbatim>\<open>Path::cmp\<close> compares component by component; a prefix comes first.\<close>

fun component_key :: "path_component \<Rightarrow> nat \<times> string" where
  "component_key RootDir = (0, '''')"
| "component_key CurDir = (1, '''')"
| "component_key ParentDir = (2, '''')"
| "component_key (Normal s) = (3, s)"

interpretation component_order: ordered_by_key component_key
proof unfold_locales
  show "component_key a = component_key b \<Longrightarrow> a = b" for a b
    by (cases a; cases b) auto
qed

instantiation path_component :: linorder
begin

definition less_eq_path_component :: "path_component \<Rightarrow> path_component \<Rightarrow> bool" where
  "less_eq_path_component a b \<longleftrightarrow> component_key a \<le> component_key b"

definition less_path_component :: "path_component \<Rightarrow> path_component \<Rightarrow> bool" where
  "less_path_component a b \<longleftrightarrow> component_key a < component_key b"

instance
  by intro_classes
    (unfold less_eq_path_component_def less_path_component_def, (rule component_order.order_facts; assumption)+)

end

section \<open>Archives\<close>

record incremental_snapshot =
  is_path :: string
  is_base_slot :: u64
  is_slot :: u64

record full_snapshot =
  fs_path :: string
  fs_slot :: u64

record name_parsers =
  full_archive_info :: "string \<Rightarrow> (string \<times> u64) option"
  incremental_archive_info :: "string \<Rightarrow> (string \<times> u64 \<times> u64) option"

definition ends_with :: "string \<Rightarrow> string \<Rightarrow> bool" where
  "ends_with s suffix \<longleftrightarrow> length suffix \<le> length s \<and> drop (length s - length suffix) s = suffix"

definition full_from_path :: "name_parsers \<Rightarrow> string \<Rightarrow> full_snapshot option" where
  "full_from_path np path =
     (if \<not> ends_with path ''.tar.zst'' then None
      else map_option (\<lambda>(p, slot). \<lparr>fs_path = p, fs_slot = slot\<rparr>) (full_archive_info np path))"

definition incremental_from_path :: "name_parsers \<Rightarrow> string \<Rightarrow> incremental_snapshot option" where
  "incremental_from_path np path =
     (if \<not> ends_with path ''.tar.zst'' then None
      else map_option (\<lambda>(p, base, slot). \<lparr>is_path = p, is_base_slot = base, is_slot = slot\<rparr>)
             (incremental_archive_info np path))"

text \<open>
  A listed entry is an error or a path with the answer to \<^verbatim>\<open>file_type\<close>.  \<open>dr_refuses path\<close> is the
  error, if any, with which removing the file fails.
\<close>

record dir_entry =
  de_path :: string
  de_is_file :: "io_error + bool"

record directory =
  dr_unreadable :: "io_error option"
  dr_entries :: "(io_error + dir_entry) list"
  dr_refuses :: "string \<Rightarrow> io_error option"

definition read_dir :: "directory \<Rightarrow> io_error + (io_error + dir_entry) list" where
  "read_dir d = (case dr_unreadable d of Some e \<Rightarrow> Inl e | None \<Rightarrow> Inr (dr_entries d))"

definition regular_files :: "(io_error + dir_entry) list \<Rightarrow> string list" where
  "regular_files entries = List.map_filter (\<lambda>e. if de_is_file e = Inr True then Some (de_path e) else None)
     (oks entries)"

definition discover :: "name_parsers \<Rightarrow> directory \<Rightarrow> io_error + incremental_snapshot list" where
  "discover np d = try_bind (read_dir d) (\<lambda>entries.
     Inr (List.map_filter (incremental_from_path np) (regular_files entries)))"

definition discover_full :: "name_parsers \<Rightarrow> directory \<Rightarrow> io_error + full_snapshot list" where
  "discover_full np d = try_bind (read_dir d) (\<lambda>entries.
     Inr (List.map_filter (full_from_path np) (regular_files entries)))"

section \<open>Selection\<close>

text \<open>Highest slot first, then the path: \<^verbatim>\<open>sort_by\<close> is stable, as \<open>sort_key\<close> is.\<close>

definition newest_first_key :: "u64 \<Rightarrow> string \<Rightarrow> int \<times> path_component list" where
  "newest_first_key slot path = (- uint slot, components path)"

definition eligible_candidates :: "incremental_snapshot list \<Rightarrow> u64 \<Rightarrow> incremental_snapshot list" where
  "eligible_candidates snapshots last_processed_slot =
     sort_key (\<lambda>s. newest_first_key (is_slot s) (is_path s))
       (filter (\<lambda>s. is_base_slot s \<le> last_processed_slot \<and> last_processed_slot < is_slot s) snapshots)"

definition eligible_full_candidates :: "full_snapshot list \<Rightarrow> u64 \<Rightarrow> full_snapshot list" where
  "eligible_full_candidates snapshots last_processed_slot =
     sort_key (\<lambda>s. newest_first_key (fs_slot s) (fs_path s))
       (filter (\<lambda>s. last_processed_slot < fs_slot s) snapshots)"

definition newest_eligible_incremental ::
  "incremental_snapshot list \<Rightarrow> u64 \<Rightarrow> incremental_snapshot option" where
  "newest_eligible_incremental incrementals committed_slot =
     (case eligible_candidates incrementals committed_slot of [] \<Rightarrow> None | s # _ \<Rightarrow> Some s)"

text \<open>\<^verbatim>\<open>Iterator::max_by\<close>: of two elements that compare equal the later one is kept.\<close>

fun max_by :: "('a \<Rightarrow> 'a \<Rightarrow> bool) \<Rightarrow> 'a list \<Rightarrow> 'a option" where
  "max_by gt [] = None"
| "max_by gt (x # xs) = Some (foldl (\<lambda>best y. if gt best y then best else y) x xs)"

definition newest_full_generation :: "full_snapshot list \<Rightarrow> u64 option \<Rightarrow> full_snapshot option" where
  "newest_full_generation fulls active_full_slot =
     max_by (\<lambda>l r. fs_slot r < fs_slot l \<or>
               fs_slot l = fs_slot r \<and> components (fs_path l) < components (fs_path r))
       (filter (\<lambda>s. case active_full_slot of None \<Rightarrow> True | Some slot \<Rightarrow> slot < fs_slot s) fulls)"

definition find_recorded_full :: "full_snapshot list \<Rightarrow> full_snapshot \<Rightarrow> full_snapshot option" where
  "find_recorded_full fulls recorded = find (\<lambda>s. fs_slot s = fs_slot recorded \<and>
     components (fs_path s) = components (fs_path recorded)) fulls"

datatype watched_snapshot = WIncremental incremental_snapshot | WFull full_snapshot

fun watched_path :: "watched_snapshot \<Rightarrow> string" where
  "watched_path (WIncremental s) = is_path s"
| "watched_path (WFull s) = fs_path s"

fun watched_slot :: "watched_snapshot \<Rightarrow> u64" where
  "watched_slot (WIncremental s) = is_slot s"
| "watched_slot (WFull s) = fs_slot s"

definition watched_snapshot_candidates ::
  "incremental_snapshot list \<Rightarrow> full_snapshot list \<Rightarrow> u64 \<Rightarrow> bool \<Rightarrow> watched_snapshot list" where
  "watched_snapshot_candidates incrementals fulls resume_slot bootstrap_pending =
     (if bootstrap_pending then map WFull (eligible_full_candidates fulls resume_slot)
      else map WIncremental (eligible_candidates incrementals resume_slot) @
        map WFull (eligible_full_candidates fulls resume_slot))"

section \<open>Removal\<close>

definition remove_file :: "string \<Rightarrow> directory \<Rightarrow> (io_error + unit) \<times> directory" where
  "remove_file path d =
     (case dr_refuses d path of
        Some e \<Rightarrow> (Inl e, d)
      | None \<Rightarrow>
          if path \<in> set (map de_path (oks (dr_entries d)))
          then (Inr (), d\<lparr>dr_entries := filter (\<lambda>r. case r of Inr e \<Rightarrow> de_path e \<noteq> path | Inl _ \<Rightarrow> True)
                 (dr_entries d)\<rparr>)
          else (Inl NotFound, d))"

text \<open>One of the two removal loops, over the paths and slots of the discovered archives.\<close>

fun remove_each ::
  "u64 \<Rightarrow> (string \<times> u64) list \<Rightarrow> string list \<Rightarrow> directory \<Rightarrow> (io_error + string list) \<times> directory" where
  "remove_each last_slot [] removed d = (Inr removed, d)"
| "remove_each last_slot ((path, slot) # rest) removed d =
     (if slot \<le> last_slot then
        (case remove_file path d of
           (Inr _, d') \<Rightarrow> remove_each last_slot rest (removed @ [path]) d'
         | (Inl e, d') \<Rightarrow>
             if e = NotFound then remove_each last_slot rest removed d' else (Inl e, d'))
      else remove_each last_slot rest removed d)"

definition remove_processed ::
  "name_parsers \<Rightarrow> directory \<Rightarrow> u64 \<Rightarrow> (io_error + string list) \<times> directory" where
  "remove_processed np d last_processed_slot =
     (case discover np d of
        Inl e \<Rightarrow> (Inl e, d)
      | Inr incs \<Rightarrow>
          (case remove_each last_processed_slot (map (\<lambda>s. (is_path s, is_slot s)) incs) [] d of
             (Inl e, d1) \<Rightarrow> (Inl e, d1)
           | (Inr removed, d1) \<Rightarrow>
               (case discover_full np d1 of
                  Inl e \<Rightarrow> (Inl e, d1)
                | Inr fulls \<Rightarrow>
                    remove_each last_processed_slot (map (\<lambda>s. (fs_path s, fs_slot s)) fulls) removed d1)))"

section \<open>Lemmas on the selection\<close>

lemma newest_first_key_le:
  "newest_first_key s p \<le> newest_first_key s' p' \<longleftrightarrow> s' < s \<or> s = s' \<and> components p \<le> components p'"
  by (auto simp: newest_first_key_def less_eq_prod_def word_less_def word_uint_eq_iff)

lemma sort_key_perm_eq:
  assumes "mset xs = mset ys" "inj_on f (set xs)"
  shows "sort_key f xs = sort_key f ys"
proof (rule properties_for_sort_key)
  show "mset (sort_key f ys) = mset xs" using assms(1) by simp
next
  fix k assume "k \<in> set (sort_key f ys)"
  then have "k \<in> set xs" using assms(1) by (metis set_mset_mset set_sort)
  show "filter (\<lambda>x. f k = f x) (sort_key f ys) = filter (\<lambda>x. f k = f x) xs"
  proof -
    have r: "filter (\<lambda>x. f k = f x) zs = replicate (count (mset zs) k) k" if "set zs \<subseteq> set xs" for zs
      using that \<open>k \<in> set xs\<close> assms(2) by (induction zs) (auto simp: inj_on_def)
    have "set ys = set xs" using assms(1) by (metis set_mset_mset)
    then show ?thesis using r [of "sort_key f ys"] r [of xs] assms(1) by simp
  qed
qed simp

lemma max_by_foldl:
  assumes "inj_on f (set (x # xs))"
  shows "foldl (\<lambda>best y. if f best < (f y :: 'k :: linorder) then best else y) x xs = hd (sort_key f (x # xs))"
  using assms
proof (induction xs arbitrary: x rule: rev_induct)
  case (snoc y ys)
  let ?b = "hd (sort_key f (x # ys))"
  have ih: "foldl (\<lambda>best y. if f best < f y then best else y) x ys = ?b"
    using snoc.prems by (intro snoc.IH) (auto intro: inj_on_subset)
  have hd_min: "hd (sort_key f zs) \<in> set zs \<and> (\<forall>z \<in> set zs. f (hd (sort_key f zs)) \<le> f z)"
    if "zs \<noteq> []" for zs
  proof (cases "sort_key f zs")
    case Nil
    then show ?thesis using that by (metis length_0_conv length_sort)
  next
    case (Cons w ws)
    then have "sorted (map f (w # ws))" by (metis sorted_sort_key)
    then show ?thesis using Cons set_sort [of f zs] by (force simp: set_eq_iff)
  qed
  let ?c = "hd (sort_key f (x # ys @ [y]))"
  have b: "?b \<in> set (x # ys)" "\<forall>z \<in> set (x # ys). f ?b \<le> f z" using hd_min [of "x # ys"] by auto
  have c: "?c \<in> set (x # ys @ [y])" "\<forall>z \<in> set (x # ys @ [y]). f ?c \<le> f z"
    using hd_min [of "x # ys @ [y]"] by auto
  have "?c = (if f ?b < f y then ?b else y)"
  proof (rule inj_onD [OF snoc.prems])
    show "f ?c = f (if f ?b < f y then ?b else y)"
    proof (rule antisym)
      show "f ?c \<le> f (if f ?b < f y then ?b else y)" using c(2) b(1) by auto
      show "f (if f ?b < f y then ?b else y) \<le> f ?c" using c(1) b(2) by force
    qed
  qed (use b(1) c(1) in auto)
  then show ?case using ih by simp
qed simp

section \<open>Lemmas on removal\<close>

definition without :: "string set \<Rightarrow> (io_error + dir_entry) list \<Rightarrow> (io_error + dir_entry) list" where
  "without G es = filter (\<lambda>r. case r of Inr e \<Rightarrow> de_path e \<notin> G | Inl _ \<Rightarrow> True) es"

lemma without_empty [simp]: "without {} es = es"
  by (auto simp: without_def filter_id_conv split: sum.split)

lemma without_without: "without H (without G es) = without (G \<union> H) es"
  by (auto simp: without_def intro!: filter_cong split: sum.split)

lemma oks_without: "oks (without G es) = filter (\<lambda>e. de_path e \<notin> G) (oks es)"
  by (induction es) (auto simp: oks_def without_def split: sum.split)

lemma regular_files_without: "regular_files (without G es) = filter (\<lambda>p. p \<notin> G) (regular_files es)"
proof -
  have "List.map_filter (\<lambda>e. if de_is_file e = Inr True then Some (de_path e) else None)
      (filter (\<lambda>e. de_path e \<notin> G) xs) =
    filter (\<lambda>p. p \<notin> G) (List.map_filter (\<lambda>e. if de_is_file e = Inr True then Some (de_path e) else None) xs)" for xs
    by (induction xs) auto
  then show ?thesis by (simp add: regular_files_def oks_without)
qed

lemma regular_files_in: "p \<in> set (regular_files es) \<Longrightarrow> p \<in> set (map de_path (oks es))"
  by (auto simp: regular_files_def map_filter_def split: if_splits)

lemma remove_file_cases:
  obtains (removed) "remove_file p d = (Inr (), d\<lparr>dr_entries := without {p} (dr_entries d)\<rparr>)"
      "dr_refuses d p = None" "p \<in> set (map de_path (oks (dr_entries d)))"
  | (refused) e where "remove_file p d = (Inl e, d)" "dr_refuses d p = Some e"
  | (absent) "remove_file p d = (Inl NotFound, d)" "dr_refuses d p = None"
      "p \<notin> set (map de_path (oks (dr_entries d)))"
proof (cases "dr_refuses d p")
  case None
  then show thesis using removed absent by (auto simp: remove_file_def without_def)
next
  case (Some e)
  then show thesis using refused by (auto simp: remove_file_def)
qed

text \<open>What a run of the removal loop from \<open>d\<close> to \<open>d'\<close> with result \<open>r\<close> guarantees.\<close>

definition removal_post ::
  "u64 \<Rightarrow> (string \<times> u64) list \<Rightarrow> string list \<Rightarrow> directory \<Rightarrow> io_error + string list \<Rightarrow> directory \<Rightarrow>
    string set \<Rightarrow> bool" where
  "removal_post last_slot ps acc d r d' G \<longleftrightarrow>
     dr_refuses d' = dr_refuses d \<and> dr_unreadable d' = dr_unreadable d \<and>
     dr_entries d' = without G (dr_entries d) \<and>
     (\<forall>p \<in> G. \<exists>s. (p, s) \<in> set ps \<and> s \<le> last_slot) \<and>
     (\<forall>removed. r = Inr removed \<longrightarrow> set removed = set acc \<union> G \<and>
       (\<forall>p s. (p, s) \<in> set ps \<and> s \<le> last_slot \<and> p \<in> set (map de_path (oks (dr_entries d'))) \<longrightarrow>
         dr_refuses d p = Some NotFound))"

lemma removal_post_skip:
  assumes "removal_post last_slot rest acc d r d' G"
    and "slot \<le> last_slot \<Longrightarrow> path \<in> set (map de_path (oks (dr_entries d'))) \<Longrightarrow> dr_refuses d path = Some NotFound"
  shows "removal_post last_slot ((path, slot) # rest) acc d r d' G"
proof -
  have m: "(p, s) \<in> set ((path, slot) # rest) \<longleftrightarrow> p = path \<and> s = slot \<or> (p, s) \<in> set rest" for p s
    by auto
  show ?thesis
    using assms unfolding removal_post_def m by blast
qed

lemma removal_post_removed:
  assumes "removal_post last_slot rest (acc @ [path]) (d\<lparr>dr_entries := without {path} (dr_entries d)\<rparr>) r d' G"
    and "slot \<le> last_slot"
  shows "removal_post last_slot ((path, slot) # rest) acc d r d' (insert path G)"
proof -
  have m: "(p, s) \<in> set ((path, slot) # rest) \<longleftrightarrow> p = path \<and> s = slot \<or> (p, s) \<in> set rest" for p s
    by auto
  have e: "dr_entries d' = without (insert path G) (dr_entries d)"
    using assms(1) by (simp add: removal_post_def without_without)
  then have gone: "path \<notin> set (map de_path (oks (dr_entries d')))" by (auto simp: oks_without)
  note post = assms(1) [unfolded removal_post_def]
  have "dr_refuses d' = dr_refuses d" "dr_unreadable d' = dr_unreadable d" using post by simp_all
  moreover have "\<forall>p \<in> insert path G. \<exists>s. (p, s) \<in> set ((path, slot) # rest) \<and> s \<le> last_slot"
  proof -
    have "\<forall>p \<in> G. \<exists>s. (p, s) \<in> set rest \<and> s \<le> last_slot" using post by (elim conjE)
    then show ?thesis using assms(2) by (auto simp: m)
  qed
  moreover have "set rm = set acc \<union> insert path G" if "r = Inr rm" for rm
    using post that by simp
  moreover have "dr_refuses d p = Some NotFound"
    if "r = Inr rm" "(p, s) \<in> set ((path, slot) # rest)" "s \<le> last_slot"
      "p \<in> set (map de_path (oks (dr_entries d')))" for rm p s
  proof -
    have "(p, s) \<in> set rest"
    proof (cases "p = path")
      case True
      then show ?thesis using that(4) gone by simp
    next
      case False
      then show ?thesis using that(2) by simp
    qed
    moreover have "\<forall>p s. (p, s) \<in> set rest \<and> s \<le> last_slot \<and> p \<in> set (map de_path (oks (dr_entries d'))) \<longrightarrow>
        dr_refuses d p = Some NotFound"
      using post that(1) by simp
    ultimately show ?thesis using that(3,4) by metis
  qed
  ultimately show ?thesis using e unfolding removal_post_def by (intro conjI allI impI) (assumption | metis)+
qed

lemma remove_each_spec:
  "remove_each last_slot ps acc d = (r, d') \<Longrightarrow> \<exists>G. removal_post last_slot ps acc d r d' G"
proof (induction ps arbitrary: acc d)
  case Nil
  then show ?case by (auto simp: removal_post_def intro!: exI [of _ "{}"])
next
  case (Cons q rest)
  obtain path slot where q: "q = (path, slot)" by (cases q)
  note step = Cons.prems [unfolded q]
  show ?case
  proof (cases "slot \<le> last_slot")
    case False
    with step have "remove_each last_slot rest acc d = (r, d')" by simp
    with False show ?thesis unfolding q by (metis Cons.IH removal_post_skip)
  next
    case True
    show ?thesis
    proof (cases rule: remove_file_cases [of path d])
      case removed
      then have "remove_each last_slot rest (acc @ [path]) (d\<lparr>dr_entries := without {path} (dr_entries d)\<rparr>) = (r, d')"
        using step True by simp
      with True show ?thesis unfolding q by (metis Cons.IH removal_post_removed)
    next
      case (refused e)
      show ?thesis
      proof (cases "e = NotFound")
        case nf: True
        then have "remove_each last_slot rest acc d = (r, d')" using step True refused by simp
        with refused nf show ?thesis unfolding q by (metis Cons.IH removal_post_skip)
      next
        case False
        then have "r = Inl e" "d' = d" using step True refused by auto
        then show ?thesis by (auto simp: removal_post_def intro!: exI [of _ "{}"])
      qed
    next
      case absent
      then have "remove_each last_slot rest acc d = (r, d')" using step True by simp
      then obtain G where G: "removal_post last_slot rest acc d r d' G" using Cons.IH by blast
      then have "path \<notin> set (map de_path (oks (dr_entries d')))"
        using absent(3) by (auto simp: removal_post_def oks_without)
      with G show ?thesis unfolding q by (metis removal_post_skip)
    qed
  qed
qed

text \<open>\<open>processed_archive\<close>: the name parses as a supported archive that ends at or before the slot.\<close>

definition processed_archive :: "name_parsers \<Rightarrow> u64 \<Rightarrow> string \<Rightarrow> bool" where
  "processed_archive np last_slot p \<longleftrightarrow>
     (case incremental_from_path np p of Some s \<Rightarrow> is_slot s \<le> last_slot | None \<Rightarrow> False) \<or>
     (case full_from_path np p of Some s \<Rightarrow> fs_slot s \<le> last_slot | None \<Rightarrow> False)"

text \<open>The parsers of the archive names report the path they were given.\<close>

definition parsers_keep_path :: "name_parsers \<Rightarrow> bool" where
  "parsers_keep_path np \<longleftrightarrow>
     (\<forall>p p' b s. incremental_archive_info np p = Some (p', b, s) \<longrightarrow> p' = p) \<and>
     (\<forall>p p' s. full_archive_info np p = Some (p', s) \<longrightarrow> p' = p)"

lemma map_filter_paths:
  assumes "\<And>p x. g p = Some x \<Longrightarrow> pa x = p"
  shows "(p, s) \<in> set (map (\<lambda>x. (pa x, sl x)) (List.map_filter g ps)) \<longleftrightarrow>
    p \<in> set ps \<and> (\<exists>x. g p = Some x \<and> sl x = s)"
proof (induction ps)
  case (Cons q ps)
  show ?case
  proof (cases "g q")
    case (Some x)
    then have "pa x = q" using assms by blast
    with Cons Some show ?thesis by auto
  qed (use Cons in auto)
qed simp

lemma discover_paths:
  assumes "parsers_keep_path np" and "discover np d = Inr incs"
  shows "(p, s) \<in> set (map (\<lambda>s. (is_path s, is_slot s)) incs) \<longleftrightarrow>
      p \<in> set (regular_files (dr_entries d)) \<and>
      (\<exists>x. incremental_from_path np p = Some x \<and> is_slot x = s)"
proof -
  have "incs = List.map_filter (incremental_from_path np) (regular_files (dr_entries d))"
    using assms(2) by (auto simp: discover_def read_dir_def split: option.splits)
  moreover have "is_path x = p" if "incremental_from_path np p = Some x" for p x
    using assms(1) that by (auto simp: incremental_from_path_def parsers_keep_path_def split: if_splits)
  ultimately show ?thesis using map_filter_paths [of "incremental_from_path np" is_path] by simp
qed

lemma discover_full_paths:
  assumes "parsers_keep_path np" and "discover_full np d = Inr fulls"
  shows "(p, s) \<in> set (map (\<lambda>s. (fs_path s, fs_slot s)) fulls) \<longleftrightarrow>
      p \<in> set (regular_files (dr_entries d)) \<and> (\<exists>x. full_from_path np p = Some x \<and> fs_slot x = s)"
proof -
  have "fulls = List.map_filter (full_from_path np) (regular_files (dr_entries d))"
    using assms(2) by (auto simp: discover_full_def read_dir_def split: option.splits)
  moreover have "fs_path x = p" if "full_from_path np p = Some x" for p x
    using assms(1) that by (auto simp: full_from_path_def parsers_keep_path_def split: if_splits)
  ultimately show ?thesis using map_filter_paths [of "full_from_path np" fs_path] by simp
qed

section \<open>Properties\<close>

text \<open>C37: Candidate selection: the candidates are exactly the archives that continue from the
  processed slot (base at or below it, end above it), furthest slot first and then by path, and the
  list does not depend on the order in which the directory lists the archives.\<close>

theorem eligible_candidates_correct:
  assumes "mset snapshots' = mset snapshots"
    and "inj_on (\<lambda>s. newest_first_key (is_slot s) (is_path s)) (set snapshots)"
  shows "eligible_candidates snapshots' last_slot = eligible_candidates snapshots last_slot \<and>
    mset (eligible_candidates snapshots last_slot) =
      filter_mset (\<lambda>s. is_base_slot s \<le> last_slot \<and> last_slot < is_slot s) (mset snapshots) \<and>
    sorted_wrt (\<lambda>a b. is_slot b < is_slot a \<or> is_slot a = is_slot b \<and> components (is_path a) \<le> components (is_path b))
      (eligible_candidates snapshots last_slot)"
proof (intro conjI)
  show "eligible_candidates snapshots' last_slot = eligible_candidates snapshots last_slot"
    unfolding eligible_candidates_def using assms
    by (intro sort_key_perm_eq) (auto simp flip: set_mset_mset intro: inj_on_subset)
  show "mset (eligible_candidates snapshots last_slot) =
      filter_mset (\<lambda>s. is_base_slot s \<le> last_slot \<and> last_slot < is_slot s) (mset snapshots)"
    by (simp add: eligible_candidates_def)
  have "sorted (map (\<lambda>s. newest_first_key (is_slot s) (is_path s)) (eligible_candidates snapshots last_slot))"
    by (simp add: eligible_candidates_def)
  then show "sorted_wrt (\<lambda>a b. is_slot b < is_slot a \<or> is_slot a = is_slot b \<and>
      components (is_path a) \<le> components (is_path b)) (eligible_candidates snapshots last_slot)"
    by (simp add: sorted_map newest_first_key_le)
qed

definition sample_incrementals :: "incremental_snapshot list" where
  "sample_incrementals = [\<lparr>is_path = ''a'', is_base_slot = 900, is_slot = 1500\<rparr>,
     \<lparr>is_path = ''b'', is_base_slot = 950, is_slot = 2000\<rparr>,
     \<lparr>is_path = ''c'', is_base_slot = 1100, is_slot = 2500\<rparr>]"

lemma eligible_candidates_correct_witness:
  "eligible_candidates (rev sample_incrementals) 1000 = eligible_candidates sample_incrementals 1000"
  using eligible_candidates_correct [of "rev sample_incrementals" sample_incrementals 1000]
  by (simp add: sample_incrementals_def newest_first_key_def inj_on_def)

text \<open>The generation the watcher picks is the first of the full candidates: taking the maximum
  over the unsorted list with the comparison of \<open>newest_full_generation\<close> is the head of the sorted
  candidates beyond the same slot.\<close>

theorem newest_full_generation_head:
  assumes "inj_on (\<lambda>s. newest_first_key (fs_slot s) (fs_path s)) (set fulls)"
  shows "newest_full_generation fulls (Some slot) =
    (case eligible_full_candidates fulls slot of [] \<Rightarrow> None | s # _ \<Rightarrow> Some s)"
proof -
  let ?f = "\<lambda>s. newest_first_key (fs_slot s) (fs_path s)"
  let ?c = "filter (\<lambda>s. slot < fs_slot s) fulls"
  have lt: "?f l < ?f r \<longleftrightarrow> fs_slot r < fs_slot l \<or>
      fs_slot l = fs_slot r \<and> components (fs_path l) < components (fs_path r)" for l r
    by (auto simp: less_le_not_le [of "?f l"] newest_first_key_le)
  show ?thesis
  proof (cases ?c)
    case Nil
    then show ?thesis by (simp add: newest_full_generation_def eligible_full_candidates_def)
  next
    case (Cons x xs)
    have "inj_on ?f (set (x # xs))"
      using assms by (metis Cons filter_is_subset inj_on_subset)
    then have "newest_full_generation fulls (Some slot) = Some (hd (sort_key ?f (x # xs)))"
      using max_by_foldl [of ?f x xs] by (simp add: newest_full_generation_def Cons lt)
    moreover have "sort_key ?f (x # xs) \<noteq> []" by (metis length_0_conv length_sort list.distinct(1))
    ultimately show ?thesis
      by (simp add: eligible_full_candidates_def Cons del: sort_key_simps split: list.split)
  qed
qed

lemma newest_full_generation_head_witness:
  "newest_full_generation [\<lparr>fs_path = ''a'', fs_slot = 5\<rparr>, \<lparr>fs_path = ''b'', fs_slot = 9\<rparr>] (Some 5) =
    (case eligible_full_candidates [\<lparr>fs_path = ''a'', fs_slot = 5\<rparr>, \<lparr>fs_path = ''b'', fs_slot = 9\<rparr>] 5 of
       [] \<Rightarrow> None | s # _ \<Rightarrow> Some s)"
  by (rule newest_full_generation_head) (simp add: newest_first_key_def)

text \<open>C32: Removal of processed archives never touches anything else: whatever it returns, the files
  that disappear are archives that end at or before the given slot; when it succeeds it reports
  exactly the files it removed, and every such archive still listed is one that the operating system
  already reports as gone.\<close>

theorem remove_processed_safe:
  assumes "parsers_keep_path np" and "remove_processed np d last_slot = (r, d')"
  shows "\<exists>G. dr_entries d' = without G (dr_entries d) \<and> (\<forall>p \<in> G. processed_archive np last_slot p) \<and>
    (\<forall>removed. r = Inr removed \<longrightarrow> set removed = G \<and>
      (\<forall>p \<in> set (regular_files (dr_entries d')). processed_archive np last_slot p \<longrightarrow>
        dr_refuses d p = Some NotFound))"
proof (cases "discover np d")
  case (Inl e)
  then show ?thesis using assms(2) by (auto simp: remove_processed_def intro!: exI [of _ "{}"])
next
  case incs: (Inr incs)
  let ?ps = "map (\<lambda>s. (is_path s, is_slot s)) incs"
  obtain r1 d1 where r1: "remove_each last_slot ?ps [] d = (r1, d1)" by fastforce
  then obtain G where G: "removal_post last_slot ?ps [] d r1 d1 G" using remove_each_spec by blast
  note G' = G [unfolded removal_post_def]
  have inc: "processed_archive np last_slot p" if "p \<in> G" for p
  proof -
    obtain s where "(p, s) \<in> set ?ps" "s \<le> last_slot" using G' \<open>p \<in> G\<close> by blast
    then show ?thesis using discover_paths [OF assms(1) incs, of p s] by (auto simp: processed_archive_def)
  qed
  show ?thesis
  proof (cases "r1 = Inr (case r1 of Inr x \<Rightarrow> x | Inl _ \<Rightarrow> []) \<and> (\<exists>fulls. discover_full np d1 = Inr fulls)")
    case False
    then have "d' = d1 \<and> (\<exists>e. r = Inl e)"
      using assms(2) by (cases r1; cases "discover_full np d1") (auto simp: remove_processed_def incs r1)
    then show ?thesis using G' inc by (auto intro!: exI [of _ G])
  next
    case True
    then obtain rm fulls where r1': "r1 = Inr rm" and fulls: "discover_full np d1 = Inr fulls" by blast
    let ?qs = "map (\<lambda>s. (fs_path s, fs_slot s)) fulls"
    have "remove_each last_slot ?qs rm d1 = (r, d')"
      using assms(2) by (simp add: remove_processed_def incs r1 r1' fulls)
    then obtain H where H: "removal_post last_slot ?qs rm d1 r d' H" using remove_each_spec by blast
    note H' = H [unfolded removal_post_def]
    have full: "processed_archive np last_slot p" if "p \<in> H" for p
    proof -
      obtain s where "(p, s) \<in> set ?qs" "s \<le> last_slot" using H' \<open>p \<in> H\<close> by blast
      then show ?thesis using discover_full_paths [OF assms(1) fulls, of p s] by (auto simp: processed_archive_def)
    qed
    have left: "dr_refuses d p = Some NotFound"
      if p: "r = Inr removed" "p \<in> set (regular_files (dr_entries d'))" "processed_archive np last_slot p" for p removed
    proof -
      have r1d: "p \<in> set (regular_files (dr_entries d1))" and r0d: "p \<in> set (regular_files (dr_entries d))"
        using p(2) G' H' by (auto simp: regular_files_without)
      note here = regular_files_in [OF p(2)] regular_files_in [OF r1d]
      consider (i) s where "(p, s) \<in> set ?ps" "s \<le> last_slot" | (f) s where "(p, s) \<in> set ?qs" "s \<le> last_slot"
        using p(3) r0d r1d discover_paths [OF assms(1) incs, of p] discover_full_paths [OF assms(1) fulls, of p]
        by (auto simp: processed_archive_def split: option.splits)
      then show ?thesis
      proof cases
        case i
        then show ?thesis using G' here r1' by blast
      next
        case f
        then have "dr_refuses d1 p = Some NotFound" using H' here p(1) by blast
        then show ?thesis using G' by simp
      qed
    qed
    have "dr_entries d' = without (G \<union> H) (dr_entries d)" using G' H' by (simp add: without_without)
    moreover have "set removed = G \<union> H" if "r = Inr removed" for removed
      using G' H' r1' that by auto
    ultimately show ?thesis using inc full left by (intro exI [of _ "G \<union> H"]) blast
  qed
qed

definition sample_parsers :: name_parsers where
  "sample_parsers = \<lparr>full_archive_info = (\<lambda>p. if p = ''f5.tar.zst'' then Some (p, 5)
       else if p = ''f9.tar.zst'' then Some (p, 9) else None),
     incremental_archive_info = (\<lambda>p. if p = ''i5.tar.zst'' then Some (p, 1, 5) else None)\<rparr>"

definition sample_directory :: directory where
  "sample_directory = \<lparr>dr_unreadable = None,
     dr_entries = map (\<lambda>p. Inr \<lparr>de_path = p, de_is_file = Inr True\<rparr>)
       [''f5.tar.zst'', ''f9.tar.zst'', ''notes.txt'', ''i5.tar.zst''],
     dr_refuses = (\<lambda>_. None)\<rparr>"

lemma remove_processed_safe_witness:
  "\<exists>G. dr_entries (snd (remove_processed sample_parsers sample_directory 7)) =
      without G (dr_entries sample_directory) \<and>
    (\<forall>p \<in> G. processed_archive sample_parsers 7 p) \<and>
    (\<forall>removed. fst (remove_processed sample_parsers sample_directory 7) = Inr removed \<longrightarrow> set removed = G \<and>
      (\<forall>p \<in> set (regular_files (dr_entries (snd (remove_processed sample_parsers sample_directory 7)))).
        processed_archive sample_parsers 7 p \<longrightarrow> dr_refuses sample_directory p = Some NotFound))"
  by (rule remove_processed_safe [OF _ prod.collapse [symmetric]])
    (simp add: parsers_keep_path_def sample_parsers_def)

end
