(* ===== verification/Clickhouse.thy ===== *)
theory Clickhouse
  imports Metadata
begin

text \<open>
  The ClickHouse server as the importer's maintenance code uses it.  Every request is an operation of
  the record \<open>db_ops\<close> on a server state \<open>'d\<close>; the meaning of the SQL texts of \<^verbatim>\<open>clickhouse.rs\<close> is a
  function or relation on table contents (\<open>final_rows\<close> for \<^verbatim>\<open>FINAL\<close>, \<open>aggregated\<close> for the incremental
  aggregation, \<open>rebuilt\<close> for the full one, \<open>info_rows\<close> for the token info join).  What the code relies on
  is the locale \<open>clickhouse\<close>: a statement that is reported successful has had its effect, a query
  changes nothing, a statement that is reported failed has had no effect on other tables, and a failed
  \<^verbatim>\<open>EXCHANGE\<close> has either happened or not.
\<close>

section \<open>Table contents\<close>

record wallet_balance_row =
  wb_mint :: string
  wb_owner :: string
  wb_amount_raw :: u64
  wb_updated_slot :: u64

record token_info_row =
  ti_mint :: string
  ti_decimals :: u8
  ti_supply_raw :: u64
  ti_name :: string
  ti_symbol :: string
  ti_uri :: string
  ti_token_standard :: "u8 option"
  ti_extensions :: string
  ti_mint_updated_slot :: u64
  ti_metadata_updated_slot :: u64
  ti_updated_slot :: u64

text \<open>A table has the rows of its kind; the other lists are empty.\<close>

record table_view =
  tv_uuid :: string
  tv_rows :: "row list"
  tv_balances :: "wallet_balance_row list"
  tv_infos :: "token_info_row list"

type_synonym tables = "string \<Rightarrow> table_view option"

definition state_rows :: "table_view \<Rightarrow> token_account_row list" where
  "state_rows v = List.map_filter (\<lambda>r. case r of RTokenAccount t \<Rightarrow> Some t | _ \<Rightarrow> None) (tv_rows v)"

definition mint_rows :: "table_view \<Rightarrow> token_mint_row list" where
  "mint_rows v = List.map_filter (\<lambda>r. case r of RTokenMint t \<Rightarrow> Some t | _ \<Rightarrow> None) (tv_rows v)"

definition metadata_rows :: "table_view \<Rightarrow> token_metadata_row list" where
  "metadata_rows v = List.map_filter (\<lambda>r. case r of RTokenMetadata t \<Rightarrow> Some t | _ \<Rightarrow> None) (tv_rows v)"

definition account_rows :: "table_view \<Rightarrow> account_row list" where
  "account_rows v = List.map_filter (\<lambda>r. case r of RAccount t \<Rightarrow> Some t | _ \<Rightarrow> None) (tv_rows v)"

definition rows_of :: "(table_view \<Rightarrow> 'r list) \<Rightarrow> tables \<Rightarrow> string \<Rightarrow> 'r list" where
  "rows_of sel ts t = (case ts t of None \<Rightarrow> [] | Some v \<Rightarrow> sel v)"

section \<open>Queries\<close>

text \<open>
  \<open>latest key ver rows k\<close>: the row that a ReplacingMergeTree keeps for the key, the last of those with
  the greatest version.  \<open>final_rows\<close> is \<^verbatim>\<open>FINAL\<close> before rows marked as deleted are hidden.
\<close>

fun latest :: "('r \<Rightarrow> 'k) \<Rightarrow> ('r \<Rightarrow> u64) \<Rightarrow> 'r list \<Rightarrow> 'k \<Rightarrow> 'r option" where
  "latest key ver [] k = None"
| "latest key ver (r # rs) k =
     (case latest key ver rs k of
        Some best \<Rightarrow> if key r = k \<and> ver best < ver r then Some r else Some best
      | None \<Rightarrow> if key r = k then Some r else None)"

definition final_rows :: "('r \<Rightarrow> 'k) \<Rightarrow> ('r \<Rightarrow> u64) \<Rightarrow> 'r list \<Rightarrow> 'r list" where
  "final_rows key ver rows = List.map_filter (latest key ver rows) (remdups (map key rows))"

abbreviation state_final :: "token_account_row list \<Rightarrow> token_account_row list" where
  "state_final \<equiv> final_rows ta_pubkey ta_updated_slot"

definition row_pair :: "token_account_row \<Rightarrow> token_pair" where
  "row_pair r = (ta_mint r, ta_owner r)"

definition is_live :: "token_account_row \<Rightarrow> bool" where
  "is_live r \<longleftrightarrow> ta_is_deleted r = 0 \<and> ta_state r \<noteq> 0"

text \<open>\<^verbatim>\<open>sum(amount) ... GROUP BY mint, owner\<close>: no group without rows; the sum wraps.\<close>

definition group_sum :: "token_account_row list \<Rightarrow> token_pair \<Rightarrow> u64 option" where
  "group_sum rs p = (let ms = filter (\<lambda>r. row_pair r = p) rs in
     if ms = [] then None else Some (sum_list (map ta_amount ms)))"

text \<open>\<^verbatim>\<open>SELECT pubkey, mint, owner, updated_slot FROM t FINAL WHERE is_deleted = 0 AND pubkey IN (...)\<close>\<close>

definition live_previous :: "token_account_row list \<Rightarrow> string list \<Rightarrow> token_account_row list" where
  "live_previous rows pubkeys = filter (\<lambda>r. ta_is_deleted r = 0 \<and> ta_pubkey r \<in> set pubkeys) (state_final rows)"

text \<open>\<^verbatim>\<open>SELECT coalesce(max(updated_slot), toUInt64(0)) FROM t\<close>\<close>

definition max_updated_slot :: "account_row list \<Rightarrow> u64" where
  "max_updated_slot rows = fold max (map ar_updated_slot rows) 0"

text \<open>
  The incremental aggregation: per pubkey of the selected pairs one row of greatest slot (\<^verbatim>\<open>argMax\<close>, any
  of them when several), of which the live ones are summed per pair.
\<close>

definition arg_max_choice :: "token_account_row list \<Rightarrow> (string \<Rightarrow> token_account_row) \<Rightarrow> bool" where
  "arg_max_choice rows pick \<longleftrightarrow> (\<forall>r \<in> set rows. pick (ta_pubkey r) \<in> set rows \<and>
     ta_pubkey (pick (ta_pubkey r)) = ta_pubkey r \<and> ta_updated_slot r \<le> ta_updated_slot (pick (ta_pubkey r)))"

definition aggregated ::
  "token_account_row list \<Rightarrow> token_pair list \<Rightarrow> (token_pair \<times> u64) list \<Rightarrow> bool" where
  "aggregated rows pairs result \<longleftrightarrow>
     (let selected = filter (\<lambda>r. row_pair r \<in> set pairs) rows in
      \<exists>pick. arg_max_choice selected pick \<and>
        map_of result = group_sum (filter is_live (map pick (remdups (map ta_pubkey selected)))))"

text \<open>
  The full aggregation over the rows of a baseline, or over \<^verbatim>\<open>FINAL\<close>:
  \<^verbatim>\<open>sum(amount) AS amount_raw, max(updated_slot) ... GROUP BY mint, owner HAVING amount_raw > 0\<close>.
\<close>

definition rebuild_source :: "bool \<Rightarrow> token_account_row list \<Rightarrow> token_account_row list" where
  "rebuild_source is_full_baseline rows = filter is_live (if is_full_baseline then rows else state_final rows)"

definition rebuilt :: "bool \<Rightarrow> token_account_row list \<Rightarrow> wallet_balance_row list \<Rightarrow> bool" where
  "rebuilt is_full_baseline rows result \<longleftrightarrow>
     (let src = rebuild_source is_full_baseline rows in
      distinct (map (\<lambda>b. (wb_mint b, wb_owner b)) result) \<and>
      (\<forall>b \<in> set result. group_sum src (wb_mint b, wb_owner b) = Some (wb_amount_raw b) \<and> 0 < wb_amount_raw b \<and>
         wb_updated_slot b = Max (ta_updated_slot ` {r \<in> set src. row_pair r = (wb_mint b, wb_owner b)})) \<and>
      (\<forall>p a. group_sum src p = Some a \<and> 0 < a \<longrightarrow> p \<in> (\<lambda>b. (wb_mint b, wb_owner b)) ` set result))"

text \<open>The token info of a mint, from any row of each source that a \<^verbatim>\<open>LEFT ANY JOIN\<close> may find.\<close>

definition any_join :: "('r \<Rightarrow> string) \<Rightarrow> 'r list \<Rightarrow> string \<Rightarrow> 'r option \<Rightarrow> bool" where
  "any_join key rows k found \<longleftrightarrow>
     (case found of None \<Rightarrow> k \<notin> key ` set rows | Some r \<Rightarrow> r \<in> set rows \<and> key r = k)"

definition info_row_of :: "string \<Rightarrow> token_mint_row option \<Rightarrow> token_metadata_row option \<Rightarrow> token_info_row" where
  "info_row_of mint m md = \<lparr>ti_mint = mint,
     ti_decimals = (case m of None \<Rightarrow> 0 | Some r \<Rightarrow> tm_decimals r),
     ti_supply_raw = (case m of None \<Rightarrow> 0 | Some r \<Rightarrow> tm_supply r),
     ti_name = (case md of None \<Rightarrow> '''' | Some r \<Rightarrow> md_name r),
     ti_symbol = (case md of None \<Rightarrow> '''' | Some r \<Rightarrow> md_symbol r),
     ti_uri = (case md of None \<Rightarrow> '''' | Some r \<Rightarrow> md_uri r),
     ti_token_standard = (case md of None \<Rightarrow> None | Some r \<Rightarrow> md_token_standard r),
     ti_extensions = (case md of None \<Rightarrow> ''[]'' | Some r \<Rightarrow> if md_extensions r = '''' then ''[]'' else md_extensions r),
     ti_mint_updated_slot = (case m of None \<Rightarrow> 0 | Some r \<Rightarrow> tm_updated_slot r),
     ti_metadata_updated_slot = (case md of None \<Rightarrow> 0 | Some r \<Rightarrow> md_updated_slot r),
     ti_updated_slot = max (case m of None \<Rightarrow> 0 | Some r \<Rightarrow> tm_updated_slot r)
       (case md of None \<Rightarrow> 0 | Some r \<Rightarrow> md_updated_slot r)\<rparr>"

definition info_rows ::
  "token_mint_row list \<Rightarrow> token_metadata_row list \<Rightarrow> string list \<Rightarrow> token_info_row list \<Rightarrow> bool" where
  "info_rows mints metas batch result \<longleftrightarrow>
     list_all2 (\<lambda>mint r. \<exists>m md. any_join tm_mint mints mint m \<and> any_join md_mint metas mint md \<and>
       r = info_row_of mint m md) batch result"

section \<open>Facts about the queries\<close>

lemma latest_None_iff: "latest key ver rows k = None \<longleftrightarrow> k \<notin> key ` set rows"
  by (induction rows) (auto split: option.splits)

lemma latest_SomeD:
  "latest key ver rows k = Some r \<Longrightarrow> r \<in> set rows \<and> key r = k \<and> (\<forall>x \<in> set rows. key x = k \<longrightarrow> ver x \<le> ver r)"
proof (induction rows arbitrary: r)
  case (Cons x rows)
  show ?case
  proof (cases "latest key ver rows k")
    case None
    then have "\<forall>y \<in> set rows. key y \<noteq> k" by (auto simp: latest_None_iff)
    then show ?thesis using Cons.prems None by (auto split: if_splits)
  next
    case (Some b)
    from Cons.IH [OF this] Cons.prems Some show ?thesis by (auto split: if_splits dest: order_less_imp_le order_trans)
  qed
qed simp

lemma latest_exists:
  assumes "x \<in> set rows"
  obtains r where "latest key ver rows (key x) = Some r" "r \<in> set rows" "key r = key x" "ver x \<le> ver r"
proof (cases "latest key ver rows (key x)")
  case None
  then show thesis using assms by (simp add: latest_None_iff)
next
  case (Some r)
  then show thesis using latest_SomeD [OF Some] assms that by blast
qed

lemma latest_append:
  "latest key ver (xs @ ys) k = (case latest key ver ys k of
     Some r \<Rightarrow> (case latest key ver xs k of Some q \<Rightarrow> if ver r < ver q then Some q else Some r | None \<Rightarrow> Some r)
   | None \<Rightarrow> latest key ver xs k)"
proof (induction xs)
  case (Cons x xs)
  then show ?case
    by (cases "latest key ver ys k"; cases "latest key ver xs k") (auto dest: less_trans split: if_splits)
qed (simp split: option.split)

lemma final_rows_iff: "r \<in> set (final_rows key ver rows) \<longleftrightarrow> latest key ver rows (key r) = Some r"
proof
  assume "r \<in> set (final_rows key ver rows)"
  then show "latest key ver rows (key r) = Some r"
    using latest_SomeD by (fastforce simp: final_rows_def set_map_filter_iff)
next
  assume r: "latest key ver rows (key r) = Some r"
  then have "r \<in> set rows" using latest_SomeD by fastforce
  with r show "r \<in> set (final_rows key ver rows)" by (auto simp: final_rows_def set_map_filter_iff)
qed

lemma map_key_final_rows: "map key (final_rows key ver rows) = remdups (map key rows)"
proof -
  have k: "map key (List.map_filter (latest key ver rows) ks) = ks" if "set ks \<subseteq> key ` set rows" for ks
    using that
  proof (induction ks)
    case (Cons k ks)
    then obtain r where r: "latest key ver rows k = Some r"
      using latest_None_iff [of key ver rows k] by (cases "latest key ver rows k") auto
    then show ?case using Cons latest_SomeD [OF r] by simp
  qed simp
  show ?thesis unfolding final_rows_def by (rule k) simp
qed

lemma distinct_final_rows: "distinct (map key (final_rows key ver rows))"
  by (simp add: map_key_final_rows)

section \<open>Requests\<close>

text \<open>
  The statements the code sends, with the names of the tables in them.  An \<^verbatim>\<open>INSERT\<close> of rows stands for
  the writes to an inserter and the commit that ends them.
\<close>

type_synonym ('d, 'a) db_op = "('d, string, 'a) op"

record 'd db_ops =
  create_table_as :: "string \<Rightarrow> string \<Rightarrow> ('d, unit) db_op"
  insert_state :: "string \<Rightarrow> token_account_row list \<Rightarrow> ('d, unit) db_op"
  insert_balances :: "string \<Rightarrow> wallet_balance_row list \<Rightarrow> ('d, unit) db_op"
  insert_select_balances :: "string \<Rightarrow> bool \<Rightarrow> string \<Rightarrow> ('d, unit) db_op"
  insert_select_infos :: "string \<Rightarrow> bool \<Rightarrow> string \<Rightarrow> string \<Rightarrow> string list \<Rightarrow> ('d, unit) db_op"
  exchange_tables :: "string \<Rightarrow> string \<Rightarrow> ('d, unit) db_op"
  drop_table :: "string \<Rightarrow> ('d, unit) db_op"
  truncate_table :: "string \<Rightarrow> ('d, unit) db_op"
  select_live_previous :: "string \<Rightarrow> string list \<Rightarrow> ('d, token_account_row list) db_op"
  select_aggregate :: "string \<Rightarrow> token_pair list \<Rightarrow> ('d, (token_pair \<times> u64) list) db_op"
  count_rows :: "string \<Rightarrow> ('d, u64) db_op"
  select_uuids :: "string list \<Rightarrow> ('d, (string \<times> string) list) db_op"
  select_hot_mints :: "('d, string list) db_op"
  set_merges :: "bool \<Rightarrow> string \<Rightarrow> ('d, unit) db_op"
  select_part_counts :: "string \<Rightarrow> ('d, (string \<times> u64) list) db_op"
  select_max_slot :: "string \<Rightarrow> ('d, u64) db_op"

section \<open>What the server promises\<close>

definition only_at :: "string \<Rightarrow> tables \<Rightarrow> tables \<Rightarrow> bool" where
  "only_at t ts ts' \<longleftrightarrow> (\<forall>x. x \<noteq> t \<longrightarrow> ts' x = ts x)"

definition swapped :: "string \<Rightarrow> string \<Rightarrow> tables \<Rightarrow> tables" where
  "swapped a b ts = ts(a := ts b, b := ts a)"

definition table_size :: "table_view \<Rightarrow> nat" where
  "table_size v = length (tv_rows v) + length (tv_balances v) + length (tv_infos v)"

locale clickhouse =
  fixes db :: "'d db_ops"
    and tables :: "'d \<Rightarrow> tables"
  assumes create_ok: "create_table_as db t like d = (Inr u, d') \<Longrightarrow> only_at t (tables d) (tables d') \<and>
        (\<exists>uuid. tables d' t = Some \<lparr>tv_uuid = uuid, tv_rows = [], tv_balances = [], tv_infos = []\<rparr>)"
    and create_err: "create_table_as db t like d = (Inl e, d') \<Longrightarrow> only_at t (tables d) (tables d')"
    and insert_state_ok: "insert_state db t rs d = (Inr u, d') \<Longrightarrow> \<exists>v. tables d t = Some v \<and>
        tables d' = (tables d)(t \<mapsto> v\<lparr>tv_rows := tv_rows v @ map RTokenAccount rs\<rparr>)"
    and insert_state_err: "insert_state db t rs d = (Inl e, d') \<Longrightarrow> only_at t (tables d) (tables d')"
    and insert_balances_ok: "insert_balances db t bs d = (Inr u, d') \<Longrightarrow> \<exists>v. tables d t = Some v \<and>
        tables d' = (tables d)(t \<mapsto> v\<lparr>tv_balances := tv_balances v @ bs\<rparr>)"
    and insert_balances_err: "insert_balances db t bs d = (Inl e, d') \<Longrightarrow> only_at t (tables d) (tables d')"
    and insert_select_balances_ok: "insert_select_balances db t baseline src d = (Inr u, d') \<Longrightarrow>
        \<exists>v bs. tables d t = Some v \<and> rebuilt baseline (rows_of state_rows (tables d) src) bs \<and>
          tables d' = (tables d)(t \<mapsto> v\<lparr>tv_balances := tv_balances v @ bs\<rparr>)"
    and insert_select_balances_err: "insert_select_balances db t baseline src d = (Inl e, d') \<Longrightarrow>
        only_at t (tables d) (tables d')"
    and insert_select_infos_ok: "insert_select_infos db t baseline mt mdt batch d = (Inr u, d') \<Longrightarrow>
        \<exists>v is. tables d t = Some v \<and>
          info_rows (if baseline then rows_of mint_rows (tables d) mt
                     else final_rows tm_mint tm_updated_slot (rows_of mint_rows (tables d) mt))
                    (if baseline then rows_of metadata_rows (tables d) mdt
                     else final_rows md_mint md_updated_slot (rows_of metadata_rows (tables d) mdt)) batch is \<and>
          tables d' = (tables d)(t \<mapsto> v\<lparr>tv_infos := tv_infos v @ is\<rparr>)"
    and insert_select_infos_err: "insert_select_infos db t baseline mt mdt batch d = (Inl e, d') \<Longrightarrow>
        only_at t (tables d) (tables d')"
    and exchange_ok: "exchange_tables db a b d = (Inr u, d') \<Longrightarrow> tables d' = swapped a b (tables d)"
    and exchange_err: "exchange_tables db a b d = (Inl e, d') \<Longrightarrow>
        tables d' = tables d \<or> tables d' = swapped a b (tables d)"
    and drop_only: "only_at t (tables d) (tables (snd (drop_table db t d)))"
    and truncate_ok: "truncate_table db t d = (Inr u, d') \<Longrightarrow> \<exists>v. tables d t = Some v \<and>
        tables d' = (tables d)(t \<mapsto> v\<lparr>tv_rows := [], tv_balances := [], tv_infos := []\<rparr>)"
    and truncate_err: "truncate_table db t d = (Inl e, d') \<Longrightarrow> only_at t (tables d) (tables d')"
    and previous_ok: "select_live_previous db t pks d = (Inr rs, d') \<Longrightarrow>
        set rs = set (live_previous (rows_of state_rows (tables d) t) pks)"
    and previous_reads: "tables (snd (select_live_previous db t pks d)) = tables d"
    and aggregate_ok: "select_aggregate db t ps d = (Inr result, d') \<Longrightarrow>
        aggregated (rows_of state_rows (tables d) t) ps result"
    and aggregate_reads: "tables (snd (select_aggregate db t ps d)) = tables d"
    and count_ok: "count_rows db t d = (Inr n, d') \<Longrightarrow> 
        n = word_of_nat (case tables d t of None \<Rightarrow> 0 | Some v \<Rightarrow> table_size v)"
    and count_reads: "tables (snd (count_rows db t d)) = tables d"
    and uuids_ok: "select_uuids db ts d = (Inr us, d') \<Longrightarrow>
        set us = {(t, u). t \<in> set ts \<and> map_option tv_uuid (tables d t) = Some u}"
    and uuids_reads: "tables (snd (select_uuids db ts d)) = tables d"
    and hot_mints_reads: "tables (snd (select_hot_mints db d)) = tables d"
    and merges_reads: "tables (snd (set_merges db on t d)) = tables d"
    and parts_reads: "tables (snd (select_part_counts db t d)) = tables d"
    and max_slot_ok: "select_max_slot db t d = (Inr n, d') \<Longrightarrow> n = max_updated_slot (rows_of account_rows (tables d) t)"
    and max_slot_reads: "tables (snd (select_max_slot db t d)) = tables d"

section \<open>A server in memory\<close>

text \<open>
  An instance: tables in memory and a schedule of faults, in which a request may be refused or may be
  carried out although its answer is lost.
\<close>

datatype fault = Fine | Refused | Lost

record memory_server =
  ms_tables :: tables
  ms_requests :: nat
  ms_fault :: "nat \<Rightarrow> fault"
  ms_hot_mints :: "string list"

definition mem_request :: "(nat \<Rightarrow> tables \<Rightarrow> (string + 'a) \<times> tables) \<Rightarrow> (memory_server, 'a) db_op" where
  "mem_request f d =
     (let n = ms_requests d; (r, ts) = f n (ms_tables d); d1 = d\<lparr>ms_requests := Suc n\<rparr> in
      case ms_fault d n of
        Fine \<Rightarrow> (r, d1\<lparr>ms_tables := ts\<rparr>)
      | Refused \<Rightarrow> (Inl ''refused'', d1)
      | Lost \<Rightarrow> (Inl ''answer lost'', d1\<lparr>ms_tables := ts\<rparr>))"

definition mem_alter :: "string \<Rightarrow> (tables \<Rightarrow> table_view \<Rightarrow> table_view) \<Rightarrow> (memory_server, unit) db_op" where
  "mem_alter t f = mem_request (\<lambda>_ ts. case ts t of
     None \<Rightarrow> (Inl ''unknown table'', ts) | Some v \<Rightarrow> (Inr (), ts(t \<mapsto> f ts v)))"

definition mem_read :: "(tables \<Rightarrow> 'a) \<Rightarrow> (memory_server, 'a) db_op" where
  "mem_read f = mem_request (\<lambda>_ ts. (Inr (f ts), ts))"

definition mem_aggregate :: "token_account_row list \<Rightarrow> token_pair list \<Rightarrow> (token_pair \<times> u64) list" where
  "mem_aggregate rows pairs =
     (let selected = filter (\<lambda>r. row_pair r \<in> set pairs) rows;
          live = filter is_live (state_final selected)
      in map (\<lambda>p. (p, the (group_sum live p))) (remdups (map row_pair live)))"

definition mem_rebuild :: "bool \<Rightarrow> token_account_row list \<Rightarrow> wallet_balance_row list" where
  "mem_rebuild baseline rows =
     (let src = rebuild_source baseline rows in
      filter (\<lambda>b. 0 < wb_amount_raw b)
        (map (\<lambda>p. \<lparr>wb_mint = fst p, wb_owner = snd p, wb_amount_raw = the (group_sum src p),
             wb_updated_slot = Max (ta_updated_slot ` {r \<in> set src. row_pair r = p})\<rparr>)
           (remdups (map row_pair src))))"

definition mem_infos :: "token_mint_row list \<Rightarrow> token_metadata_row list \<Rightarrow> string list \<Rightarrow> token_info_row list" where
  "mem_infos mints metas batch =
     map (\<lambda>mint. info_row_of mint (find (\<lambda>r. tm_mint r = mint) mints) (find (\<lambda>r. md_mint r = mint) metas)) batch"

definition memory_db :: "memory_server db_ops" where
  "memory_db = \<lparr>
     create_table_as = (\<lambda>t like. mem_request (\<lambda>n ts. (Inr (), ts(t \<mapsto>
       \<lparr>tv_uuid = display_nat n, tv_rows = [], tv_balances = [], tv_infos = []\<rparr>)))),
     insert_state = (\<lambda>t rs. mem_alter t (\<lambda>_ v. v\<lparr>tv_rows := tv_rows v @ map RTokenAccount rs\<rparr>)),
     insert_balances = (\<lambda>t bs. mem_alter t (\<lambda>_ v. v\<lparr>tv_balances := tv_balances v @ bs\<rparr>)),
     insert_select_balances = (\<lambda>t baseline src. mem_alter t (\<lambda>ts v.
       v\<lparr>tv_balances := tv_balances v @ mem_rebuild baseline (rows_of state_rows ts src)\<rparr>)),
     insert_select_infos = (\<lambda>t baseline mt mdt batch. mem_alter t (\<lambda>ts v. v\<lparr>tv_infos := tv_infos v @ mem_infos
       (if baseline then rows_of mint_rows ts mt else final_rows tm_mint tm_updated_slot (rows_of mint_rows ts mt))
       (if baseline then rows_of metadata_rows ts mdt else final_rows md_mint md_updated_slot (rows_of metadata_rows ts mdt))
       batch\<rparr>)),
     exchange_tables = (\<lambda>a b. mem_request (\<lambda>_ ts. (Inr (), swapped a b ts))),
     drop_table = (\<lambda>t. mem_request (\<lambda>_ ts. (Inr (), ts(t := None)))),
     truncate_table = (\<lambda>t. mem_alter t (\<lambda>_ v. v\<lparr>tv_rows := [], tv_balances := [], tv_infos := []\<rparr>)),
     select_live_previous = (\<lambda>t pks. mem_read (\<lambda>ts. live_previous (rows_of state_rows ts t) pks)),
     select_aggregate = (\<lambda>t ps. mem_read (\<lambda>ts. mem_aggregate (rows_of state_rows ts t) ps)),
     count_rows = (\<lambda>t. mem_read (\<lambda>ts. word_of_nat (case ts t of None \<Rightarrow> 0 | Some v \<Rightarrow> table_size v))),
     select_uuids = (\<lambda>ns. mem_read (\<lambda>ts. List.map_filter (\<lambda>t. map_option (\<lambda>v. (t, tv_uuid v)) (ts t)) ns)),
     select_hot_mints = (\<lambda>d. mem_read (\<lambda>_. ms_hot_mints d) d),
     set_merges = (\<lambda>_ _. mem_read (\<lambda>_. ())),
     select_part_counts = (\<lambda>t. mem_read (\<lambda>ts. [(''all'', if ts t = None then 0 else 1)])),
     select_max_slot = (\<lambda>t. mem_read (\<lambda>ts. max_updated_slot (rows_of account_rows ts t)))\<rparr>"

lemma mem_request_cases:
  assumes "mem_request f d = (r, d')"
  shows "ms_tables d' = ms_tables d \<and> (\<exists>e. r = Inl e) \<or>
    ms_tables d' = snd (f (ms_requests d) (ms_tables d)) \<and>
      (r = fst (f (ms_requests d) (ms_tables d)) \<or> (\<exists>e. r = Inl e))"
  using assms by (auto simp: mem_request_def Let_def split: prod.splits fault.splits)

lemma mem_alter_Inr:
  "mem_alter t f d = (Inr u, d') \<Longrightarrow>
   \<exists>v. ms_tables d t = Some v \<and> ms_tables d' = (ms_tables d)(t \<mapsto> f (ms_tables d) v)"
  unfolding mem_alter_def by (drule mem_request_cases) (auto split: option.splits)

lemma mem_alter_Inl: "mem_alter t f d = (Inl e, d') \<Longrightarrow> only_at t (ms_tables d) (ms_tables d')"
  unfolding mem_alter_def by (drule mem_request_cases) (auto simp: only_at_def split: option.splits)

lemma mem_read_Inr: "mem_read f d = (Inr x, d') \<Longrightarrow> x = f (ms_tables d)"
  unfolding mem_read_def by (drule mem_request_cases) auto

lemma mem_read_snd: "ms_tables (snd (mem_read f d)) = ms_tables d"
proof -
  obtain r d' where "mem_read f d = (r, d')" by fastforce
  then show ?thesis using mem_request_cases [of "\<lambda>_ ts. (Inr (f ts), ts)" d r d'] by (auto simp: mem_read_def)
qed

lemma mem_set_Inr: "mem_request (\<lambda>n ts. (Inr x, g n ts)) d = (Inr y, d') \<Longrightarrow>
    ms_tables d' = g (ms_requests d) (ms_tables d)"
  and mem_set_Inl: "mem_request (\<lambda>n ts. (Inr x, g n ts)) d = (Inl e, d') \<Longrightarrow>
    ms_tables d' = ms_tables d \<or> ms_tables d' = g (ms_requests d) (ms_tables d)"
  by (drule mem_request_cases; auto)+

lemma mem_aggregate_ok: "aggregated rows pairs (mem_aggregate rows pairs)"
proof -
  let ?sel = "filter (\<lambda>r. row_pair r \<in> set pairs) rows"
  let ?pick = "\<lambda>k. the (latest ta_pubkey ta_updated_slot ?sel k)"
  let ?live = "filter is_live (state_final ?sel)"
  have "arg_max_choice ?sel ?pick"
    unfolding arg_max_choice_def
  proof
    fix r assume "r \<in> set ?sel"
    then obtain x where "latest ta_pubkey ta_updated_slot ?sel (ta_pubkey r) = Some x" "x \<in> set ?sel"
      "ta_pubkey x = ta_pubkey r" "ta_updated_slot r \<le> ta_updated_slot x"
      by (rule latest_exists)
    then show "?pick (ta_pubkey r) \<in> set ?sel \<and> ta_pubkey (?pick (ta_pubkey r)) = ta_pubkey r \<and>
        ta_updated_slot r \<le> ta_updated_slot (?pick (ta_pubkey r))" by simp
  qed
  moreover have "map ?pick (remdups (map ta_pubkey ?sel)) = state_final ?sel"
  proof -
    have "map (\<lambda>k. the (f k)) ks = List.map_filter f ks" if "\<forall>k \<in> set ks. f k \<noteq> None" for f :: "string \<Rightarrow> token_account_row option" and ks
      using that by (induction ks) auto
    moreover have "\<forall>k \<in> set (remdups (map ta_pubkey ?sel)). latest ta_pubkey ta_updated_slot ?sel k \<noteq> None"
      by (simp add: latest_None_iff)
    ultimately show ?thesis unfolding final_rows_def by blast
  qed
  moreover have "map_of (map (\<lambda>p. (p, the (group_sum rs p))) (remdups (map row_pair rs))) = group_sum rs" for rs
  proof (rule map_of_map_keys)
    show "set (remdups (map row_pair rs)) = dom (group_sum rs)"
      by (force simp: dom_def group_sum_def Let_def filter_empty_conv)
  qed
  ultimately show ?thesis
    unfolding aggregated_def mem_aggregate_def Let_def by (intro exI [of _ ?pick]) simp
qed

lemma mem_rebuild_ok: "rebuilt baseline rows (mem_rebuild baseline rows)"
proof -
  have n: "group_sum rs p = None \<longleftrightarrow> p \<notin> row_pair ` set rs" for rs p
    by (auto simp: group_sum_def Let_def filter_empty_conv)
  show ?thesis
    unfolding rebuilt_def mem_rebuild_def Let_def
  proof (intro conjI ballI allI impI)
    let ?src = "rebuild_source baseline rows"
    let ?bs = "map (\<lambda>p. \<lparr>wb_mint = fst p, wb_owner = snd p, wb_amount_raw = the (group_sum ?src p),
      wb_updated_slot = Max (ta_updated_slot ` {r \<in> set ?src. row_pair r = p})\<rparr>) (remdups (map row_pair ?src))"
    have "map (\<lambda>b. (wb_mint b, wb_owner b)) ?bs = remdups (map row_pair ?src)" by (simp add: o_def)
    then show "distinct (map (\<lambda>b. (wb_mint b, wb_owner b)) (filter (\<lambda>b. 0 < wb_amount_raw b) ?bs))"
      by (intro distinct_map_filter) simp
    fix b assume b: "b \<in> set (filter (\<lambda>b. 0 < wb_amount_raw b) ?bs)"
    then show "0 < wb_amount_raw b" by simp
    show "group_sum ?src (wb_mint b, wb_owner b) = Some (wb_amount_raw b)"
    proof -
      have "(wb_mint b, wb_owner b) \<in> row_pair ` set ?src" "wb_amount_raw b = the (group_sum ?src (wb_mint b, wb_owner b))"
        using b by auto
      then show ?thesis using n [of ?src "(wb_mint b, wb_owner b)"] by (cases "group_sum ?src (wb_mint b, wb_owner b)") auto
    qed
    show "wb_updated_slot b = Max (ta_updated_slot ` {r \<in> set ?src. row_pair r = (wb_mint b, wb_owner b)})"
      using b by auto
  next
    fix p a
    let ?src = "rebuild_source baseline rows"
    assume a: "group_sum ?src p = Some a \<and> 0 < a"
    then have "p \<in> row_pair ` set ?src" using n [of ?src p] by fastforce
    then show "p \<in> (\<lambda>b. (wb_mint b, wb_owner b)) ` set (filter (\<lambda>b. 0 < wb_amount_raw b)
        (map (\<lambda>p. \<lparr>wb_mint = fst p, wb_owner = snd p, wb_amount_raw = the (group_sum ?src p),
           wb_updated_slot = Max (ta_updated_slot ` {r \<in> set ?src. row_pair r = p})\<rparr>) (remdups (map row_pair ?src))))"
      using a by (force simp: image_iff)
  qed
qed

lemma find_SomeD: "find P xs = Some x \<Longrightarrow> x \<in> set xs \<and> P x"
  by (induction xs) (auto split: if_splits)

lemma mem_infos_ok: "info_rows mints metas batch (mem_infos mints metas batch)"
proof -
  have j: "any_join key rows k (find (\<lambda>r. key r = k) rows)" for key and rows :: "'r list" and k
  proof (cases "find (\<lambda>r. key r = k) rows")
    case None
    then have "\<not> (\<exists>x. x \<in> set rows \<and> key x = k)" by (simp only: find_None_iff not_False_eq_True)
    then show ?thesis unfolding any_join_def None by auto
  next
    case (Some r)
    then show ?thesis unfolding any_join_def Some using find_SomeD [OF Some] by simp
  qed
  then show ?thesis unfolding info_rows_def mem_infos_def by (auto simp: list_all2_conv_all_nth intro!: exI j)
qed

lemma memory_ops:
  "create_table_as memory_db t like = mem_request (\<lambda>n ts. (Inr (), ts(t \<mapsto>
     \<lparr>tv_uuid = display_nat n, tv_rows = [], tv_balances = [], tv_infos = []\<rparr>)))"
  "insert_state memory_db t rs = mem_alter t (\<lambda>_ v. v\<lparr>tv_rows := tv_rows v @ map RTokenAccount rs\<rparr>)"
  "insert_balances memory_db t bs = mem_alter t (\<lambda>_ v. v\<lparr>tv_balances := tv_balances v @ bs\<rparr>)"
  "insert_select_balances memory_db t baseline src = mem_alter t (\<lambda>ts v.
     v\<lparr>tv_balances := tv_balances v @ mem_rebuild baseline (rows_of state_rows ts src)\<rparr>)"
  "insert_select_infos memory_db t baseline mt mdt batch = mem_alter t (\<lambda>ts v. v\<lparr>tv_infos := tv_infos v @ mem_infos
     (if baseline then rows_of mint_rows ts mt else final_rows tm_mint tm_updated_slot (rows_of mint_rows ts mt))
     (if baseline then rows_of metadata_rows ts mdt else final_rows md_mint md_updated_slot (rows_of metadata_rows ts mdt))
     batch\<rparr>)"
  "exchange_tables memory_db a b = mem_request (\<lambda>_ ts. (Inr (), swapped a b ts))"
  "drop_table memory_db t = mem_request (\<lambda>_ ts. (Inr (), ts(t := None)))"
  "truncate_table memory_db t = mem_alter t (\<lambda>_ v. v\<lparr>tv_rows := [], tv_balances := [], tv_infos := []\<rparr>)"
  "select_live_previous memory_db t pks = mem_read (\<lambda>ts. live_previous (rows_of state_rows ts t) pks)"
  "select_aggregate memory_db t ps = mem_read (\<lambda>ts. mem_aggregate (rows_of state_rows ts t) ps)"
  "count_rows memory_db t = mem_read (\<lambda>ts. word_of_nat (case ts t of None \<Rightarrow> 0 | Some v \<Rightarrow> table_size v))"
  "select_uuids memory_db ns = mem_read (\<lambda>ts. List.map_filter (\<lambda>t. map_option (\<lambda>v. (t, tv_uuid v)) (ts t)) ns)"
  "select_hot_mints memory_db d = mem_read (\<lambda>_. ms_hot_mints d) d"
  "set_merges memory_db on t = mem_read (\<lambda>_. ())"
  "select_part_counts memory_db t = mem_read (\<lambda>ts. [(''all'', if ts t = None then 0 else 1)])"
  "select_max_slot memory_db t = mem_read (\<lambda>ts. max_updated_slot (rows_of account_rows ts t))"
  by (simp_all add: memory_db_def)

lemma memory_drop: "only_at t (ms_tables d) (ms_tables (snd (drop_table memory_db t d)))"
proof -
  obtain r d' where "mem_request (\<lambda>_ ts. (Inr (), ts(t := None))) d = (r, d')" by fastforce
  then show ?thesis
    using mem_request_cases [of "\<lambda>_ ts. (Inr (), ts(t := None))" d r d'] by (auto simp: memory_ops only_at_def)
qed

interpretation memory: clickhouse memory_db ms_tables
proof (unfold_locales, unfold memory_ops, goal_cases)
  case 1 then show ?case using mem_set_Inr by (fastforce simp: only_at_def)
next
  case 2 then show ?case using mem_set_Inl by (fastforce simp: only_at_def)
next
  case 3 then show ?case by (drule_tac mem_alter_Inr) auto
next
  case 4 then show ?case by (rule mem_alter_Inl)
next
  case 5 then show ?case by (drule_tac mem_alter_Inr) auto
next
  case 6 then show ?case by (rule mem_alter_Inl)
next
  case 7 then show ?case using mem_rebuild_ok by (blast dest: mem_alter_Inr)
next
  case 8 then show ?case by (rule mem_alter_Inl)
next
  case 9 then show ?case using mem_infos_ok by (blast dest: mem_alter_Inr)
next
  case 10 then show ?case by (rule mem_alter_Inl)
next
  case 11 then show ?case by (rule mem_set_Inr)
next
  case 12 then show ?case by (rule mem_set_Inl)
next
  case 13 then show ?case using memory_drop by (simp add: memory_ops)
next
  case 14 then show ?case by (drule_tac mem_alter_Inr) auto
next
  case 15 then show ?case by (rule mem_alter_Inl)
next
  case 16 then show ?case by (drule_tac mem_read_Inr) simp
next
  case 17 then show ?case by (rule mem_read_snd)
next
  case 18 then show ?case by (drule_tac mem_read_Inr) (simp add: mem_aggregate_ok)
next
  case 19 then show ?case by (rule mem_read_snd)
next
  case 20 then show ?case by (rule mem_read_Inr)
next
  case 21 then show ?case by (rule mem_read_snd)
next
  case 22 then show ?case by (drule_tac mem_read_Inr) (fastforce simp: set_map_filter_iff)
next
  case 27 then show ?case by (rule mem_read_Inr)
qed (rule mem_read_snd)+

end
