(* ===== verification/Hot_State.thy ===== *)
theory Hot_State
  imports Clickhouse Worker "HOL-Library.Product_Lexorder"
begin

text \<open>
  The derived state of a table group: delete versions for closed accounts
  (\<^verbatim>\<open>write_close_token_account_tombstones\<close>), the incremental and the full refresh of the wallet
  balances, the token info table, and the end of an import that composes them.  The specification is
  \<open>true_balance\<close>, the balance of a pair over the newest versions of the account state, and
  \<open>served_balance\<close>, what a reader of the balance table sees.
\<close>

section \<open>Close tombstones\<close>

definition CLOSE_TOMBSTONE_BATCH_SIZE :: nat where "CLOSE_TOMBSTONE_BATCH_SIZE = 100000"

definition tombstone_row :: "string \<Rightarrow> token_account_row \<Rightarrow> u64 \<Rightarrow> token_account_row" where
  "tombstone_row pubkey previous slot = \<lparr>ta_pubkey = pubkey, ta_mint = ta_mint previous,
     ta_owner = ta_owner previous, ta_amount = 0, ta_delegate = None, ta_delegated_amount = 0,
     ta_state = 0, ta_close_authority = None, ta_is_deleted = 1, ta_updated_slot = slot\<rparr>"

definition previous_pairs :: "token_account_row list \<Rightarrow> string \<Rightarrow> token_account_row option" where
  "previous_pairs rows pubkey =
     map_of (map (\<lambda>r. (ta_pubkey r, r)) (filter (\<lambda>r. ta_mint r \<noteq> [] \<and> ta_owner r \<noteq> []) rows)) pubkey"

text \<open>The rows of one batch; a pubkey without a candidate is an error.\<close>

fun batch_tombstones ::
  "token_account_row list \<Rightarrow> (string \<times> u64) list \<Rightarrow> string list \<Rightarrow> string + token_account_row list" where
  "batch_tombstones previous closed [] = Inr []"
| "batch_tombstones previous closed (pubkey # pubkeys) =
     (case map_of closed pubkey of
        None \<Rightarrow> Inl (''missing tombstone candidate for '' @ pubkey)
      | Some slot \<Rightarrow>
          try_bind (batch_tombstones previous closed pubkeys) (\<lambda>rows.
            Inr (case previous_pairs previous pubkey of
                None \<Rightarrow> rows
              | Some r \<Rightarrow> if slot \<le> ta_updated_slot r then rows else tombstone_row pubkey r slot # rows)))"

primrec tombstone_batches ::
  "'d db_ops \<Rightarrow> string \<Rightarrow> (string \<times> u64) list \<Rightarrow> string list list \<Rightarrow> u64 \<Rightarrow> token_pair set \<Rightarrow>
    ('d, u64 \<times> token_pair set) db_op" where
  "tombstone_batches db state_table closed [] marked pairs = sreturn (marked, pairs)"
| "tombstone_batches db state_table closed (batch # batches) marked pairs =
     sbind (select_live_previous db state_table batch) (\<lambda>previous.
       case batch_tombstones previous closed batch of
         Inl e \<Rightarrow> sfail e
       | Inr rows \<Rightarrow>
           sthen (insert_state db state_table rows)
             (tombstone_batches db state_table closed batches
               (marked + word_of_nat (length rows)) (pairs \<union> set (map row_pair rows))))"

definition write_close_token_account_tombstones ::
  "'d db_ops \<Rightarrow> table_group \<Rightarrow> (string \<times> u64) list \<Rightarrow> ('d, u64 \<times> token_pair set) db_op" where
  "write_close_token_account_tombstones db g closed =
     (if closed = [] then sreturn (0, {})
      else tombstone_batches db (group_table g ''hot_token_account_state'') closed
        (chunks CLOSE_TOMBSTONE_BATCH_SIZE (sort (map fst closed))) 0 {})"

section \<open>Balances\<close>

definition refresh_wallet_balance_incremental ::
  "'d db_ops \<Rightarrow> string \<Rightarrow> string \<Rightarrow> token_pair set \<Rightarrow> u64 \<Rightarrow> ('d, unit) db_op" where
  "refresh_wallet_balance_incremental db state target affected_pairs snapshot_slot =
     (if affected_pairs = {} then sreturn ()
      else let pairs = sorted_list_of_set affected_pairs in
        sbind (select_aggregate db state pairs) (\<lambda>aggregates.
          insert_balances db target
            (map (\<lambda>p. \<lparr>wb_mint = fst p, wb_owner = snd p,
                   wb_amount_raw = (case map_of aggregates p of None \<Rightarrow> 0 | Some a \<Rightarrow> a),
                   wb_updated_slot = snapshot_slot\<rparr>) pairs)))"

text \<open>\<open>or_else_cleanup m c\<close>: when \<open>m\<close> fails, \<open>c\<close> is tried and its result ignored.\<close>

definition or_else_cleanup :: "('d, 'e, unit) op \<Rightarrow> ('d, 'e, unit) op \<Rightarrow> ('d, 'e, unit) op" where
  "or_else_cleanup m c d =
     (case m d of (Inr u, d') \<Rightarrow> (Inr u, d') | (Inl e, d') \<Rightarrow> (Inl e, snd (c d')))"

definition build_name :: "string \<Rightarrow> string \<Rightarrow> string" where
  "build_name target nonce = target @ ''__build_'' @ nonce"

definition rebuild_wallet_balance_table ::
  "'d db_ops \<Rightarrow> string \<Rightarrow> string \<Rightarrow> bool \<Rightarrow> string \<Rightarrow> ('d, unit) db_op" where
  "rebuild_wallet_balance_table db nonce target state_is_full_baseline state =
     (let temporary = build_name target nonce in
      sthen (create_table_as db temporary target)
        (or_else_cleanup
          (sthen (insert_select_balances db temporary state_is_full_baseline state)
          (sthen (exchange_tables db target temporary)
                 (drop_table db temporary)))
          (drop_table db temporary)))"

section \<open>Token info\<close>

definition rebuild_token_info_table ::
  "'d db_ops \<Rightarrow> string \<Rightarrow> table_group \<Rightarrow> string \<Rightarrow> bool \<Rightarrow> string set \<Rightarrow> ('d, unit) db_op" where
  "rebuild_token_info_table db nonce g target raw_is_full_baseline hot_mints =
     (let temporary = build_name target nonce;
          mint_table = group_table g TOKEN_MINT_TABLE;
          metadata_table = group_table g TOKEN_METADATA_TABLE
      in sthen (create_table_as db temporary target)
        (or_else_cleanup
          (sthen (sfor (insert_select_infos db temporary raw_is_full_baseline mint_table metadata_table)
                   (chunks HOT_TOKEN_INFO_BATCH_SIZE (sorted_list_of_set hot_mints)))
          (sthen (exchange_tables db target temporary)
                 (drop_table db temporary)))
          (drop_table db temporary)))"

section \<open>Refresh and the end of an import\<close>

text \<open>\<open>nonce\<close> gives the temporary tables of a call their names (process id and clock).\<close>

definition refresh_hot_indexes ::
  "'d db_ops \<Rightarrow> string \<Rightarrow> table_group \<Rightarrow> string set \<Rightarrow> snapshot_kind \<Rightarrow> u64 \<Rightarrow> token_pair set \<Rightarrow> bool \<Rightarrow>
    ('d, unit) db_op" where
  "refresh_hot_indexes db nonce g hot_mints kind snapshot_slot affected_pairs state_is_full_baseline =
     (let state = group_table g ''hot_token_account_state'';
          info = group_table g ''hot_token_info'';
          balance = group_table g ''hot_wallet_token_balance''
      in sthen
        (if kind = Incremental
         then refresh_wallet_balance_incremental db state balance affected_pairs snapshot_slot
         else rebuild_wallet_balance_table db nonce balance state_is_full_baseline state)
        (sthen
          (if kind = Full
           then sthen (rebuild_token_info_table db nonce g info state_is_full_baseline hot_mints)
                  (sthen (count_rows db info) (sreturn ()))
           else sreturn ())
        (sthen (count_rows db state) (sthen (count_rows db balance) (sreturn ())))))"

definition load_enabled_hot_mints :: "'d db_ops \<Rightarrow> ('d, string set) db_op" where
  "load_enabled_hot_mints db =
     sbind (select_hot_mints db) (\<lambda>rows.
       if rows = [] then sfail ''hot_token_enabled is empty'' else sreturn (set rows))"

definition rebuild_derived_indexes_from_state ::
  "'d db_ops \<Rightarrow> string \<Rightarrow> table_group \<Rightarrow> ('d, unit) db_op" where
  "rebuild_derived_indexes_from_state db nonce g =
     sbind (load_enabled_hot_mints db) (\<lambda>hot_mints. refresh_hot_indexes db nonce g hot_mints Full 0 {} False)"

text \<open>
  What \<^verbatim>\<open>insert_all_sequential\<close> and \<^verbatim>\<open>insert_all_parallel\<close> do after the sinks have ended: tombstones for
  incremental archives, then the refresh.  The result is the number of accounts marked deleted.
\<close>

definition finish_import ::
  "'d db_ops \<Rightarrow> string \<Rightarrow> table_group \<Rightarrow> string set \<Rightarrow> snapshot_kind \<Rightarrow> u64 \<Rightarrow> (string \<times> u64) list \<Rightarrow>
    token_pair set \<Rightarrow> ('d, u64) db_op" where
  "finish_import db nonce g hot_mints kind snapshot_slot closed affected_pairs =
     sbind (if collect_close_tombstones kind then write_close_token_account_tombstones db g closed
            else sreturn (0, {}))
       (\<lambda>(marked_deleted, tombstone_pairs).
         sthen (refresh_hot_indexes db nonce g hot_mints kind snapshot_slot (affected_pairs \<union> tombstone_pairs)
                 (kind = Full))
           (sreturn marked_deleted))"

section \<open>Specification\<close>

definition true_balance :: "token_account_row list \<Rightarrow> token_pair \<Rightarrow> u64" where
  "true_balance rows p = (case group_sum (filter is_live (state_final rows)) p of None \<Rightarrow> 0 | Some a \<Rightarrow> a)"

abbreviation balance_pair :: "wallet_balance_row \<Rightarrow> token_pair" where
  "balance_pair b \<equiv> (wb_mint b, wb_owner b)"

definition served_balance :: "wallet_balance_row list \<Rightarrow> token_pair \<Rightarrow> u64" where
  "served_balance bs p = (case latest balance_pair wb_updated_slot bs p of None \<Rightarrow> 0 | Some b \<Rightarrow> wb_amount_raw b)"

text \<open>
  \<open>consistent rows\<close>: a token account keeps its mint and owner, and its versions at one slot agree.
\<close>

definition consistent :: "token_account_row list \<Rightarrow> bool" where
  "consistent rows \<longleftrightarrow> (\<forall>r \<in> set rows. \<forall>q \<in> set rows. ta_pubkey r = ta_pubkey q \<longrightarrow>
     row_pair r = row_pair q \<and> (ta_updated_slot r = ta_updated_slot q \<longrightarrow> r = q))"

lemma consistentD:
  assumes "consistent rows" "r \<in> set rows" "q \<in> set rows" "ta_pubkey r = ta_pubkey q"
  shows "row_pair r = row_pair q" and "ta_updated_slot r = ta_updated_slot q \<Longrightarrow> r = q"
  using assms unfolding consistent_def by blast+

section \<open>The balance of a pair is a sum over a set of rows\<close>

definition current_rows :: "token_account_row list \<Rightarrow> token_pair \<Rightarrow> token_account_row set" where
  "current_rows rows p = {r. latest ta_pubkey ta_updated_slot rows (ta_pubkey r) = Some r \<and> is_live r \<and> row_pair r = p}"

lemma group_sum_perm:
  assumes "mset (filter (\<lambda>r. row_pair r = p) xs) = mset (filter (\<lambda>r. row_pair r = p) ys)"
  shows "group_sum xs p = group_sum ys p"
proof -
  have s: "sum_list (map ta_amount zs) = sum_mset (image_mset ta_amount (mset zs))" for zs
    by (simp flip: sum_mset_sum_list)
  have e: "zs = [] \<longleftrightarrow> mset zs = {#}" for zs :: "token_account_row list" by simp
  show ?thesis unfolding group_sum_def Let_def s e assms by (rule refl)
qed

lemma group_sum_sets:
  assumes "distinct xs" "distinct ys"
    and "{r \<in> set xs. row_pair r = p} = {r \<in> set ys. row_pair r = p}"
  shows "group_sum xs p = group_sum ys p"
proof (rule group_sum_perm)
  have "set (filter (\<lambda>r. row_pair r = p) xs) = set (filter (\<lambda>r. row_pair r = p) ys)" using assms(3) by auto
  then show "mset (filter (\<lambda>r. row_pair r = p) xs) = mset (filter (\<lambda>r. row_pair r = p) ys)"
    using assms(1,2) by (metis distinct_filter set_eq_iff_mset_eq_distinct)
qed

lemma distinct_state_final: "distinct (filter P (state_final rows))"
  using distinct_final_rows [of ta_pubkey ta_updated_slot rows] by (simp add: distinct_map distinct_filter)

lemma live_final_rows: "{r \<in> set (filter is_live (state_final rows)). row_pair r = p} = current_rows rows p"
  by (auto simp: current_rows_def final_rows_iff)

lemma true_balance_eqI:
  assumes "current_rows rows p = current_rows rows' p"
  shows "true_balance rows p = true_balance rows' p"
proof -
  have "group_sum (filter is_live (state_final rows)) p = group_sum (filter is_live (state_final rows')) p"
    by (rule group_sum_sets) (simp_all only: distinct_state_final live_final_rows assms)
  then show ?thesis by (simp add: true_balance_def)
qed

lemma latest_appended:
  assumes "k \<notin> key ` set ys"
  shows "latest key ver (xs @ ys) k = latest key ver xs k"
  using assms latest_None_iff [of key ver ys k] by (simp add: latest_append)

lemma current_rows_member:
  "r \<in> current_rows rows p \<Longrightarrow> r \<in> set rows \<and> row_pair r = p"
  using latest_SomeD by (force simp: current_rows_def)

lemma true_balance_untouched:
  assumes "consistent (old @ delta)" "p \<notin> row_pair ` set delta"
  shows "true_balance (old @ delta) p = true_balance old p"
proof (rule true_balance_eqI)
  have "latest ta_pubkey ta_updated_slot (old @ delta) (ta_pubkey r) = latest ta_pubkey ta_updated_slot old (ta_pubkey r)"
    if r: "r \<in> set (old @ delta)" "row_pair r = p" for r
  proof (rule latest_appended)
    show "ta_pubkey r \<notin> ta_pubkey ` set delta"
    proof
      assume "ta_pubkey r \<in> ta_pubkey ` set delta"
      then obtain q where q: "q \<in> set delta" "ta_pubkey q = ta_pubkey r" by auto
      then have "row_pair q = row_pair r" using consistentD(1) [OF assms(1) _ r(1)] by simp
      then show False using q(1) r(2) assms(2) by auto
    qed
  qed
  then show "current_rows (old @ delta) p = current_rows old p"
    using current_rows_member [of _ "old @ delta" p] current_rows_member [of _ old p]
    unfolding current_rows_def by (intro set_eqI) (smt (verit) Un_iff mem_Collect_eq set_append)
qed

lemma consistent_latest:
  assumes "consistent rows" "r \<in> set rows" "\<forall>q \<in> set rows. ta_pubkey q = ta_pubkey r \<longrightarrow> ta_updated_slot q \<le> ta_updated_slot r"
  shows "latest ta_pubkey ta_updated_slot rows (ta_pubkey r) = Some r"
proof -
  obtain x where x: "latest ta_pubkey ta_updated_slot rows (ta_pubkey r) = Some x" "x \<in> set rows"
    "ta_pubkey x = ta_pubkey r" "ta_updated_slot r \<le> ta_updated_slot x"
    using latest_exists [OF assms(2)] by metis
  then have "ta_updated_slot x = ta_updated_slot r" using assms(3) by (simp add: order_antisym)
  then have "x = r" using consistentD(2) [OF assms(1) x(2) assms(2) x(3)] by simp
  then show ?thesis using x(1) by simp
qed

lemma aggregated_true:
  assumes "consistent rows" "aggregated rows pairs result" "p \<in> set pairs"
  shows "(case map_of result p of None \<Rightarrow> 0 | Some a \<Rightarrow> a) = true_balance rows p"
proof -
  let ?sel = "filter (\<lambda>r. row_pair r \<in> set pairs) rows"
  let ?keys = "remdups (map ta_pubkey ?sel)"
  obtain pick where pick: "arg_max_choice ?sel pick" and res: "map_of result = group_sum (filter is_live (map pick ?keys))"
    using assms(2) by (auto simp: aggregated_def Let_def)
  have l: "latest ta_pubkey ta_updated_slot rows (ta_pubkey r) = Some (pick (ta_pubkey r)) \<and>
      ta_pubkey (pick (ta_pubkey r)) = ta_pubkey r" if r: "r \<in> set ?sel" for r
  proof -
    have p: "pick (ta_pubkey r) \<in> set ?sel" "ta_pubkey (pick (ta_pubkey r)) = ta_pubkey r"
      using pick r by (auto simp: arg_max_choice_def)
    have "ta_updated_slot q \<le> ta_updated_slot (pick (ta_pubkey r))" if q: "q \<in> set rows" "ta_pubkey q = ta_pubkey r" for q
    proof -
      have "r \<in> set rows" using r by simp
      then have "row_pair q = row_pair r" using consistentD(1) [OF assms(1) q(1)] q(2) by simp
      then have "q \<in> set ?sel" using r q(1) by simp
      then show ?thesis using pick q(2) by (metis arg_max_choice_def)
    qed
    then show ?thesis using consistent_latest [OF assms(1), of "pick (ta_pubkey r)"] p by simp
  qed
  have "group_sum (filter is_live (map pick ?keys)) p = group_sum (filter is_live (state_final rows)) p"
  proof (rule group_sum_sets)
    have "inj_on pick (set ?keys)"
    proof (rule inj_on_inverseI)
      fix k assume "k \<in> set ?keys"
      then obtain r where "r \<in> set ?sel" "k = ta_pubkey r" by auto
      then show "ta_pubkey (pick k) = k" using l by simp
    qed
    then show "distinct (filter is_live (map pick ?keys))" by (simp add: distinct_map)
    show "distinct (filter is_live (state_final rows))" by (rule distinct_state_final)
    show "{r \<in> set (filter is_live (map pick ?keys)). row_pair r = p} =
        {r \<in> set (filter is_live (state_final rows)). row_pair r = p}"
      unfolding live_final_rows
    proof (intro set_eqI iffI)
      fix x assume x: "x \<in> {r \<in> set (filter is_live (map pick ?keys)). row_pair r = p}"
      then obtain r where "r \<in> set ?sel" "x = pick (ta_pubkey r)" by auto
      then show "x \<in> current_rows rows p" using x l by (auto simp: current_rows_def)
    next
      fix x assume x: "x \<in> current_rows rows p"
      have m: "x \<in> set ?sel" using current_rows_member [OF x] assms(3) by simp
      moreover have "pick (ta_pubkey x) = x" using l [OF m] x by (simp add: current_rows_def)
      ultimately show "x \<in> {r \<in> set (filter is_live (map pick ?keys)). row_pair r = p}"
        using x by (force simp: current_rows_def)
    qed
  qed
  then show ?thesis by (simp add: true_balance_def res)
qed

section \<open>The incremental refresh\<close>

lemma latest_functional:
  assumes "r \<in> set ys" "key r = k" "\<forall>q \<in> set ys. key q = k \<longrightarrow> q = r" "\<forall>x \<in> set xs. key x = k \<longrightarrow> ver x \<le> ver r"
  shows "latest key ver (xs @ ys) k = Some r"
proof -
  have "latest key ver ys k = Some r"
  proof (cases "latest key ver ys k")
    case None
    then show ?thesis using assms(1,2) by (auto simp: latest_None_iff)
  next
    case (Some q)
    then show ?thesis using latest_SomeD [OF Some] assms(3) by simp
  qed
  moreover have "\<not> ver r < ver q" if "latest key ver xs k = Some q" for q
    using latest_SomeD [OF that] assms(4) by (simp add: leD)
  ultimately show ?thesis by (simp add: latest_append split: option.split)
qed

definition refreshed_rows :: "(token_pair \<times> u64) list \<Rightarrow> u64 \<Rightarrow> token_pair list \<Rightarrow> wallet_balance_row list" where
  "refreshed_rows aggregates slot pairs = map (\<lambda>p. \<lparr>wb_mint = fst p, wb_owner = snd p,
     wb_amount_raw = (case map_of aggregates p of None \<Rightarrow> 0 | Some a \<Rightarrow> a), wb_updated_slot = slot\<rparr>) pairs"

lemma served_refreshed:
  assumes "\<forall>b \<in> set bs. wb_updated_slot b \<le> slot"
  shows "served_balance (bs @ refreshed_rows agg slot pairs) p =
    (if p \<in> set pairs then (case map_of agg p of None \<Rightarrow> 0 | Some a \<Rightarrow> a) else served_balance bs p)"
proof (cases "p \<in> set pairs")
  case True
  let ?b = "\<lparr>wb_mint = fst p, wb_owner = snd p,
     wb_amount_raw = (case map_of agg p of None \<Rightarrow> 0 | Some a \<Rightarrow> a), wb_updated_slot = slot\<rparr>"
  have "latest balance_pair wb_updated_slot (bs @ refreshed_rows agg slot pairs) p = Some ?b"
    by (rule latest_functional) (use True assms in \<open>auto simp: refreshed_rows_def\<close>)
  then show ?thesis using True by (simp add: served_balance_def)
next
  case False
  then have "p \<notin> balance_pair ` set (refreshed_rows agg slot pairs)" by (auto simp: refreshed_rows_def)
  from latest_appended [OF this] show ?thesis using False by (simp add: served_balance_def)
qed

context clickhouse
begin

abbreviation balances :: "'d \<Rightarrow> string \<Rightarrow> wallet_balance_row list" where
  "balances d t \<equiv> rows_of tv_balances (tables d) t"

abbreviation states :: "'d \<Rightarrow> string \<Rightarrow> token_account_row list" where
  "states d t \<equiv> rows_of state_rows (tables d) t"

lemma refresh_incremental_spec:
  assumes "refresh_wallet_balance_incremental db state target affected slot d = (Inr u, d')"
    and "finite affected" "state \<noteq> target" "consistent (states d state)"
    and "\<forall>b \<in> set (balances d target). wb_updated_slot b \<le> slot"
  shows "\<forall>p. served_balance (balances d' target) p =
      (if p \<in> affected then true_balance (states d state) p else served_balance (balances d target) p)"
    and "\<forall>b \<in> set (balances d' target). wb_updated_slot b \<le> slot"
    and "only_at target (tables d) (tables d')"
proof -
  have "(\<forall>p. served_balance (balances d' target) p =
      (if p \<in> affected then true_balance (states d state) p else served_balance (balances d target) p)) \<and>
    (\<forall>b \<in> set (balances d' target). wb_updated_slot b \<le> slot) \<and> only_at target (tables d) (tables d')"
  proof (cases "affected = {}")
    case True
    then show ?thesis using assms(1,5) by (simp add: refresh_wallet_balance_incremental_def only_at_def)
  next
    case False
    let ?pairs = "sorted_list_of_set affected"
    obtain agg d1 where agg: "select_aggregate db state ?pairs d = (Inr agg, d1)"
      and ins: "insert_balances db target (refreshed_rows agg slot ?pairs) d1 = (Inr (), d')"
      using assms(1) False
      by (auto simp: refresh_wallet_balance_incremental_def Let_def op_success refreshed_rows_def)
    have same: "tables d1 = tables d" using aggregate_reads [of state ?pairs d] agg by simp
    obtain v where v: "tables d target = Some v"
      "tables d' = (tables d)(target \<mapsto> v\<lparr>tv_balances := tv_balances v @ refreshed_rows agg slot ?pairs\<rparr>)"
      using insert_balances_ok [OF ins] same by auto
    have b: "balances d' target = balances d target @ refreshed_rows agg slot ?pairs" by (simp add: rows_of_def v)
    have "\<forall>p. served_balance (balances d' target) p =
        (if p \<in> affected then true_balance (states d state) p else served_balance (balances d target) p)"
      unfolding b served_refreshed [OF assms(5)]
      using aggregated_true [OF assms(4) aggregate_ok [OF agg]] assms(2) by simp
    moreover have "\<forall>b \<in> set (balances d' target). wb_updated_slot b \<le> slot"
      unfolding b using assms(5) by (auto simp: refreshed_rows_def)
    ultimately show ?thesis by (simp add: v(2) only_at_def)
  qed
  then show "\<forall>p. served_balance (balances d' target) p =
      (if p \<in> affected then true_balance (states d state) p else served_balance (balances d target) p)"
    "\<forall>b \<in> set (balances d' target). wb_updated_slot b \<le> slot" "only_at target (tables d) (tables d')" by blast+
qed

end

section \<open>Tombstones\<close>

lemma batch_tombstones_Inr:
  assumes "set pubkeys \<subseteq> set (map fst closed)"
  shows "batch_tombstones previous closed pubkeys =
    Inr (List.map_filter (\<lambda>k. case previous_pairs previous k of None \<Rightarrow> None
      | Some r \<Rightarrow> if the (map_of closed k) \<le> ta_updated_slot r then None
                  else Some (tombstone_row k r (the (map_of closed k)))) pubkeys)"
  using assms
proof (induction pubkeys)
  case (Cons k ks)
  then obtain v where "map_of closed k = Some v" by (cases "map_of closed k") (auto simp: map_of_eq_None_iff)
  then show ?case using Cons by (simp split: option.split)
qed simp

text \<open>Which row a closed account gets, if any, given the account state.\<close>

definition tombstone_for :: "token_account_row list \<Rightarrow> (string \<times> u64) list \<Rightarrow> string \<Rightarrow> token_account_row option" where
  "tombstone_for rows closed k =
     (case map_of closed k of None \<Rightarrow> None
      | Some slot \<Rightarrow>
          (case latest ta_pubkey ta_updated_slot rows k of None \<Rightarrow> None
           | Some r \<Rightarrow> if ta_is_deleted r = 0 \<and> ta_mint r \<noteq> [] \<and> ta_owner r \<noteq> [] \<and> ta_updated_slot r < slot
                       then Some (tombstone_row k r slot) else None))"

lemma previous_pairs_live:
  assumes "set previous = set (live_previous rows pks)" "k \<in> set pks"
  shows "previous_pairs previous k =
    (case latest ta_pubkey ta_updated_slot rows k of None \<Rightarrow> None
     | Some r \<Rightarrow> if ta_is_deleted r = 0 \<and> ta_mint r \<noteq> [] \<and> ta_owner r \<noteq> [] then Some r else None)"
proof -
  let ?ok = "\<lambda>r. ta_mint r \<noteq> [] \<and> ta_owner r \<noteq> []"
  have mem: "r \<in> set previous \<and> ta_pubkey r = k \<longleftrightarrow>
      latest ta_pubkey ta_updated_slot rows k = Some r \<and> ta_is_deleted r = 0" for r
    using assms(2) latest_SomeD [of ta_pubkey ta_updated_slot rows k r]
    unfolding assms(1) by (auto simp: live_previous_def final_rows_iff)
  show ?thesis
  proof (cases "previous_pairs previous k")
    case None
    then have "r \<notin> set previous \<or> \<not> ?ok r \<or> ta_pubkey r \<noteq> k" for r
      by (force simp: previous_pairs_def map_of_eq_None_iff)
    with mem show ?thesis unfolding None by (auto split: option.split)
  next
    case (Some r)
    then have "r \<in> set previous" "?ok r" "ta_pubkey r = k"
      by (auto simp: previous_pairs_def dest!: map_of_SomeD)
    with mem [of r] show ?thesis unfolding Some by simp
  qed
qed

lemma tombstone_for_pubkey: "tombstone_for rows closed k = Some r \<Longrightarrow> ta_pubkey r = k"
  by (auto simp: tombstone_for_def tombstone_row_def split: option.splits if_splits)

lemma tombstone_for_appended:
  assumes "k \<notin> ta_pubkey ` set extra"
  shows "tombstone_for (rows @ extra) closed k = tombstone_for rows closed k"
  by (simp only: tombstone_for_def latest_appended [of k ta_pubkey extra, OF assms])

lemma map_filter_cong_set: "(\<And>x. x \<in> set xs \<Longrightarrow> f x = g x) \<Longrightarrow> List.map_filter f xs = List.map_filter g xs"
  by (induction xs) (auto split: option.split)

lemma batch_tombstones_spec:
  assumes "set pks \<subseteq> set (map fst closed)" "set previous = set (live_previous rows pks)"
  shows "batch_tombstones previous closed pks = Inr (List.map_filter (tombstone_for rows closed) pks)"
  unfolding batch_tombstones_Inr [OF assms(1)]
proof (rule arg_cong [where f = Inr], rule map_filter_cong_set)
  fix k assume k: "k \<in> set pks"
  then obtain slot where "map_of closed k = Some slot"
    using assms(1) by (cases "map_of closed k") (auto simp: map_of_eq_None_iff)
  then show "(case previous_pairs previous k of None \<Rightarrow> None
      | Some r \<Rightarrow> if the (map_of closed k) \<le> ta_updated_slot r then None
                  else Some (tombstone_row k r (the (map_of closed k)))) = tombstone_for rows closed k"
    using previous_pairs_live [OF assms(2) k] by (auto simp: tombstone_for_def not_le split: option.split)
qed

lemma state_rows_insert: "state_rows (v\<lparr>tv_rows := tv_rows v @ map RTokenAccount rs\<rparr>) = state_rows v @ rs"
proof -
  have "List.map_filter (\<lambda>r. case r of RTokenAccount t \<Rightarrow> Some t | _ \<Rightarrow> None) (map RTokenAccount rs) = rs"
    by (induction rs) simp_all
  then show ?thesis by (simp add: state_rows_def map_filter_append)
qed

definition tombstones_of :: "token_account_row list \<Rightarrow> (string \<times> u64) list \<Rightarrow> string list \<Rightarrow> token_account_row list" where
  "tombstones_of rows closed pks = List.map_filter (tombstone_for rows closed) pks"

lemma tombstones_of_pubkeys: "ta_pubkey ` set (tombstones_of rows closed pks) \<subseteq> set pks"
  by (auto simp: tombstones_of_def set_map_filter_iff dest: tombstone_for_pubkey)

lemma tombstones_of_append: "tombstones_of rows closed (xs @ ys) = tombstones_of rows closed xs @ tombstones_of rows closed ys"
  by (simp add: tombstones_of_def map_filter_append)

lemma tombstones_of_appended:
  assumes "set pks \<inter> ta_pubkey ` set extra = {}"
  shows "tombstones_of (rows @ extra) closed pks = tombstones_of rows closed pks"
  unfolding tombstones_of_def by (rule map_filter_cong_set, rule tombstone_for_appended) (use assms in blast)

context clickhouse
begin

lemma insert_state_states:
  assumes "insert_state db t rs d = (Inr u, d')"
  shows "states d' t = states d t @ rs" and "only_at t (tables d) (tables d')"
proof -
  obtain v where v: "tables d t = Some v" "tables d' = (tables d)(t \<mapsto> v\<lparr>tv_rows := tv_rows v @ map RTokenAccount rs\<rparr>)"
    using insert_state_ok [OF assms] by blast
  show "states d' t = states d t @ rs" by (simp only: rows_of_def v fun_upd_same option.case state_rows_insert)
  show "only_at t (tables d) (tables d')" by (simp add: only_at_def v(2))
qed

lemma tombstone_batches_spec:
  assumes "tombstone_batches db t closed batches marked pairs d = (Inr r, d')"
    and "distinct (concat batches)" "set (concat batches) \<subseteq> set (map fst closed)"
  shows "states d' t = states d t @ tombstones_of (states d t) closed (concat batches) \<and>
    r = (marked + word_of_nat (length (tombstones_of (states d t) closed (concat batches))),
         pairs \<union> row_pair ` set (tombstones_of (states d t) closed (concat batches))) \<and>
    only_at t (tables d) (tables d')"
  using assms
proof (induction batches arbitrary: marked pairs d)
  case Nil
  then show ?case by (simp add: tombstones_of_def only_at_def)
next
  case (Cons batch batches)
  obtain previous d1 where prev: "select_live_previous db t batch d = (Inr previous, d1)"
    and rest: "(case batch_tombstones previous closed batch of Inl e \<Rightarrow> sfail e
       | Inr rows \<Rightarrow> sthen (insert_state db t rows) (tombstone_batches db t closed batches
           (marked + word_of_nat (length rows)) (pairs \<union> set (map row_pair rows)))) d1 = (Inr r, d')"
    using Cons.prems(1) by (auto simp: op_success)
  have same: "tables d1 = tables d" using previous_reads [of t batch d] prev by simp
  let ?rows = "tombstones_of (states d t) closed batch"
  have "batch_tombstones previous closed batch = Inr ?rows"
    unfolding tombstones_of_def
    by (rule batch_tombstones_spec) (use Cons.prems(3) previous_ok [OF prev] in auto)
  then obtain d2 where ins: "insert_state db t ?rows d1 = (Inr (), d2)"
    and loop: "tombstone_batches db t closed batches (marked + word_of_nat (length ?rows))
        (pairs \<union> set (map row_pair ?rows)) d2 = (Inr r, d')"
    using rest by (auto simp: op_success)
  have st: "states d2 t = states d t @ ?rows" using insert_state_states(1) [OF ins] same by simp
  have "tombstones_of (states d2 t) closed (concat batches) = tombstones_of (states d t) closed (concat batches)"
    unfolding st using tombstones_of_pubkeys [of "states d t" closed batch] Cons.prems(2)
    by (intro tombstones_of_appended) auto
  moreover have "only_at t (tables d) (tables d2)" using insert_state_states(2) [OF ins] same by simp
  moreover note Cons.IH [OF loop]
  ultimately show ?case
    using Cons.prems(2,3) by (auto simp: st tombstones_of_append only_at_def add.assoc image_Un Un_assoc)
qed

lemma write_tombstones_spec:
  assumes "write_close_token_account_tombstones db g closed d = (Inr r, d')"
    and "distinct (map fst closed)"
  defines "t \<equiv> group_table g ''hot_token_account_state''"
  defines "tombs \<equiv> tombstones_of (states d t) closed (sort (map fst closed))"
  shows "states d' t = states d t @ tombs \<and> r = (word_of_nat (length tombs), row_pair ` set tombs) \<and>
    only_at t (tables d) (tables d')"
proof (cases "closed = []")
  case True
  then show ?thesis using assms(1) by (simp add: write_close_token_account_tombstones_def tombs_def tombstones_of_def only_at_def)
next
  case False
  have c: "concat (chunks CLOSE_TOMBSTONE_BATCH_SIZE (sort (map fst closed))) = sort (map fst closed)"
    by (rule concat_chunks) (simp add: CLOSE_TOMBSTONE_BATCH_SIZE_def)
  show ?thesis
    using tombstone_batches_spec [of t closed "chunks CLOSE_TOMBSTONE_BATCH_SIZE (sort (map fst closed))" 0 "{}" d r d'] assms(1,2) False
    by (simp add: write_close_token_account_tombstones_def c tombs_def t_def)
qed

end

section \<open>The end of an incremental import\<close>

lemma tombstone_forD:
  assumes "tombstone_for rows closed k = Some r"
  obtains q where "q \<in> set rows" "ta_pubkey q = k" "row_pair r = row_pair q" "ta_pubkey r = k"
    "\<forall>x \<in> set rows. ta_pubkey x = k \<longrightarrow> ta_updated_slot x < ta_updated_slot r"
    "ta_is_deleted r = 1" "map_of closed k = Some (ta_updated_slot r)"
proof -
  obtain q slot where q: "latest ta_pubkey ta_updated_slot rows k = Some q" "map_of closed k = Some slot"
    "ta_updated_slot q < slot" "r = tombstone_row k q slot"
    using assms by (auto simp: tombstone_for_def split: option.splits if_splits)
  note l = latest_SomeD [OF q(1)]
  have "\<forall>x \<in> set rows. ta_pubkey x = k \<longrightarrow> ta_updated_slot x < slot"
    using l q(3) order_le_less_trans by blast
  then have "\<forall>x \<in> set rows. ta_pubkey x = k \<longrightarrow> ta_updated_slot x < ta_updated_slot r"
    by (simp add: q(4) tombstone_row_def)
  then show thesis
    by (intro that [of q]) (use l q in \<open>simp_all add: tombstone_row_def row_pair_def\<close>)
qed

lemma consistent_tombstones:
  assumes "consistent rows"
  shows "consistent (rows @ tombstones_of rows closed ks)"
  unfolding consistent_def
proof (intro ballI impI)
  let ?tombs = "tombstones_of rows closed ks"
  have one: "row_pair r = row_pair q \<and> ta_updated_slot q < ta_updated_slot r"
    if r: "r \<in> set ?tombs" and q: "q \<in> set rows" "ta_pubkey r = ta_pubkey q" for r q
  proof -
    obtain k where "tombstone_for rows closed k = Some r"
      using r unfolding tombstones_of_def set_map_filter_iff by blast
    then obtain x where "x \<in> set rows" "ta_pubkey x = k" "row_pair r = row_pair x" "ta_pubkey r = k"
      "\<forall>x \<in> set rows. ta_pubkey x = k \<longrightarrow> ta_updated_slot x < ta_updated_slot r"
      by (rule tombstone_forD)
    then show ?thesis using consistentD(1) [OF assms(1) _ q(1)] q by metis
  qed
  have two: "r = q" if rq: "r \<in> set ?tombs" "q \<in> set ?tombs" "ta_pubkey r = ta_pubkey q" for r q
  proof -
    obtain k k' where "tombstone_for rows closed k = Some r" "tombstone_for rows closed k' = Some q"
      using rq(1,2) unfolding tombstones_of_def set_map_filter_iff by blast
    moreover have "k = k'" using calculation rq(3) tombstone_for_pubkey by metis
    ultimately show ?thesis by simp
  qed
  fix r q assume rq: "r \<in> set (rows @ ?tombs)" "q \<in> set (rows @ ?tombs)" "ta_pubkey r = ta_pubkey q"
  then consider "r \<in> set rows" "q \<in> set rows" | "r \<in> set ?tombs" "q \<in> set rows"
    | "r \<in> set rows" "q \<in> set ?tombs" | "r \<in> set ?tombs" "q \<in> set ?tombs" by auto
  then show "row_pair r = row_pair q \<and> (ta_updated_slot r = ta_updated_slot q \<longrightarrow> r = q)"
  proof cases
    case 1 then show ?thesis using consistentD [OF assms 1 rq(3)] by blast
  next
    case 2 then show ?thesis using one [OF 2 rq(3)] by auto
  next
    case 3 then show ?thesis using one [OF 3(2,1)] rq(3) by auto
  next
    case 4 then show ?thesis using two [OF 4 rq(3)] by simp
  qed
qed

lemma hot_tables_neq:
  "group_table g ''hot_token_account_state'' \<noteq> group_table g ''hot_wallet_token_balance''"
  "group_table g ''hot_wallet_token_balance'' \<noteq> group_table g ''hot_token_account_state''"
  by (simp_all add: group_table_def)

context clickhouse
begin

lemma finish_incremental_spec:
  assumes run: "finish_import db nonce g hot Incremental slot closed pairs d = (Inr marked, d')"
  defines "st \<equiv> group_table g ''hot_token_account_state''"
    and "bal \<equiv> group_table g ''hot_wallet_token_balance''"
  assumes closed: "distinct (map fst closed)" and fin: "finite pairs"
    and cons: "consistent (states d st)" and delta: "states d st = old @ delta" "row_pair ` set delta \<subseteq> pairs"
    and served: "\<forall>p. served_balance (balances d bal) p = true_balance old p"
    and slots: "\<forall>b \<in> set (balances d bal). wb_updated_slot b \<le> slot"
  shows "(\<forall>p. served_balance (balances d' bal) p = true_balance (states d' st) p) \<and>
    (\<forall>b \<in> set (balances d' bal). wb_updated_slot b \<le> slot) \<and> consistent (states d' st) \<and>
    states d' st = states d st @ tombstones_of (states d st) closed (sort (map fst closed)) \<and>
    marked = word_of_nat (length (tombstones_of (states d st) closed (sort (map fst closed)))) \<and>
    (\<forall>t. t \<noteq> st \<and> t \<noteq> bal \<longrightarrow> tables d' t = tables d t)"
proof -
  let ?tombs = "tombstones_of (states d st) closed (sort (map fst closed))"
  obtain r d1 where w: "write_close_token_account_tombstones db g closed d = (Inr r, d1)"
    and rest: "(case r of (marked_deleted, tombstone_pairs) \<Rightarrow>
       sthen (refresh_hot_indexes db nonce g hot Incremental slot (pairs \<union> tombstone_pairs) False)
         (sreturn marked_deleted)) d1 = (Inr marked, d')"
    using run by (auto simp: finish_import_def op_success)
  have t1: "states d1 st = states d st @ ?tombs" "r = (word_of_nat (length ?tombs), row_pair ` set ?tombs)"
    "only_at st (tables d) (tables d1)"
    using write_tombstones_spec [OF w closed] unfolding st_def by blast+
  obtain d2 where ref: "refresh_wallet_balance_incremental db st bal (pairs \<union> row_pair ` set ?tombs) slot d1 = (Inr (), d2)"
    and d': "tables d' = tables d2" and m: "marked = word_of_nat (length ?tombs)"
    using rest t1(2) count_reads
    by (auto simp: refresh_hot_indexes_def Let_def op_success st_def bal_def) (metis snd_conv)+
  have neq: "st \<noteq> bal" "bal \<noteq> st" unfolding st_def bal_def by (rule hot_tables_neq)+
  have bal1: "balances d1 bal = balances d bal" using t1(3) neq by (simp add: rows_of_def only_at_def)
  have cons1: "consistent (states d1 st)" unfolding t1(1) by (rule consistent_tombstones [OF cons])
  note R = refresh_incremental_spec [OF ref _ neq(1) cons1 slots [folded bal1]]
  have st2: "states d' st = states d1 st"
    using R(3) fin neq by (simp add: rows_of_def only_at_def d')
  have fin': "finite (pairs \<union> row_pair ` set ?tombs)" using fin by simp
  have "served_balance (balances d' bal) p = true_balance (states d' st) p" for p
  proof (cases "p \<in> pairs \<union> row_pair ` set ?tombs")
    case True
    then show ?thesis using R(1) [OF fin', rule_format, of p] by (simp only: st2 if_True flip: d')
  next
    case False
    then have "p \<notin> row_pair ` set (delta @ ?tombs)" using delta(2) by auto
    from true_balance_untouched [OF _ this, of old] cons1
    have "true_balance (states d1 st) p = true_balance old p" by (simp add: t1(1) delta(1))
    then show ?thesis using R(1) [OF fin', rule_format, of p] False served by (simp only: st2 bal1 if_False flip: d')
  qed
  moreover have "\<forall>b \<in> set (balances d' bal). wb_updated_slot b \<le> slot" using R(2) fin by (simp add: d')
  moreover have "\<forall>t. t \<noteq> st \<and> t \<noteq> bal \<longrightarrow> tables d' t = tables d t"
    using R(3) fin t1(3) by (simp add: only_at_def d')
  ultimately show ?thesis using cons1 m by (simp add: st2 t1(1))
qed

end

section \<open>Rebuilding through a temporary table\<close>

lemma build_name_neq: "build_name target nonce \<noteq> target" "target \<noteq> build_name target nonce"
  by (simp_all add: build_name_def)

lemma served_rebuilt:
  assumes "rebuilt baseline rows bs"
  shows "served_balance bs p = (case group_sum (rebuild_source baseline rows) p of None \<Rightarrow> 0 | Some a \<Rightarrow> a)"
proof (cases "latest balance_pair wb_updated_slot bs p")
  case None
  then have "p \<notin> balance_pair ` set bs" by (simp add: latest_None_iff)
  then have "group_sum (rebuild_source baseline rows) p = Some a \<Longrightarrow> \<not> 0 < a" for a
    using assms unfolding rebuilt_def Let_def by blast
  then have "group_sum (rebuild_source baseline rows) p = Some a \<Longrightarrow> a = 0" for a
    by (simp add: word_gt_0)
  then show ?thesis using None by (auto simp: served_balance_def split: option.split)
next
  case (Some b)
  then show ?thesis
    using latest_SomeD [OF Some] assms by (auto simp: served_balance_def rebuilt_def Let_def)
qed

lemma served_rebuilt_final: "rebuilt False rows bs \<Longrightarrow> served_balance bs p = true_balance rows p"
  by (simp add: served_rebuilt rebuild_source_def true_balance_def)

text \<open>A baseline has one version per account, so that the query without \<^verbatim>\<open>FINAL\<close> is exact.\<close>

lemma served_rebuilt_baseline:
  assumes "rebuilt True rows bs" "distinct (map ta_pubkey rows)"
  shows "served_balance bs p = true_balance rows p"
proof -
  have "set (state_final rows) = set rows"
  proof -
    have "latest ta_pubkey ta_updated_slot rows (ta_pubkey r) = Some r" if r: "r \<in> set rows" for r
    proof -
      obtain x where "latest ta_pubkey ta_updated_slot rows (ta_pubkey r) = Some x" "x \<in> set rows" "ta_pubkey x = ta_pubkey r"
        using latest_exists [OF r] by metis
      then show ?thesis using assms(2) r by (metis distinct_map inj_onD)
    qed
    then show ?thesis using latest_SomeD by (fastforce simp: final_rows_iff)
  qed
  then have "group_sum (filter is_live rows) p = group_sum (filter is_live (state_final rows)) p"
    using assms(2) distinct_state_final by (intro group_sum_sets) (auto simp: distinct_map)
  then show ?thesis using served_rebuilt [OF assms(1)] by (simp add: rebuild_source_def true_balance_def)
qed

lemma or_else_cleanup_Inr: "or_else_cleanup m c d = (Inr u, d') \<longleftrightarrow> m d = (Inr u, d')"
  by (auto simp: or_else_cleanup_def split: prod.splits sum.splits)

lemma sthen_cases:
  assumes "sthen m n d = (r, d')"
  obtains (first) e where "m d = (Inl e, d')" "r = Inl e"
  | (both) u d1 where "m d = (Inr u, d1)" "n d1 = (r, d')"
  using assms by (auto simp: sthen_def sbind_def split: prod.splits sum.splits)

lemma only_at_trans: "only_at t a b \<Longrightarrow> only_at t b c \<Longrightarrow> only_at t a c"
  by (simp add: only_at_def)

lemma only_at_refl [simp]: "only_at t a a"
  by (simp add: only_at_def)

text \<open>
  \<open>replaced target temp ts ts' P\<close>: only the target and the temporary table have changed, and the target
  is either as before or a table with \<open>P\<close>.
\<close>

definition replaced :: "string \<Rightarrow> string \<Rightarrow> tables \<Rightarrow> tables \<Rightarrow> (table_view \<Rightarrow> bool) \<Rightarrow> bool" where
  "replaced target temp ts ts' P \<longleftrightarrow> (\<forall>t. t \<noteq> target \<and> t \<noteq> temp \<longrightarrow> ts' t = ts t) \<and>
     (ts' target = ts target \<or> (\<exists>v. ts' target = Some v \<and> P v))"

context clickhouse
begin

text \<open>
  The common shape of both rebuilds: create, fill, exchange, drop; \<open>fill\<close> only touches the temporary
  table, in which a success establishes \<open>P\<close>.
\<close>

lemma build_and_exchange:
  assumes run: "sthen (create_table_as db temp target)
        (or_else_cleanup (sthen fill (sthen (exchange_tables db target temp) (drop_table db temp)))
          (drop_table db temp)) d = (r, d')"
    and neq: "temp \<noteq> target"
    and fill: "\<And>d1 q d2. only_at temp (tables d) (tables d1) \<Longrightarrow>
        (\<exists>uuid. tables d1 temp = Some \<lparr>tv_uuid = uuid, tv_rows = [], tv_balances = [], tv_infos = []\<rparr>) \<Longrightarrow>
        fill d1 = (q, d2) \<Longrightarrow>
        only_at temp (tables d1) (tables d2) \<and> (q = Inr () \<longrightarrow> (\<exists>v. tables d2 temp = Some v \<and> P v))"
  shows "replaced target temp (tables d) (tables d') P \<and> (r = Inr () \<longrightarrow> (\<exists>v. tables d' target = Some v \<and> P v))"
  using run
proof (cases rule: sthen_cases)
  case (first e)
  then show ?thesis using create_err [OF first(1)] neq by (auto simp: replaced_def only_at_def)
next
  case (both u d1)
  note cr = create_ok [OF both(1)]
  let ?body = "sthen fill (sthen (exchange_tables db target temp) (drop_table db temp))"
  obtain q d2 where body: "?body d1 = (q, d2)" by fastforce
  have rd: "r = q" "d' = (case q of Inr _ \<Rightarrow> d2 | Inl _ \<Rightarrow> snd (drop_table db temp d2))"
    using both(2) body by (auto simp: or_else_cleanup_def split: sum.splits)
  have drop: "only_at temp (tables d2) (tables d')"
    using drop_only [of temp d2] by (simp add: rd(2) split: sum.split)
  have "replaced target temp (tables d) (tables d2) P \<and> (q = Inr () \<longrightarrow> (\<exists>v. tables d2 target = Some v \<and> P v))"
    using body
  proof (cases rule: sthen_cases)
    case (first e)
    then show ?thesis using fill [OF _ _ first(1)] cr neq by (auto simp: replaced_def only_at_def)
  next
    case (both u d3)
    obtain v where v: "tables d3 temp = Some v" "P v" and o3: "only_at temp (tables d) (tables d3)"
      using fill [OF _ _ both(1)] cr only_at_trans by (cases u) blast
    show ?thesis
      using both(2)
    proof (cases rule: sthen_cases)
      case (first e)
      then show ?thesis
        using exchange_err [OF first(1)] v o3 neq by (auto simp: replaced_def only_at_def swapped_def)
    next
      case ex: (both u' d4)
      have "tables d4 = swapped target temp (tables d3)" by (rule exchange_ok [OF ex(1)])
      moreover have "only_at temp (tables d4) (tables d2)" using drop_only [of temp d4] ex(2) by simp
      ultimately show ?thesis using v o3 neq by (auto simp: replaced_def only_at_def swapped_def)
    qed
  qed
  then show ?thesis using drop neq by (auto simp: replaced_def only_at_def rd(1))
qed

lemma rebuild_balance_spec:
  assumes "rebuild_wallet_balance_table db nonce target baseline state d = (r, d')"
    and "state \<noteq> build_name target nonce"
  shows "replaced target (build_name target nonce) (tables d) (tables d')
      (\<lambda>v. rebuilt baseline (states d state) (tv_balances v)) \<and>
    (r = Inr () \<longrightarrow> rebuilt baseline (states d state) (balances d' target))"
proof -
  let ?temp = "build_name target nonce"
  have "replaced target ?temp (tables d) (tables d') (\<lambda>v. rebuilt baseline (states d state) (tv_balances v)) \<and>
      (r = Inr () \<longrightarrow> (\<exists>v. tables d' target = Some v \<and> rebuilt baseline (states d state) (tv_balances v)))"
  proof (rule build_and_exchange [OF assms(1) [unfolded rebuild_wallet_balance_table_def Let_def] build_name_neq(1)])
    fix d1 q d2
    assume o: "only_at ?temp (tables d) (tables d1)"
      and e: "\<exists>uuid. tables d1 ?temp = Some \<lparr>tv_uuid = uuid, tv_rows = [], tv_balances = [], tv_infos = []\<rparr>"
      and f: "insert_select_balances db ?temp baseline state d1 = (q, d2)"
    have s: "states d1 state = states d state" using o assms(2) by (simp add: only_at_def rows_of_def)
    show "only_at ?temp (tables d1) (tables d2) \<and>
        (q = Inr () \<longrightarrow> (\<exists>v. tables d2 ?temp = Some v \<and> rebuilt baseline (states d state) (tv_balances v)))"
    proof (cases q)
      case (Inl x)
      then show ?thesis using insert_select_balances_err f by auto
    next
      case (Inr u)
      then show ?thesis using insert_select_balances_ok [of ?temp baseline state d1 u d2] f e s by (auto simp: only_at_def)
    qed
  qed
  then show ?thesis by (auto simp: rows_of_def)
qed

lemma info_batches_done:
  assumes "sfor (insert_select_infos db t baseline mt mdt) batches d = (q, d')"
    and "tables d t = Some v"
  shows "only_at t (tables d) (tables d') \<and>
    (q = Inr () \<longrightarrow> (\<exists>v'. tables d' t = Some v' \<and> tv_rows v' = tv_rows v \<and> tv_balances v' = tv_balances v \<and>
       map ti_mint (tv_infos v') = map ti_mint (tv_infos v) @ concat batches))"
  using assms
proof (induction batches arbitrary: d v)
  case (Cons b batches)
  from Cons.prems(1) have "sthen (insert_select_infos db t baseline mt mdt b)
      (sfor (insert_select_infos db t baseline mt mdt) batches) d = (q, d')" by simp
  then show ?case
  proof (cases rule: sthen_cases)
    case (first e)
    then show ?thesis using insert_select_infos_err by auto
  next
    case (both u d1)
    obtain w infos where w: "tables d t = Some w" "tables d1 = (tables d)(t \<mapsto> w\<lparr>tv_infos := tv_infos w @ infos\<rparr>)"
      and rows: "list_all2 (\<lambda>mint r. ti_mint r = mint) b infos"
    proof -
      obtain w infos where "tables d t = Some w" "tables d1 = (tables d)(t \<mapsto> w\<lparr>tv_infos := tv_infos w @ infos\<rparr>)"
        "info_rows (if baseline then rows_of mint_rows (tables d) mt
             else final_rows tm_mint tm_updated_slot (rows_of mint_rows (tables d) mt))
            (if baseline then rows_of metadata_rows (tables d) mdt
             else final_rows md_mint md_updated_slot (rows_of metadata_rows (tables d) mdt)) b infos"
        using insert_select_infos_ok [OF both(1)] by blast
      moreover from this(3) have "list_all2 (\<lambda>mint r. ti_mint r = mint) b infos"
        unfolding info_rows_def by (rule list_all2_mono) (auto simp: info_row_of_def)
      ultimately show thesis using that by blast
    qed
    have m: "map ti_mint infos = b" using rows by (induction rule: list_all2_induct) simp_all
    have t1: "tables d1 t = Some (v\<lparr>tv_infos := tv_infos v @ infos\<rparr>)" using w Cons.prems(2) by simp
    from Cons.IH [OF both(2) t1] show ?thesis by (auto simp: w(2) m only_at_def)
  qed
qed (auto simp: sreturn_def)

lemma rebuild_token_info_spec:
  assumes "rebuild_token_info_table db nonce g target baseline hot d = (r, d')"
  defines "full \<equiv> \<lambda>v. map ti_mint (tv_infos v) = sorted_list_of_set hot \<and> table_size v = length (tv_infos v)"
  shows "replaced target (build_name target nonce) (tables d) (tables d') full \<and>
    (r = Inr () \<longrightarrow> (\<exists>v. tables d' target = Some v \<and> full v))"
proof -
  let ?temp = "build_name target nonce"
  let ?batches = "chunks HOT_TOKEN_INFO_BATCH_SIZE (sorted_list_of_set hot)"
  have c: "concat ?batches = sorted_list_of_set hot" by (rule concat_chunks) (simp add: HOT_TOKEN_INFO_BATCH_SIZE_def)
  show ?thesis
  proof (rule build_and_exchange [OF assms(1) [unfolded rebuild_token_info_table_def Let_def] build_name_neq(1)])
    fix d1 q d2
    assume "\<exists>uuid. tables d1 ?temp = Some \<lparr>tv_uuid = uuid, tv_rows = [], tv_balances = [], tv_infos = []\<rparr>"
      and f: "sfor (insert_select_infos db ?temp baseline (group_table g TOKEN_MINT_TABLE)
        (group_table g TOKEN_METADATA_TABLE)) ?batches d1 = (q, d2)"
    then obtain v where "tables d1 ?temp = Some v" "tv_infos v = []" "tv_rows v = []" "tv_balances v = []" by auto
    from info_batches_done [OF f this(1)] this(2-)
    show "only_at ?temp (tables d1) (tables d2) \<and> (q = Inr () \<longrightarrow> (\<exists>v. tables d2 ?temp = Some v \<and> full v))"
      by (auto simp: c full_def table_size_def)
  qed
qed

lemma refresh_full_spec:
  assumes run: "refresh_hot_indexes db nonce g hot Full slot pairs baseline d = (r, d')"
  defines "st \<equiv> group_table g ''hot_token_account_state''" and "info \<equiv> group_table g ''hot_token_info''"
    and "bal \<equiv> group_table g ''hot_wallet_token_balance''"
  shows "(\<forall>t. t \<notin> {bal, build_name bal nonce, info, build_name info nonce} \<longrightarrow> tables d' t = tables d t) \<and>
    (tables d' bal = tables d bal \<or> rebuilt baseline (states d st) (balances d' bal)) \<and>
    (tables d' info = tables d info \<or> map ti_mint (rows_of tv_infos (tables d') info) = sorted_list_of_set hot) \<and>
    (r = Inr () \<longrightarrow> rebuilt baseline (states d st) (balances d' bal) \<and>
       map ti_mint (rows_of tv_infos (tables d') info) = sorted_list_of_set hot \<and>
       (\<exists>v. tables d' info = Some v \<and> table_size v = length (tv_infos v)))"
proof -
  have neq: "distinct [st, bal, build_name bal nonce, info, build_name info nonce]"
    unfolding st_def bal_def info_def by (simp add: group_table_def build_name_def)
  have tail: "tables (snd (sthen (count_rows db st) (sthen (count_rows db bal) (sreturn ())) x)) = tables x" for x
    using count_reads by (auto simp: sthen_def sbind_def sreturn_def split: prod.split sum.split) (metis snd_conv)+
  have one: "tables (snd (sthen (count_rows db info) (sreturn ()) x)) = tables x" for x
    using count_reads by (auto simp: sthen_def sbind_def sreturn_def split: prod.split sum.split) (metis snd_conv)+
  have "sthen (rebuild_wallet_balance_table db nonce bal baseline st)
      (sthen (sthen (rebuild_token_info_table db nonce g info baseline hot) (sthen (count_rows db info) (sreturn ())))
      (sthen (count_rows db st) (sthen (count_rows db bal) (sreturn ())))) d = (r, d')"
    using run by (simp add: refresh_hot_indexes_def Let_def st_def bal_def info_def)
  then show ?thesis
  proof (cases rule: sthen_cases)
    case (first e)
    then show ?thesis
      using rebuild_balance_spec [OF first(1)] neq by (auto simp: replaced_def rows_of_def)
  next
    case (both u d1)
    have B: "replaced bal (build_name bal nonce) (tables d) (tables d1) (\<lambda>v. rebuilt baseline (states d st) (tv_balances v))"
      "rebuilt baseline (states d st) (balances d1 bal)"
      using rebuild_balance_spec [OF both(1)] neq by auto
    have "sthen (rebuild_token_info_table db nonce g info baseline hot)
        (sthen (sthen (count_rows db info) (sreturn ())) (sthen (count_rows db st) (sthen (count_rows db bal) (sreturn ()))))
        d1 = (r, d')"
      using both(2) by (simp only: sthen_assoc)
    then obtain r2 d2 where reb: "rebuild_token_info_table db nonce g info baseline hot d1 = (r2, d2)"
      and d': "tables d' = tables d2" and r: "r = Inr () \<longrightarrow> r2 = Inr ()"
    proof (cases rule: sthen_cases)
      case (first e)
      then show thesis using that by blast
    next
      case inf: (both u d2)
      from inf(2) have "tables d' = tables d2"
      proof (cases rule: sthen_cases)
        case (first e)
        then show ?thesis using one [of d2] by simp
      next
        case (both u d3)
        then show ?thesis using one [of d2] tail [of d3] by simp
      qed
      then show thesis using that inf(1) by (cases u) blast
    qed
    have b2: "tables d2 bal = tables d1 bal"
      using rebuild_token_info_spec [OF reb] neq by (auto simp: replaced_def)
    note I = rebuild_token_info_spec [OF reb]
    have ti: "tables d1 info = tables d info"
      using B(1) neq by (auto simp: replaced_def)
    have "\<forall>t. t \<notin> {bal, build_name bal nonce, info, build_name info nonce} \<longrightarrow> tables d' t = tables d t"
      using B(1) I neq by (simp add: replaced_def d')
    moreover have "rebuilt baseline (states d st) (balances d' bal)" using B(2) b2 by (simp add: rows_of_def d')
    moreover have "tables d' info = tables d info \<or> map ti_mint (rows_of tv_infos (tables d') info) = sorted_list_of_set hot"
      using I ti by (auto simp: replaced_def d' rows_of_def)
    moreover have "r = Inr () \<longrightarrow> map ti_mint (rows_of tv_infos (tables d') info) = sorted_list_of_set hot \<and>
        (\<exists>v. tables d' info = Some v \<and> table_size v = length (tv_infos v))"
      using I r by (auto simp: d' rows_of_def)
    ultimately show ?thesis by blast
  qed
qed

end

lemma inj_tombstones: "inj_on ta_pubkey (set (tombstones_of rows closed ks))"
proof (rule inj_onI)
  fix r q assume rq: "r \<in> set (tombstones_of rows closed ks)" "q \<in> set (tombstones_of rows closed ks)"
    "ta_pubkey r = ta_pubkey q"
  then obtain k k' where "tombstone_for rows closed k = Some r" "tombstone_for rows closed k' = Some q"
    unfolding tombstones_of_def set_map_filter_iff by blast
  moreover have "k = k'" using calculation rq(3) tombstone_for_pubkey by metis
  ultimately show "r = q" by simp
qed

section \<open>Properties\<close>

text \<open>C6: The served balances stay exact across incremental imports: if the balance table served the
  balance of every pair before the rows of an import were inserted, and the import's pairs cover those
  rows, then after the import has written its tombstones and refreshed the affected pairs the table
  serves for every pair, affected or not, the balance over the newest versions of all accounts.  The
  account state is extended by exactly the due delete versions, which are counted, stays consistent,
  and no other table changes.\<close>

theorem incremental_import_balances:
  assumes "clickhouse db tables"
    and "finish_import db nonce g hot Incremental slot closed pairs d = (Inr marked, d')"
    and "distinct (map fst closed)" "finite pairs"
    and "consistent (rows_of state_rows (tables d) (group_table g ''hot_token_account_state''))"
    and "rows_of state_rows (tables d) (group_table g ''hot_token_account_state'') = old @ delta"
    and "row_pair ` set delta \<subseteq> pairs"
    and "\<forall>p. served_balance (rows_of tv_balances (tables d) (group_table g ''hot_wallet_token_balance'')) p =
      true_balance old p"
    and "\<forall>b \<in> set (rows_of tv_balances (tables d) (group_table g ''hot_wallet_token_balance'')). wb_updated_slot b \<le> slot"
  shows "(\<forall>p. served_balance (rows_of tv_balances (tables d') (group_table g ''hot_wallet_token_balance'')) p =
      true_balance (rows_of state_rows (tables d') (group_table g ''hot_token_account_state'')) p) \<and>
    consistent (rows_of state_rows (tables d') (group_table g ''hot_token_account_state'')) \<and>
    rows_of state_rows (tables d') (group_table g ''hot_token_account_state'') =
      old @ delta @ tombstones_of (old @ delta) closed (sort (map fst closed)) \<and>
    marked = word_of_nat (length (tombstones_of (old @ delta) closed (sort (map fst closed)))) \<and>
    (\<forall>t. t \<noteq> group_table g ''hot_token_account_state'' \<and> t \<noteq> group_table g ''hot_wallet_token_balance'' \<longrightarrow>
      tables d' t = tables d t)"
  using clickhouse.finish_incremental_spec [OF assms(1,2,3,4,5,6,7,8,9)] unfolding assms(6) append_assoc by blast

text \<open>C10: The incremental refresh and the full recomputation agree: after an incremental import, as
  above, rebuilding the balance table from the account state with \<^verbatim>\<open>FINAL\<close> changes the served balance
  of no pair.\<close>

theorem incremental_equals_rebuild:
  assumes lib: "clickhouse db tables"
    and import: "finish_import db nonce g hot Incremental slot closed pairs d = (Inr marked, d1)"
    and "distinct (map fst closed)" "finite pairs"
    and "consistent (rows_of state_rows (tables d) (group_table g ''hot_token_account_state''))"
    and "rows_of state_rows (tables d) (group_table g ''hot_token_account_state'') = old @ delta"
    and "row_pair ` set delta \<subseteq> pairs"
    and "\<forall>p. served_balance (rows_of tv_balances (tables d) (group_table g ''hot_wallet_token_balance'')) p =
      true_balance old p"
    and "\<forall>b \<in> set (rows_of tv_balances (tables d) (group_table g ''hot_wallet_token_balance'')). wb_updated_slot b \<le> slot"
    and rebuild: "rebuild_wallet_balance_table db nonce' (group_table g ''hot_wallet_token_balance'') False
      (group_table g ''hot_token_account_state'') d1 = (Inr u, d2)"
  shows "served_balance (rows_of tv_balances (tables d2) (group_table g ''hot_wallet_token_balance'')) p =
    served_balance (rows_of tv_balances (tables d1) (group_table g ''hot_wallet_token_balance'')) p"
proof -
  have "group_table g ''hot_token_account_state'' \<noteq> build_name (group_table g ''hot_wallet_token_balance'') nonce'"
    by (simp add: group_table_def build_name_def)
  note rebuilt = clickhouse.rebuild_balance_spec [OF lib rebuild this]
  have "served_balance (rows_of tv_balances (tables d2) (group_table g ''hot_wallet_token_balance'')) p =
      true_balance (rows_of state_rows (tables d1) (group_table g ''hot_token_account_state'')) p"
    by (rule served_rebuilt_final) (use rebuilt in simp)
  moreover have "served_balance (rows_of tv_balances (tables d1) (group_table g ''hot_wallet_token_balance'')) p =
      true_balance (rows_of state_rows (tables d1) (group_table g ''hot_token_account_state'')) p"
    using clickhouse.finish_incremental_spec [OF assms(1-9)] by blast
  ultimately show ?thesis by simp
qed

text \<open>C11: A full refresh is all or nothing per table: whatever request fails, and even if a request
  that is reported failed was carried out, readers of the balance table and of the token info table
  find either the old table or the complete new one; no other table but the temporary ones changes;
  and a refresh that succeeds leaves both tables complete, with one token info row per hot mint.\<close>

theorem full_refresh_atomic:
  assumes "clickhouse db tables"
    and "refresh_hot_indexes db nonce g hot Full slot pairs baseline d = (r, d')"
  shows "(\<forall>t. t \<notin> {group_table g ''hot_wallet_token_balance'', build_name (group_table g ''hot_wallet_token_balance'') nonce,
        group_table g ''hot_token_info'', build_name (group_table g ''hot_token_info'') nonce} \<longrightarrow> tables d' t = tables d t) \<and>
    (tables d' (group_table g ''hot_wallet_token_balance'') = tables d (group_table g ''hot_wallet_token_balance'') \<or>
      rebuilt baseline (rows_of state_rows (tables d) (group_table g ''hot_token_account_state''))
        (rows_of tv_balances (tables d') (group_table g ''hot_wallet_token_balance''))) \<and>
    (tables d' (group_table g ''hot_token_info'') = tables d (group_table g ''hot_token_info'') \<or>
      map ti_mint (rows_of tv_infos (tables d') (group_table g ''hot_token_info'')) = sorted_list_of_set hot) \<and>
    (r = Inr () \<longrightarrow>
      rebuilt baseline (rows_of state_rows (tables d) (group_table g ''hot_token_account_state''))
        (rows_of tv_balances (tables d') (group_table g ''hot_wallet_token_balance'')) \<and>
      map ti_mint (rows_of tv_infos (tables d') (group_table g ''hot_token_info'')) = sorted_list_of_set hot)"
  using clickhouse.refresh_full_spec [OF assms] by (elim conjE) (intro conjI impI, blast+)

text \<open>C12: The delete versions of an import are due and effective: a successful tombstone writer appends
  to the account state at most one row per account; a row is written for exactly the close candidates
  whose newest version is live, names a mint and an owner and is older than the candidate, it keeps the
  mint and owner of that version, and it is the account's newest version afterwards.\<close>

theorem tombstones_exact:
  assumes lib: "clickhouse db tables"
    and run: "write_close_token_account_tombstones db g closed d = (Inr (marked, pairs), d')"
    and closed: "distinct (map fst closed)"
  shows "\<exists>tombs. rows_of state_rows (tables d') (group_table g ''hot_token_account_state'') =
      rows_of state_rows (tables d) (group_table g ''hot_token_account_state'') @ tombs \<and>
    marked = word_of_nat (length tombs) \<and> pairs = row_pair ` set tombs \<and> inj_on ta_pubkey (set tombs) \<and>
    (\<forall>r. r \<in> set tombs \<longleftrightarrow> (\<exists>k slot q. map_of closed k = Some slot \<and>
      latest ta_pubkey ta_updated_slot (rows_of state_rows (tables d) (group_table g ''hot_token_account_state'')) k = Some q \<and>
      ta_is_deleted q = 0 \<and> ta_mint q \<noteq> [] \<and> ta_owner q \<noteq> [] \<and> ta_updated_slot q < slot \<and> r = tombstone_row k q slot)) \<and>
    (\<forall>r \<in> set tombs. latest ta_pubkey ta_updated_slot
      (rows_of state_rows (tables d') (group_table g ''hot_token_account_state'')) (ta_pubkey r) = Some r)"
proof -
  let ?rows = "rows_of state_rows (tables d) (group_table g ''hot_token_account_state'')"
  let ?tombs = "tombstones_of ?rows closed (sort (map fst closed))"
  note w = clickhouse.write_tombstones_spec [OF lib run closed]
  have inj: "inj_on ta_pubkey (set ?tombs)" by (rule inj_tombstones)
  have mem: "r \<in> set ?tombs \<longleftrightarrow> (\<exists>k. tombstone_for ?rows closed k = Some r)" for r
    unfolding tombstones_of_def set_map_filter_iff
    by (auto simp: tombstone_for_def map_of_eq_None_iff [of closed] split: option.splits)
  have newest: "latest ta_pubkey ta_updated_slot (?rows @ ?tombs) (ta_pubkey r) = Some r" if r: "r \<in> set ?tombs" for r
  proof (rule latest_functional [OF r refl])
    show "\<forall>q \<in> set ?tombs. ta_pubkey q = ta_pubkey r \<longrightarrow> q = r" using inj r by (auto dest: inj_onD)
    obtain k where "tombstone_for ?rows closed k = Some r" using mem r by blast
    then show "\<forall>x \<in> set ?rows. ta_pubkey x = ta_pubkey r \<longrightarrow> ta_updated_slot x \<le> ta_updated_slot r"
      by (rule tombstone_forD) (simp add: less_imp_le)
  qed
  have due: "tombstone_for ?rows closed k = Some r \<longleftrightarrow> (\<exists>slot q. map_of closed k = Some slot \<and>
      latest ta_pubkey ta_updated_slot ?rows k = Some q \<and> ta_is_deleted q = 0 \<and> ta_mint q \<noteq> [] \<and>
      ta_owner q \<noteq> [] \<and> ta_updated_slot q < slot \<and> r = tombstone_row k q slot)" for k r
    by (auto simp: tombstone_for_def split: option.split)
  show ?thesis
    using w inj newest by (intro exI [of _ ?tombs]) (simp add: mem due)
qed

section \<open>Witnesses\<close>

definition sample_state_row :: token_account_row where
  "sample_state_row = \<lparr>ta_pubkey = ''acc'', ta_mint = ''m'', ta_owner = ''w'', ta_amount = 5, ta_delegate = None,
     ta_delegated_amount = 0, ta_state = 1, ta_close_authority = None, ta_is_deleted = 0, ta_updated_slot = 3\<rparr>"

definition sample_server :: memory_server where
  "sample_server = \<lparr>ms_tables = [
     ''hot_token_account_state'' \<mapsto>
       \<lparr>tv_uuid = ''s'', tv_rows = [RTokenAccount sample_state_row], tv_balances = [], tv_infos = []\<rparr>,
     ''hot_wallet_token_balance'' \<mapsto> \<lparr>tv_uuid = ''b'', tv_rows = [],
       tv_balances = [\<lparr>wb_mint = ''m'', wb_owner = ''w'', wb_amount_raw = 5, wb_updated_slot = 3\<rparr>], tv_infos = []\<rparr>],
     ms_requests = 0, ms_fault = (\<lambda>_. Fine), ms_hot_mints = [''m'']\<rparr>"

lemmas memory_run = sbind_def sthen_def sreturn_def memory_ops mem_read_def mem_alter_def mem_request_def
  sample_server_def group_table_def Let_def rows_of_def

lemmas tombstone_run = write_close_token_account_tombstones_def CLOSE_TOMBSTONE_BATCH_SIZE_def
  chunks.simps [of _ "[_]"] state_rows_def live_previous_def final_rows_def sample_state_row_def
  tombstone_row_def previous_pairs_def row_pair_def

lemma sample_import_runs:
  "fst (finish_import memory_db ''n'' Active {''m''} Incremental 9 [(''acc'', 7)] {} sample_server) = Inr 1"
  by (simp add: finish_import_def memory_run tombstone_run refresh_hot_indexes_def
      refresh_wallet_balance_incremental_def mem_aggregate_def is_live_def)

lemma sample_import:
  obtains d' where "finish_import memory_db ''n'' Active {''m''} Incremental 9 [(''acc'', 7)] {} sample_server = (Inr 1, d')"
  using sample_import_runs by (metis prod.collapse)

lemma sample_tables:
  "rows_of state_rows (ms_tables sample_server) (group_table Active ''hot_token_account_state'') = [sample_state_row] @ []"
  "rows_of tv_balances (ms_tables sample_server) (group_table Active ''hot_wallet_token_balance'') =
    [\<lparr>wb_mint = ''m'', wb_owner = ''w'', wb_amount_raw = 5, wb_updated_slot = 3\<rparr>]"
  by (simp_all add: rows_of_def sample_server_def group_table_def state_rows_def)

lemma sample_served: "served_balance [\<lparr>wb_mint = ''m'', wb_owner = ''w'', wb_amount_raw = 5, wb_updated_slot = 3\<rparr>] p =
    true_balance [sample_state_row] p"
  by (simp add: served_balance_def true_balance_def final_rows_def sample_state_row_def group_sum_def is_live_def row_pair_def)

lemma incremental_import_balances_witness:
  "\<exists>d'. finish_import memory_db ''n'' Active {''m''} Incremental 9 [(''acc'', 7)] {} sample_server = (Inr 1, d') \<and>
    (\<forall>p. served_balance (rows_of tv_balances (ms_tables d') (group_table Active ''hot_wallet_token_balance'')) p =
      true_balance (rows_of state_rows (ms_tables d') (group_table Active ''hot_token_account_state'')) p)"
proof -
  obtain d' where run: "finish_import memory_db ''n'' Active {''m''} Incremental 9 [(''acc'', 7)] {} sample_server = (Inr 1, d')"
    by (rule sample_import)
  have "consistent ([sample_state_row] @ [])" by (simp add: consistent_def)
  with run incremental_import_balances [OF memory.clickhouse_axioms run _ _ _ sample_tables(1)]
  show ?thesis by (simp add: sample_tables sample_served)
qed

lemma incremental_equals_rebuild_witness:
  "\<exists>d1 d2. finish_import memory_db ''n'' Active {''m''} Incremental 9 [(''acc'', 7)] {} sample_server = (Inr 1, d1) \<and>
    rebuild_wallet_balance_table memory_db ''k'' (group_table Active ''hot_wallet_token_balance'') False
      (group_table Active ''hot_token_account_state'') d1 = (Inr (), d2) \<and>
    served_balance (rows_of tv_balances (ms_tables d2) (group_table Active ''hot_wallet_token_balance'')) (''m'', ''w'') =
    served_balance (rows_of tv_balances (ms_tables d1) (group_table Active ''hot_wallet_token_balance'')) (''m'', ''w'')"
proof -
  let ?run = "finish_import memory_db ''n'' Active {''m''} Incremental 9 [(''acc'', 7)] {} sample_server"
  have run: "?run = (Inr 1, snd ?run)" using sample_import_runs by (metis prod.collapse)
  let ?build = "rebuild_wallet_balance_table memory_db ''k'' (group_table Active ''hot_wallet_token_balance'') False
      (group_table Active ''hot_token_account_state'') (snd ?run)"
  have "fst ?build = Inr ()"
    by (simp add: finish_import_def memory_run tombstone_run refresh_hot_indexes_def or_else_cleanup_def
        refresh_wallet_balance_incremental_def mem_aggregate_def is_live_def rebuild_wallet_balance_table_def build_name_def)
  then have build: "?build = (Inr (), snd ?build)" by (metis prod.collapse)
  have "consistent ([sample_state_row] @ [])" by (simp add: consistent_def)
  with incremental_equals_rebuild [OF memory.clickhouse_axioms run _ _ _ sample_tables(1) _ _ _ build, of "(''m'', ''w'')"]
  show ?thesis using run build by (intro exI [of _ "snd ?run"] exI [of _ "snd ?build"]) (simp add: sample_tables sample_served)
qed

text \<open>The answer to the \<^verbatim>\<open>EXCHANGE\<close> of the balance table is lost.\<close>

lemma full_refresh_atomic_witness:
  "\<exists>d'. refresh_hot_indexes memory_db ''n'' Active {''m''} Full 9 {} True
      (sample_server\<lparr>ms_fault := (\<lambda>n. if n = 2 then Lost else Fine)\<rparr>) = (Inl ''answer lost'', d') \<and>
    ms_tables d' ''hot_token_account_state'' = ms_tables sample_server ''hot_token_account_state''"
proof -
  let ?run = "refresh_hot_indexes memory_db ''n'' Active {''m''} Full 9 {} True
      (sample_server\<lparr>ms_fault := (\<lambda>n. if n = 2 then Lost else Fine)\<rparr>)"
  have "fst ?run = Inl ''answer lost''"
    by (simp add: refresh_hot_indexes_def memory_run rebuild_wallet_balance_table_def or_else_cleanup_def build_name_def)
  then have run: "?run = (Inl ''answer lost'', snd ?run)" by (metis prod.collapse)
  show ?thesis
    using run full_refresh_atomic [OF memory.clickhouse_axioms run]
    by (intro exI [of _ "snd ?run"]) (simp add: group_table_def build_name_def sample_server_def)
qed

lemma tombstones_exact_witness:
  "\<exists>d'. write_close_token_account_tombstones memory_db Active [(''acc'', 7)] sample_server = (Inr (1, {(''m'', ''w'')}), d') \<and>
    (\<exists>tombs. rows_of state_rows (ms_tables d') ''hot_token_account_state'' = [sample_state_row] @ tombs \<and>
      tombstone_row ''acc'' sample_state_row 7 \<in> set tombs)"
proof -
  let ?run = "write_close_token_account_tombstones memory_db Active [(''acc'', 7)] sample_server"
  have "fst ?run = Inr (1, {(''m'', ''w'')})" by (simp add: memory_run tombstone_run)
  then have run: "?run = (Inr (1, {(''m'', ''w'')}), snd ?run)" by (metis prod.collapse)
  obtain tombs where t: "rows_of state_rows (ms_tables (snd ?run)) ''hot_token_account_state'' = [sample_state_row] @ tombs"
    and due: "\<And>r. r \<in> set tombs \<longleftrightarrow> (\<exists>k slot q. map_of [(''acc'', 7)] k = Some slot \<and>
      latest ta_pubkey ta_updated_slot [sample_state_row] k = Some q \<and>
      ta_is_deleted q = 0 \<and> ta_mint q \<noteq> [] \<and> ta_owner q \<noteq> [] \<and> ta_updated_slot q < slot \<and> r = tombstone_row k q slot)"
    using tombstones_exact [OF memory.clickhouse_axioms run] sample_tables(1) by (auto simp: group_table_def)
  have "tombstone_row ''acc'' sample_state_row 7 \<in> set tombs" unfolding due by (simp add: sample_state_row_def)
  then show ?thesis using run t by (intro exI [of _ "snd ?run"]) blast
qed

end
