(* ===== verification/Table_Groups.thy ===== *)
theory Table_Groups
  imports Hot_State
begin

text \<open>
  Administration of the two table groups: the UUIDs that identify the physical tables of a group, the
  exchange of the groups at a cutover, truncation, stopping and starting background merges, the wait for
  them to settle, and the validation of a staging group.  The specification of the exchange is
  \<open>exchanged\<close>: which of the six pairs have changed places.
\<close>

section \<open>Identity and exchange\<close>

definition tables_of_group :: "table_group \<Rightarrow> string list" where
  "tables_of_group g = map (group_table g) GROUP_MERGE_TABLES"

record table_group_identity =
  identity_tables :: "string \<Rightarrow> string option"

fun group_debug :: "table_group \<Rightarrow> string" where
  "group_debug Active = ''Active''"
| "group_debug Backup = ''Backup''"

definition get_table_group_identity :: "'d db_ops \<Rightarrow> table_group \<Rightarrow> ('d, table_group_identity) db_op" where
  "get_table_group_identity db g =
     sbind (select_uuids db (tables_of_group g)) (\<lambda>rows.
       let found = length (remdups (map fst rows)) in
       if found \<noteq> length GROUP_MERGE_TABLES
       then sfail (''expected '' @ display_nat (length GROUP_MERGE_TABLES) @ '' tables in '' @ group_debug g @
                   '' group when capturing UUIDs, found '' @ display_nat found)
       else sreturn \<lparr>identity_tables = map_of (rev rows)\<rparr>)"

definition exchange_pair ::
  "'d db_ops \<Rightarrow> table_group_identity \<Rightarrow> table_group_identity \<Rightarrow> table_group_identity \<Rightarrow> table_group_identity \<Rightarrow>
    string \<Rightarrow> ('d, unit) db_op" where
  "exchange_pair db expected_active expected_backup active_now backup_now base =
     (let active_table = group_table Active base; backup_table = group_table Backup base in
      case identity_tables expected_active active_table of
        None \<Rightarrow> sfail (''cutover checkpoint is missing active UUID for '' @ active_table)
      | Some expected_active_uuid \<Rightarrow>
      case identity_tables expected_backup backup_table of
        None \<Rightarrow> sfail (''cutover checkpoint is missing staging UUID for '' @ backup_table)
      | Some expected_backup_uuid \<Rightarrow>
      case identity_tables active_now active_table of
        None \<Rightarrow> sfail (''current active group is missing '' @ active_table)
      | Some actual_active_uuid \<Rightarrow>
      case identity_tables backup_now backup_table of
        None \<Rightarrow> sfail (''current backup group is missing '' @ backup_table)
      | Some actual_backup_uuid \<Rightarrow>
          if actual_active_uuid = expected_backup_uuid \<and> actual_backup_uuid = expected_active_uuid then sreturn ()
          else if actual_active_uuid \<noteq> expected_active_uuid \<or> actual_backup_uuid \<noteq> expected_backup_uuid
          then sfail (''cannot safely resume cutover for '' @ base)
          else exchange_tables db active_table backup_table)"

definition exchange_table_groups ::
  "'d db_ops \<Rightarrow> table_group_identity \<Rightarrow> table_group_identity \<Rightarrow> ('d, unit) db_op" where
  "exchange_table_groups db expected_active expected_backup =
     sbind (get_table_group_identity db Active) (\<lambda>active_now.
     sbind (get_table_group_identity db Backup) (\<lambda>backup_now.
       sfor (exchange_pair db expected_active expected_backup active_now backup_now) GROUP_MERGE_TABLES))"

section \<open>Truncation, merges, validation\<close>

definition reset_table_group :: "'d db_ops \<Rightarrow> table_group \<Rightarrow> ('d, unit) db_op" where
  "reset_table_group db g = sfor (\<lambda>base. truncate_table db (group_table g base)) (RAW_TABLES @ GROUP_HOT_TABLES)"

text \<open>Every table gets its statement; the first error is reported at the end.\<close>

primrec set_merges_loop ::
  "'d db_ops \<Rightarrow> table_group \<Rightarrow> bool \<Rightarrow> string list \<Rightarrow> string option \<Rightarrow> ('d, unit) db_op" where
  "set_merges_loop db g enabled [] first_error =
     (case first_error of Some err \<Rightarrow> sfail err | None \<Rightarrow> sreturn ())"
| "set_merges_loop db g enabled (base # bases) first_error = (\<lambda>d.
     case set_merges db enabled (group_table g base) d of
       (Inr _, d') \<Rightarrow> set_merges_loop db g enabled bases first_error d'
     | (Inl err, d') \<Rightarrow>
         set_merges_loop db g enabled bases
           (case first_error of
              None \<Rightarrow> Some (''failed to SYSTEM '' @ (if enabled then ''START'' else ''STOP'') @ '' MERGES for '' @
                       group_table g base @ '' (group='' @ group_as_str g @ ''): '' @ err)
            | Some e \<Rightarrow> Some e) d')"

definition set_group_table_merges :: "'d db_ops \<Rightarrow> table_group \<Rightarrow> bool \<Rightarrow> ('d, unit) db_op" where
  "set_group_table_merges db g enabled = set_merges_loop db g enabled GROUP_MERGE_TABLES None"

definition max_raw_account_updated_slot :: "'d db_ops \<Rightarrow> table_group \<Rightarrow> ('d, u64) db_op" where
  "max_raw_account_updated_slot db g = select_max_slot db (group_table g ACCOUNT_TABLE)"

definition validate_staging_group :: "'d db_ops \<Rightarrow> nat \<Rightarrow> ('d, unit) db_op" where
  "validate_staging_group db frozen_hot_mint_count =
     (if frozen_hot_mint_count = 0 then sfail ''staging validation failed: frozen hot-mint set is empty''
      else sbind (count_rows db ''hot_token_info_bak'') (\<lambda>info_rows.
        if info_rows \<noteq> word_of_nat frozen_hot_mint_count
        then sfail (''staging validation failed: hot_token_info_bak rows='' @ display_nat (unat info_rows) @
                    '', but frozen hot-mint count='' @ display_nat frozen_hot_mint_count)
        else sthen (count_rows db ''hot_token_account_state_bak'')
               (sthen (count_rows db ''hot_wallet_token_balance_bak'') (sreturn ()))))"

section \<open>Waiting for the merges to settle\<close>

definition RAW_MERGE_STABILITY_WINDOW :: nat where "RAW_MERGE_STABILITY_WINDOW = 2 * 60"
definition RAW_MERGE_PROBE_RETRY_INTERVAL :: nat where "RAW_MERGE_PROBE_RETRY_INTERVAL = 10"

definition raw_merge_part_total :: "(string \<times> u64) list \<Rightarrow> u64" where
  "raw_merge_part_total parts = sum_list (map snd parts)"

primrec probe_part_totals :: "'d db_ops \<Rightarrow> string list \<Rightarrow> ('d, u64 list) db_op" where
  "probe_part_totals db [] = sreturn []"
| "probe_part_totals db (t # ts) =
     sbind (select_part_counts db t) (\<lambda>parts.
     sbind (probe_part_totals db ts) (\<lambda>totals.
       sreturn (raw_merge_part_total parts # totals)))"

text \<open>
  The loop may run for ever; it returns the state in which it ends.  \<open>sleep\<close> is what happens to the
  server in a number of seconds.
\<close>

partial_function (option) settle_loop ::
  "'d db_ops \<Rightarrow> (nat \<Rightarrow> 'd \<Rightarrow> 'd) \<Rightarrow> string list \<Rightarrow> u64 list option \<Rightarrow> 'd \<Rightarrow> 'd option" where
  "settle_loop db sleep ts previous d =
     (case probe_part_totals db ts d of
        (Inl err, d1) \<Rightarrow> settle_loop db sleep ts previous (sleep RAW_MERGE_PROBE_RETRY_INTERVAL d1)
      | (Inr part_totals, d1) \<Rightarrow>
          if previous = Some part_totals then Some d1
          else settle_loop db sleep ts (Some part_totals) (sleep RAW_MERGE_STABILITY_WINDOW d1))"

definition wait_for_group_merges_to_settle ::
  "'d db_ops \<Rightarrow> (nat \<Rightarrow> 'd \<Rightarrow> 'd) \<Rightarrow> table_group \<Rightarrow> 'd \<Rightarrow> 'd option" where
  "wait_for_group_merges_to_settle db sleep g d = settle_loop db sleep (tables_of_group g) None d"

section \<open>The exchange\<close>

definition exchanged :: "string set \<Rightarrow> tables \<Rightarrow> tables \<Rightarrow> bool" where
  "exchanged S ts0 ts \<longleftrightarrow>
     (\<forall>b \<in> set GROUP_MERGE_TABLES.
        ts (group_table Active b) = ts0 (group_table (if b \<in> S then Backup else Active) b) \<and>
        ts (group_table Backup b) = ts0 (group_table (if b \<in> S then Active else Backup) b)) \<and>
     (\<forall>t. t \<notin> set (tables_of_group Active) \<union> set (tables_of_group Backup) \<longrightarrow> ts t = ts0 t)"

text \<open>The identity of a group names the UUIDs of its six tables.\<close>

definition identifies :: "table_group \<Rightarrow> string list \<Rightarrow> table_group_identity \<Rightarrow> tables \<Rightarrow> bool" where
  "identifies g bases i ts \<longleftrightarrow> (\<forall>b \<in> set bases. \<exists>v. ts (group_table g b) = Some v \<and>
     identity_tables i (group_table g b) = Some (tv_uuid v))"

lemma identifiesD:
  "identifies g bases i ts \<Longrightarrow> b \<in> set bases \<Longrightarrow>
     \<exists>v. ts (group_table g b) = Some v \<and> identity_tables i (group_table g b) = Some (tv_uuid v)"
  by (simp add: identifies_def)

lemma group_table_inj [simp]: "group_table g a = group_table g b \<longleftrightarrow> a = b"
  by (simp add: group_table_def)

lemma groups_disjoint [simp]:
  assumes "a \<in> set GROUP_MERGE_TABLES" "b \<in> set GROUP_MERGE_TABLES"
  shows "group_table Active a \<noteq> group_table Backup b" "group_table Backup b \<noteq> group_table Active a"
  using group_tables_disjoint assms by auto

lemma distinct_group: "distinct GROUP_MERGE_TABLES" "distinct (tables_of_group g)"
proof -
  show d: "distinct GROUP_MERGE_TABLES" by (simp add: GROUP_MERGE_TABLES_def table_name_defs)
  show "distinct (tables_of_group g)" using d by (simp add: tables_of_group_def distinct_map inj_on_def)
qed

lemma in_tables_of_group: "t \<in> set (tables_of_group g) \<longleftrightarrow> (\<exists>b \<in> set GROUP_MERGE_TABLES. t = group_table g b)"
  by (auto simp: tables_of_group_def)

lemma exchanged_swap:
  assumes ex: "exchanged S ts0 ts" and b: "b \<in> set GROUP_MERGE_TABLES" "b \<notin> S"
  shows "exchanged (insert b S) ts0 (swapped (group_table Active b) (group_table Backup b) ts)"
proof -
  have "group_table Active b \<in> set (tables_of_group Active)" "group_table Backup b \<in> set (tables_of_group Backup)"
    using b by (auto simp: in_tables_of_group)
  then show ?thesis using ex b unfolding exchanged_def swapped_def by auto
qed

context clickhouse
begin

lemma identity_spec:
  assumes "get_table_group_identity db g d = (Inr i, d')"
  shows "tables d' = tables d" and "identifies g GROUP_MERGE_TABLES i (tables d)"
proof -
  obtain rows where sel: "select_uuids db (tables_of_group g) d = (Inr rows, d')"
    and len: "length (remdups (map fst rows)) = length GROUP_MERGE_TABLES"
    and i: "i = \<lparr>identity_tables = map_of (rev rows)\<rparr>"
    using assms by (auto simp: get_table_group_identity_def op_success Let_def split: if_splits)
  show "tables d' = tables d" using uuids_reads [of "tables_of_group g" d] sel by simp
  note rows = uuids_ok [OF sel]
  have "set (map fst rows) \<subseteq> set (tables_of_group g)" using rows by auto
  moreover have "card (set (map fst rows)) = card (set (tables_of_group g))"
    using len distinct_card [OF distinct_group(2) [of g]]
    by (simp add: length_remdups_card_conv) (simp add: tables_of_group_def)
  ultimately have all: "set (map fst rows) = set (tables_of_group g)" by (intro card_subset_eq) auto
  show "identifies g GROUP_MERGE_TABLES i (tables d)"
    unfolding identifies_def
  proof
    fix b assume "b \<in> set GROUP_MERGE_TABLES"
    then have "group_table g b \<in> fst ` set (rev rows)" using all by (auto simp: tables_of_group_def)
    then obtain u where u: "map_of (rev rows) (group_table g b) = Some u"
      by (cases "map_of (rev rows) (group_table g b)") (simp_all add: map_of_eq_None_iff)
    then have "(group_table g b, u) \<in> set rows" by (auto dest: map_of_SomeD)
    then have "map_option tv_uuid (tables d (group_table g b)) = Some u" unfolding rows by blast
    then show "\<exists>v. tables d (group_table g b) = Some v \<and> identity_tables i (group_table g b) = Some (tv_uuid v)"
      using u by (auto simp: i)
  qed
qed

lemma exchange_pair_spec:
  assumes run: "exchange_pair db ea eb an bn b d = (r, d')" and b: "b \<in> set GROUP_MERGE_TABLES"
    and ex: "exchanged S ts0 (tables d)"
    and ids: "identifies Active [b] ea ts0" "identifies Backup [b] eb ts0"
      "identifies Active [b] an (tables d)" "identifies Backup [b] bn (tables d)"
    and uuids: "identity_tables ea (group_table Active b) \<noteq> identity_tables eb (group_table Backup b)"
  shows "(exchanged S ts0 (tables d') \<and> tables d' = tables d \<and> (r = Inr () \<longrightarrow> b \<in> S) \<or>
      exchanged (insert b S) ts0 (tables d') \<and>
      tables d' = swapped (group_table Active b) (group_table Backup b) (tables d)) \<and>
    ((\<forall>x y. succeeds P (exchange_tables db x y)) \<and> P d \<longrightarrow> r = Inr () \<and> P d')"
proof -
  obtain va vb wa wb where v: "ts0 (group_table Active b) = Some va" "ts0 (group_table Backup b) = Some vb"
    "tables d (group_table Active b) = Some wa" "tables d (group_table Backup b) = Some wb"
    and i: "identity_tables ea (group_table Active b) = Some (tv_uuid va)"
    "identity_tables eb (group_table Backup b) = Some (tv_uuid vb)"
    "identity_tables an (group_table Active b) = Some (tv_uuid wa)"
    "identity_tables bn (group_table Backup b) = Some (tv_uuid wb)"
    using ids by (auto simp: identifies_def)
  have w: "wa = (if b \<in> S then vb else va)" "wb = (if b \<in> S then va else vb)"
    using ex b v by (auto simp: exchanged_def split: if_splits)
  show ?thesis
  proof (cases "b \<in> S")
    case True
    then have "r = Inr ()" "d' = d" using run i w by (simp_all add: exchange_pair_def Let_def sreturn_def)
    then show ?thesis using ex True by simp
  next
    case False
    then have x: "exchange_tables db (group_table Active b) (group_table Backup b) d = (r, d')"
      using run i w uuids by (simp add: exchange_pair_def Let_def)
    then have "tables d' = tables d \<and> r \<noteq> Inr () \<or> tables d' = swapped (group_table Active b) (group_table Backup b) (tables d)"
      using exchange_ok exchange_err by (cases r) fastforce+
    moreover have "r = Inr () \<and> P d'" if "succeeds P (exchange_tables db (group_table Active b) (group_table Backup b))" "P d"
      using succeedsD [OF that x] by simp
    ultimately show ?thesis using exchanged_swap [OF ex b False] ex by (elim disjE) auto
  qed
qed

lemma exchange_loop_spec:
  assumes "sfor (exchange_pair db ea eb an bn) bases d = (r, d')"
    and "distinct bases" "set bases \<subseteq> set GROUP_MERGE_TABLES" "exchanged S ts0 (tables d)"
    and ids: "identifies Active GROUP_MERGE_TABLES ea ts0" "identifies Backup GROUP_MERGE_TABLES eb ts0"
    and "identifies Active bases an (tables d)" "identifies Backup bases bn (tables d)"
    and uuids: "\<forall>b \<in> set GROUP_MERGE_TABLES. identity_tables ea (group_table Active b) \<noteq> identity_tables eb (group_table Backup b)"
  shows "\<exists>S'. S \<subseteq> S' \<and> exchanged S' ts0 (tables d') \<and> (r = Inr () \<longrightarrow> set bases \<subseteq> S') \<and>
    ((\<forall>x y. succeeds P (exchange_tables db x y)) \<and> P d \<longrightarrow> r = Inr () \<and> P d')"
  using assms(1-4,7,8)
proof (induction bases arbitrary: d S)
  case Nil
  then show ?case by (auto simp: sreturn_def)
next
  case (Cons b bases)
  have one: "identifies Active [b] ea ts0" "identifies Backup [b] eb ts0"
    "identifies Active [b] an (tables d)" "identifies Backup [b] bn (tables d)"
    using ids Cons.prems by (simp_all add: identifies_def)
  have b: "b \<in> set GROUP_MERGE_TABLES" using Cons.prems(3) by simp
  note pair = exchange_pair_spec [OF _ b Cons.prems(4) one bspec [OF uuids b]]
  from Cons.prems(1) have "sthen (exchange_pair db ea eb an bn b) (sfor (exchange_pair db ea eb an bn) bases) d = (r, d')"
    by simp
  then show ?case
  proof (cases rule: sthen_cases)
    case (first e)
    have "\<not> ((\<forall>x y. succeeds P (exchange_tables db x y)) \<and> P d)" using pair [OF first(1), of P] by auto
    moreover have "exchanged S ts0 (tables d') \<or> exchanged (insert b S) ts0 (tables d')" using pair [OF first(1)] by blast
    ultimately show ?thesis using first(2) by (auto intro: exI [of _ S] exI [of _ "insert b S"])
  next
    case (both u d1)
    obtain S1 where S1: "S \<subseteq> S1" "b \<in> S1" "exchanged S1 ts0 (tables d1)"
      and same: "\<forall>t. t \<noteq> group_table Active b \<and> t \<noteq> group_table Backup b \<longrightarrow> tables d1 t = tables d t"
    proof -
      from pair [OF both(1)]
      consider "exchanged S ts0 (tables d1)" "tables d1 = tables d" "b \<in> S"
        | "exchanged (insert b S) ts0 (tables d1)"
          "tables d1 = swapped (group_table Active b) (group_table Backup b) (tables d)"
        by (cases u) blast
      then show thesis
        by cases (rule that [of S], simp_all, rule that [of "insert b S"], auto simp: swapped_def)
    qed
    have "tables d1 (group_table g b') = tables d (group_table g b')" if "b' \<in> set bases" for g b'
    proof -
      have "b' \<noteq> b" "b' \<in> set GROUP_MERGE_TABLES" using that Cons.prems(2,3) by auto
      then have "group_table g b' \<noteq> group_table Active b" "group_table g b' \<noteq> group_table Backup b"
        using b by (cases g; simp)+
      then show ?thesis using same by simp
    qed
    then have id1: "identifies Active bases an (tables d1)" "identifies Backup bases bn (tables d1)"
      using Cons.prems(5,6) by (simp_all add: identifies_def)
    have "distinct bases" "set bases \<subseteq> set GROUP_MERGE_TABLES" using Cons.prems(2,3) by simp_all
    from Cons.IH [OF both(2) this S1(3) id1]
    obtain S' where "S1 \<subseteq> S'" "exchanged S' ts0 (tables d')" "r = Inr () \<longrightarrow> set bases \<subseteq> S'"
      "(\<forall>x y. succeeds P (exchange_tables db x y)) \<and> P d1 \<longrightarrow> r = Inr () \<and> P d'" by blast
    then show ?thesis using S1 pair [OF both(1), of P] by (intro exI [of _ S']) auto
  qed
qed

end


text \<open>Any number of exchange attempts, each of which may fail anywhere.\<close>

inductive attempts :: "'d db_ops \<Rightarrow> table_group_identity \<Rightarrow> table_group_identity \<Rightarrow> 'd \<Rightarrow> 'd \<Rightarrow> bool"
  for db ea eb d where
  no_attempt: "attempts db ea eb d d"
| attempt: "attempts db ea eb d d1 \<Longrightarrow> exchange_table_groups db ea eb d1 = (r, d2) \<Longrightarrow> attempts db ea eb d d2"

context clickhouse
begin

lemma exchange_groups_spec:
  assumes run: "exchange_table_groups db ea eb d = (r, d')" and ex: "exchanged S ts0 (tables d)"
    and ids: "identifies Active GROUP_MERGE_TABLES ea ts0" "identifies Backup GROUP_MERGE_TABLES eb ts0"
    and uuids: "\<forall>b \<in> set GROUP_MERGE_TABLES. identity_tables ea (group_table Active b) \<noteq> identity_tables eb (group_table Backup b)"
  shows "\<exists>S'. S \<subseteq> S' \<and> exchanged S' ts0 (tables d') \<and> (r = Inr () \<longrightarrow> set GROUP_MERGE_TABLES \<subseteq> S') \<and>
    ((\<forall>x y. succeeds P (exchange_tables db x y)) \<and> (\<forall>g. succeeds P (get_table_group_identity db g)) \<and> P d \<longrightarrow>
      r = Inr ())"
proof -
  have keep: "tables (snd (get_table_group_identity db g x)) = tables x" for g x
    using uuids_reads [of "tables_of_group g" x]
    by (auto simp: get_table_group_identity_def sbind_def sreturn_def sfail_def Let_def split: prod.split sum.split)
  show ?thesis
  proof (cases "get_table_group_identity db Active d")
    case A: (Pair ra d1)
    have p1: "P d1" if "\<forall>g. succeeds P (get_table_group_identity db g)" "P d"
      using succeedsD [OF spec [OF that(1)] that(2) A] by simp
    have t1: "tables d1 = tables d" using keep [of Active d] A by simp
    show ?thesis
    proof (cases ra)
      case (Inl e)
      then have "r = Inl e" "d' = d1" using run A by (simp_all add: exchange_table_groups_def sbind_def)
      moreover have "\<not> (succeeds P (get_table_group_identity db Active) \<and> P d)"
        using succeedsD [of P _ d ra d1] A Inl by auto
      ultimately show ?thesis using ex t1 by (intro exI [of _ S]) auto
    next
      case an: (Inr an)
      show ?thesis
      proof (cases "get_table_group_identity db Backup d1")
        case B: (Pair rb d2)
        have p2: "P d2" if "\<forall>g. succeeds P (get_table_group_identity db g)" "P d"
          using succeedsD [OF spec [OF that(1)] p1 [OF that] B] by simp
        have t2: "tables d2 = tables d" using keep [of Backup d1] B t1 by simp
        show ?thesis
        proof (cases rb)
          case (Inl e)
          then have "r = Inl e" "d' = d2" using run A an B by (simp_all add: exchange_table_groups_def sbind_def)
          moreover have "\<not> (succeeds P (get_table_group_identity db Backup) \<and> P d1)"
            using succeedsD [of P _ d1 rb d2] B Inl by auto
          ultimately show ?thesis using ex t2 p1 by (intro exI [of _ S]) auto
        next
          case bn: (Inr bn)
          have "sfor (exchange_pair db ea eb an bn) GROUP_MERGE_TABLES d2 = (r, d')"
            using run A an B bn by (simp add: exchange_table_groups_def sbind_def)
          moreover have "identifies Active GROUP_MERGE_TABLES an (tables d2)"
            using identity_spec(2) [OF A [unfolded an]] t2 by simp
          moreover have "identifies Backup GROUP_MERGE_TABLES bn (tables d2)"
            using identity_spec(2) [OF B [unfolded bn]] t1 t2 by simp
          moreover have "exchanged S ts0 (tables d2)" using ex t2 by simp
          ultimately obtain S' where "S \<subseteq> S'" "exchanged S' ts0 (tables d')" "r = Inr () \<longrightarrow> set GROUP_MERGE_TABLES \<subseteq> S'"
            "(\<forall>x y. succeeds P (exchange_tables db x y)) \<and> P d2 \<longrightarrow> r = Inr () \<and> P d'"
            using exchange_loop_spec [OF _ distinct_group(1) subset_refl _ ids _ _ uuids, of an bn d2 r d' S P] by blast
          then show ?thesis using p2 by (intro exI [of _ S'] conjI) simp_all
        qed
      qed
    qed
  qed
qed

lemma attempts_spec:
  assumes "attempts db ea eb d0 d" and start: "exchanged {} ts0 (tables d0)"
    and ids: "identifies Active GROUP_MERGE_TABLES ea ts0" "identifies Backup GROUP_MERGE_TABLES eb ts0"
    and uuids: "\<forall>b \<in> set GROUP_MERGE_TABLES. identity_tables ea (group_table Active b) \<noteq> identity_tables eb (group_table Backup b)"
  shows "\<exists>S. exchanged S ts0 (tables d)"
  using assms(1)
proof induction
  case no_attempt
  then show ?case using start by blast
next
  case (attempt d1 r d2)
  then obtain S where "exchanged S ts0 (tables d1)" by blast
  from exchange_groups_spec [OF attempt.hyps(2) this ids uuids, where P = "\<lambda>_. False"]
  obtain S' where "exchanged S' ts0 (tables d2)" by blast
  then show ?case by (rule exI)
qed

lemma identity_uuid:
  assumes "identifies g GROUP_MERGE_TABLES i ts" "b \<in> set GROUP_MERGE_TABLES"
  shows "identity_tables i (group_table g b) = map_option tv_uuid (ts (group_table g b))"
  using identifiesD [OF assms] by auto

end

section \<open>Truncation\<close>

context clickhouse
begin

lemma truncate_loop:
  assumes "sfor (\<lambda>base. truncate_table db (group_table g base)) bases d = (r, d')"
  shows "(\<forall>t. t \<notin> group_table g ` set bases \<longrightarrow> tables d' t = tables d t) \<and>
    (r = Inr () \<longrightarrow> (\<forall>b \<in> set bases. \<exists>v v'. tables d (group_table g b) = Some v \<and>
       tables d' (group_table g b) = Some v' \<and> tv_uuid v' = tv_uuid v \<and> table_size v' = 0))"
  using assms
proof (induction bases arbitrary: d)
  case Nil
  then show ?case by (simp add: sreturn_def)
next
  case (Cons b bases)
  from Cons.prems have "sthen (truncate_table db (group_table g b))
      (sfor (\<lambda>base. truncate_table db (group_table g base)) bases) d = (r, d')" by simp
  then show ?case
  proof (cases rule: sthen_cases)
    case (first e)
    then show ?thesis using truncate_err [OF first(1)] by (simp add: only_at_def)
  next
    case (both u d1)
    obtain v where v: "tables d (group_table g b) = Some v"
      "tables d1 = (tables d)(group_table g b \<mapsto> v\<lparr>tv_rows := [], tv_balances := [], tv_infos := []\<rparr>)"
      using truncate_ok [OF both(1)] by blast
    note IH = Cons.IH [OF both(2)]
    show ?thesis
    proof (intro conjI impI ballI)
      show "\<forall>t. t \<notin> group_table g ` set (b # bases) \<longrightarrow> tables d' t = tables d t"
        using IH by (simp add: v(2))
      fix x assume r: "r = Inr ()" and x: "x \<in> set (b # bases)"
      show "\<exists>v v'. tables d (group_table g x) = Some v \<and> tables d' (group_table g x) = Some v' \<and>
          tv_uuid v' = tv_uuid v \<and> table_size v' = 0"
      proof (cases "x \<in> set bases")
        case True
        then obtain w w' where "tables d1 (group_table g x) = Some w" "tables d' (group_table g x) = Some w'"
          "tv_uuid w' = tv_uuid w" "table_size w' = 0"
          using IH r by blast
        then show ?thesis using v by (cases "x = b") auto
      next
        case False
        then have "x = b" "group_table g b \<notin> group_table g ` set bases" using x by auto
        moreover from this have "tables d' (group_table g b) = tables d1 (group_table g b)" using IH by blast
        ultimately show ?thesis using v by (simp add: table_size_def)
      qed
    qed
  qed
qed

end

section \<open>Settling\<close>

text \<open>What the world does between two probes of the loop, whatever the loop decides.\<close>

definition settle_world :: "'d db_ops \<Rightarrow> (nat \<Rightarrow> 'd \<Rightarrow> 'd) \<Rightarrow> string list \<Rightarrow> 'd \<Rightarrow> 'd" where
  "settle_world db sleep ts d =
     (case probe_part_totals db ts d of
        (Inl e, d1) \<Rightarrow> sleep RAW_MERGE_PROBE_RETRY_INTERVAL d1
      | (Inr totals, d1) \<Rightarrow> sleep RAW_MERGE_STABILITY_WINDOW d1)"

lemma settle_now:
  assumes step: "\<And>d. I d \<Longrightarrow> \<exists>d1. probe_part_totals db ts d = (Inr T, d1) \<and> I (sleep RAW_MERGE_STABILITY_WINDOW d1)"
    and "I d"
  shows "\<exists>d'. settle_loop db sleep ts previous d = Some d'"
proof -
  have again: "\<exists>d'. settle_loop db sleep ts (Some T) d = Some d'" if "I d" for d
    using step [OF that] by (subst settle_loop.simps) auto
  obtain d1 where "probe_part_totals db ts d = (Inr T, d1)" "I (sleep RAW_MERGE_STABILITY_WINDOW d1)"
    using step [OF assms(2)] by blast
  then show ?thesis using again by (subst settle_loop.simps) auto
qed

lemma settle_later:
  assumes step: "\<And>d. I d \<Longrightarrow> \<exists>d1. probe_part_totals db ts d = (Inr T, d1) \<and> I (sleep RAW_MERGE_STABILITY_WINDOW d1)"
    and "I ((settle_world db sleep ts ^^ n) d)"
  shows "\<exists>d'. settle_loop db sleep ts previous d = Some d'"
  using assms(2)
proof (induction n arbitrary: previous d)
  case 0
  then have "I d" by simp
  with step show ?case by (rule settle_now [where I = I])
next
  case (Suc n)
  have next_d: "I ((settle_world db sleep ts ^^ n) (settle_world db sleep ts d))"
    using Suc.prems by (simp add: funpow_swap1)
  show ?case
  proof (cases "probe_part_totals db ts d")
    case (Pair q d1)
    have "settle_world db sleep ts d = sleep (case q of Inl _ \<Rightarrow> RAW_MERGE_PROBE_RETRY_INTERVAL
        | Inr _ \<Rightarrow> RAW_MERGE_STABILITY_WINDOW) d1"
      by (simp add: settle_world_def Pair split: sum.split)
    then have "\<exists>d'. settle_loop db sleep ts p (sleep (case q of Inl _ \<Rightarrow> RAW_MERGE_PROBE_RETRY_INTERVAL
        | Inr _ \<Rightarrow> RAW_MERGE_STABILITY_WINDOW) d1) = Some d'" for p
      using Suc.IH next_d by simp
    then show ?thesis by (subst settle_loop.simps) (cases q; auto simp: Pair)
  qed
qed

text \<open>\<open>answered\<close>: after some unanswered probes, one is answered with the totals.\<close>

definition answered :: "'d db_ops \<Rightarrow> (nat \<Rightarrow> 'd \<Rightarrow> 'd) \<Rightarrow> string list \<Rightarrow> u64 list \<Rightarrow> 'd \<Rightarrow> 'd \<Rightarrow> bool" where
  "answered db sleep ts totals d d' \<longleftrightarrow> (\<exists>n. probe_part_totals db ts ((settle_world db sleep ts ^^ n) d) = (Inr totals, d') \<and>
     (\<forall>m < n. isl (fst (probe_part_totals db ts ((settle_world db sleep ts ^^ m) d)))))"

lemma answered_now: "probe_part_totals db ts d = (Inr totals, d') \<Longrightarrow> answered db sleep ts totals d d'"
  unfolding answered_def by (intro exI [of _ 0]) simp

lemma answered_later:
  assumes "probe_part_totals db ts d = (Inl e, d1)"
    and "answered db sleep ts totals (sleep RAW_MERGE_PROBE_RETRY_INTERVAL d1) d'"
  shows "answered db sleep ts totals d d'"
proof -
  have w: "settle_world db sleep ts d = sleep RAW_MERGE_PROBE_RETRY_INTERVAL d1"
    using assms(1) by (simp add: settle_world_def)
  obtain n where n: "probe_part_totals db ts ((settle_world db sleep ts ^^ n) (settle_world db sleep ts d)) = (Inr totals, d')"
    "\<forall>m < n. isl (fst (probe_part_totals db ts ((settle_world db sleep ts ^^ m) (settle_world db sleep ts d))))"
    using assms(2) unfolding w answered_def by blast
  have "isl (fst (probe_part_totals db ts ((settle_world db sleep ts ^^ m) d)))" if "m < Suc n" for m
    using that n(2) assms(1) by (cases m) (simp_all add: funpow_swap1)
  with n(1) show ?thesis unfolding answered_def by (intro exI [of _ "Suc n"]) (simp add: funpow_swap1)
qed

lemma settle_ends:
  assumes "settle_loop db sleep ts previous d = Some d'"
  shows "(\<exists>totals. previous = Some totals \<and> answered db sleep ts totals d d') \<or>
    (\<exists>totals d0 d1. probe_part_totals db ts d0 = (Inr totals, d1) \<and>
       answered db sleep ts totals (sleep RAW_MERGE_STABILITY_WINDOW d1) d')"
proof (rule settle_loop.raw_induct [where P = "\<lambda>db sleep ts previous d d'.
      (\<exists>totals. previous = Some totals \<and> answered db sleep ts totals d d') \<or>
      (\<exists>totals d0 d1. probe_part_totals db ts d0 = (Inr totals, d1) \<and>
         answered db sleep ts totals (sleep RAW_MERGE_STABILITY_WINDOW d1) d')", OF _ assms])
  fix f :: "'a db_ops \<Rightarrow> (nat \<Rightarrow> 'a \<Rightarrow> 'a) \<Rightarrow> string list \<Rightarrow> u64 list option \<Rightarrow> 'a \<Rightarrow> 'a option"
    and db :: "'a db_ops" and sleep :: "nat \<Rightarrow> 'a \<Rightarrow> 'a" and ts previous d d'
  let ?ends = "\<lambda>previous d. (\<exists>totals. previous = Some totals \<and> answered db sleep ts totals d d') \<or>
      (\<exists>totals d0 d1. probe_part_totals db ts d0 = (Inr totals, d1) \<and>
         answered db sleep ts totals (sleep RAW_MERGE_STABILITY_WINDOW d1) d')"
  assume IH: "\<And>db sleep ts previous d d'. f db sleep ts previous d = Some d' \<Longrightarrow>
      (\<exists>totals. previous = Some totals \<and> answered db sleep ts totals d d') \<or>
      (\<exists>totals d0 d1. probe_part_totals db ts d0 = (Inr totals, d1) \<and>
         answered db sleep ts totals (sleep RAW_MERGE_STABILITY_WINDOW d1) d')"
    and eq: "(case probe_part_totals db ts d of
        (Inl err, d1) \<Rightarrow> f db sleep ts previous (sleep RAW_MERGE_PROBE_RETRY_INTERVAL d1)
      | (Inr part_totals, d1) \<Rightarrow>
          if previous = Some part_totals then Some d1
          else f db sleep ts (Some part_totals) (sleep RAW_MERGE_STABILITY_WINDOW d1)) = Some d'"
  show "?ends previous d"
  proof (cases "probe_part_totals db ts d")
    case (Pair q d1)
    show ?thesis
    proof (cases q)
      case (Inl e)
      then have "f db sleep ts previous (sleep RAW_MERGE_PROBE_RETRY_INTERVAL d1) = Some d'" using eq Pair by simp
      note ih = IH [OF this] and later = answered_later [OF Pair [unfolded Inl]]
      from ih show ?thesis
      proof (rule disjE)
        assume "\<exists>totals. previous = Some totals \<and>
          answered db sleep ts totals (sleep RAW_MERGE_PROBE_RETRY_INTERVAL d1) d'"
        then show ?thesis using later by (elim exE conjE) (intro disjI1 exI conjI)
      qed (rule disjI2)
    next
      case (Inr totals)
      show ?thesis
      proof (cases "previous = Some totals")
        case True
        then have "d' = d1" using eq Pair Inr by simp
        then have "answered db sleep ts totals d d'" using Pair Inr by (simp add: answered_now)
        then show ?thesis using True by simp
      next
        case False
        then have "f db sleep ts (Some totals) (sleep RAW_MERGE_STABILITY_WINDOW d1) = Some d'" using eq Pair Inr by simp
        note ih = IH [OF this]
        have "\<exists>totals d0 d1. probe_part_totals db ts d0 = (Inr totals, d1) \<and>
            answered db sleep ts totals (sleep RAW_MERGE_STABILITY_WINDOW d1) d'"
          if "answered db sleep ts totals (sleep RAW_MERGE_STABILITY_WINDOW d1) d'"
          using that Pair [unfolded Inr] by (intro exI conjI)
        then show ?thesis using ih by (elim disjE) simp_all
      qed
    qed
  qed
qed


section \<open>Properties\<close>

text \<open>C7: A cutover can be interrupted anywhere and resumed: once the UUIDs of both groups are
  checkpointed, after any number of attempts, each of which may stop at any request, every pair of
  tables is either untouched or exchanged exactly once with respect to the checkpoint and nothing else
  has changed; an attempt that succeeds has exchanged all six pairs; and an attempt never gives up while
  the server answers.\<close>

theorem cutover_resumable:
  assumes lib: "clickhouse db tables"
    and active: "get_table_group_identity db Active d = (Inr ea, d1)"
    and backup: "get_table_group_identity db Backup d1 = (Inr eb, d2)"
    and uuids: "\<forall>b \<in> set GROUP_MERGE_TABLES. map_option tv_uuid (tables d (group_table Active b)) \<noteq>
      map_option tv_uuid (tables d (group_table Backup b))"
    and before: "attempts db ea eb d2 d3"
    and run: "exchange_table_groups db ea eb d3 = (r, d4)"
  shows "(\<exists>S. exchanged S (tables d) (tables d4)) \<and>
    (r = Inr () \<longrightarrow> exchanged (set GROUP_MERGE_TABLES) (tables d) (tables d4)) \<and>
    (\<forall>P. (\<forall>x y. succeeds P (exchange_tables db x y)) \<and> (\<forall>g. succeeds P (get_table_group_identity db g)) \<and> P d3 \<longrightarrow>
      r = Inr ())"
proof -
  note A = clickhouse.identity_spec [OF lib active]
  note B = clickhouse.identity_spec [OF lib backup, unfolded A(1)]
  have u: "\<forall>b \<in> set GROUP_MERGE_TABLES. identity_tables ea (group_table Active b) \<noteq> identity_tables eb (group_table Backup b)"
  proof
    fix b assume b: "b \<in> set GROUP_MERGE_TABLES"
    show "identity_tables ea (group_table Active b) \<noteq> identity_tables eb (group_table Backup b)"
      unfolding clickhouse.identity_uuid [OF lib A(2) b] clickhouse.identity_uuid [OF lib B(2) b]
      by (rule bspec [OF uuids b])
  qed
  have start: "exchanged {} (tables d) (tables d2)" using A(1) B(1) by (simp add: exchanged_def)
  obtain S where S: "exchanged S (tables d) (tables d3)"
    using clickhouse.attempts_spec [OF lib before start A(2) B(2) u] by blast
  have whole: "exchanged (set GROUP_MERGE_TABLES) (tables d) (tables d4)"
    if "exchanged S' (tables d) (tables d4)" "set GROUP_MERGE_TABLES \<subseteq> S'" for S'
    using that unfolding exchanged_def by (simp add: subset_iff)
  note E = clickhouse.exchange_groups_spec [OF lib run S A(2) B(2) u]
  obtain S' where S': "exchanged S' (tables d) (tables d4)" "r = Inr () \<longrightarrow> set GROUP_MERGE_TABLES \<subseteq> S'"
    using E [of "\<lambda>_. False"] by blast
  show ?thesis
  proof (intro conjI allI)
    show "\<exists>S. exchanged S (tables d) (tables d4)" using S'(1) by blast
    show "r = Inr () \<longrightarrow> exchanged (set GROUP_MERGE_TABLES) (tables d) (tables d4)"
      using whole S' by blast
    show "(\<forall>x y. succeeds P (exchange_tables db x y)) \<and> (\<forall>g. succeeds P (get_table_group_identity db g)) \<and> P d3 \<longrightarrow>
        r = Inr ()" for P
      using E [of P] by blast
  qed
qed

text \<open>C24: Waiting for the merges ends: if at some time the server has begun to answer every probe of the
  group with the same part totals, the wait returns; and it returns only when two answered probes, at
  least one stability window apart with only unanswered ones between them, gave the same totals.\<close>

theorem merges_settle:
  assumes "\<And>d. I d \<Longrightarrow> \<exists>d1. probe_part_totals db (tables_of_group g) d = (Inr T, d1) \<and>
      I (sleep RAW_MERGE_STABILITY_WINDOW d1)"
    and "I ((settle_world db sleep (tables_of_group g) ^^ n) d)"
  shows "\<exists>d'. wait_for_group_merges_to_settle db sleep g d = Some d' \<and>
    (\<exists>totals d0 d1. probe_part_totals db (tables_of_group g) d0 = (Inr totals, d1) \<and>
       answered db sleep (tables_of_group g) totals (sleep RAW_MERGE_STABILITY_WINDOW d1) d')"
proof -
  obtain d' where "settle_loop db sleep (tables_of_group g) None d = Some d'"
    using settle_later [of I, OF assms] by blast
  from this settle_ends [OF this] show ?thesis unfolding wait_for_group_merges_to_settle_def by auto
qed


text \<open>C26: Truncating a group leaves every table outside the group as it is, whichever request fails; on
  success its six tables are empty and still the same tables.\<close>

theorem reset_group_isolated:
  assumes "clickhouse db tables" and "reset_table_group db g d = (r, d')"
  shows "(\<forall>t. t \<notin> set (tables_of_group g) \<longrightarrow> tables d' t = tables d t) \<and>
    (r = Inr () \<longrightarrow> (\<forall>t \<in> set (tables_of_group g). \<exists>v v'. tables d t = Some v \<and> tables d' t = Some v' \<and>
       tv_uuid v' = tv_uuid v \<and> table_size v' = 0))"
proof -
  have "set (tables_of_group g) = group_table g ` set (RAW_TABLES @ GROUP_HOT_TABLES)"
    using group_tables_raw_hot by (simp add: tables_of_group_def)
  then show ?thesis
    using clickhouse.truncate_loop [OF assms(1) assms(2) [unfolded reset_table_group_def]] by simp
qed

text \<open>C25: A staging generation that the full refresh has completed for the frozen mint set passes the
  validation before the cutover, and the validation rejects an empty frozen set or any other number of
  token info rows, in a server that answers the counts.\<close>

theorem staging_validation:
  assumes lib: "clickhouse db tables"
    and run: "refresh_hot_indexes db nonce Backup hot Full slot pairs baseline d = (Inr (), d1)"
    and hot: "finite hot"
    and answers: "\<And>t. succeeds P (count_rows db t)" "P d1"
  shows "(fst (validate_staging_group db n d1) = Inr ()) \<longleftrightarrow>
    n \<noteq> 0 \<and> (word_of_nat n :: u64) = word_of_nat (card hot)"
proof -
  obtain v where v: "tables d1 ''hot_token_info_bak'' = Some v" "table_size v = card hot"
  proof -
    obtain v where v: "tables d1 (group_table Backup ''hot_token_info'') = Some v" "table_size v = length (tv_infos v)"
      "map ti_mint (rows_of tv_infos (tables d1) (group_table Backup ''hot_token_info'')) = sorted_list_of_set hot"
      using clickhouse.refresh_full_spec [OF lib run] by blast
    then have "length (tv_infos v) = card hot"
      using length_map [of ti_mint "tv_infos v"] by (simp add: rows_of_def)
    then show thesis using that [of v] v(1,2) by (simp add: group_table_def)
  qed
  obtain m x where m: "count_rows db ''hot_token_info_bak'' d1 = (Inr m, x)" and x: "P x"
    using answers by (rule succeedsE)
  have size: "m = word_of_nat (card hot)" using clickhouse.count_ok [OF lib m] v by simp
  have tail: "fst (sthen (count_rows db s) (sthen (count_rows db t) (sreturn ())) x) = Inr ()" for s t
  proof -
    have "succeeds P (sthen (count_rows db s) (sthen (count_rows db t) (sreturn ())))"
      by (intro succeeds_sthen answers succeeds_sreturn)
    then obtain u y where "sthen (count_rows db s) (sthen (count_rows db t) (sreturn ())) x = (Inr u, y)"
      using x by (rule succeedsE)
    then show ?thesis by simp
  qed
  show ?thesis
    using m size tail by (auto simp: validate_staging_group_def sbind_def sfail_def)
qed

section \<open>Witnesses\<close>

text \<open>Twelve tables with their names as UUIDs; the second exchange request of the run is refused.\<close>

definition sample_groups :: memory_server where
  "sample_groups = \<lparr>ms_tables = (\<lambda>t. if t \<in> set (tables_of_group Active) \<union> set (tables_of_group Backup)
       then Some \<lparr>tv_uuid = t, tv_rows = [], tv_balances = [], tv_infos = []\<rparr> else None),
     ms_requests = 0, ms_fault = (\<lambda>n. if n = 5 then Refused else Fine), ms_hot_mints = []\<rparr>"

definition sample_identity :: "table_group \<Rightarrow> table_group_identity" where
  "sample_identity g = \<lparr>identity_tables = map_of (rev (map (\<lambda>t. (t, t)) (tables_of_group g)))\<rparr>"

lemma sample_tables_of_group:
  "tables_of_group Active = [''raw_account'', ''raw_token_mint'', ''raw_token_metadata'',
     ''hot_token_account_state'', ''hot_token_info'', ''hot_wallet_token_balance'']"
  "tables_of_group Backup = [''raw_account_bak'', ''raw_token_mint_bak'', ''raw_token_metadata_bak'',
     ''hot_token_account_state_bak'', ''hot_token_info_bak'', ''hot_wallet_token_balance_bak'']"
  by (simp_all add: tables_of_group_def GROUP_MERGE_TABLES_def group_table_def table_name_defs)

lemmas sample_groups_run = memory_run sample_groups_def sample_tables_of_group GROUP_MERGE_TABLES_def
  table_name_defs get_table_group_identity_def sample_identity_def

lemma sample_identity_run:
  "get_table_group_identity memory_db Active sample_groups = (Inr (sample_identity Active), sample_groups\<lparr>ms_requests := 1\<rparr>)"
  "get_table_group_identity memory_db Backup (sample_groups\<lparr>ms_requests := 1\<rparr>) =
     (Inr (sample_identity Backup), sample_groups\<lparr>ms_requests := 2\<rparr>)"
  by (simp_all add: sample_groups_run)

lemma sample_exchange_run:
  "fst (exchange_table_groups memory_db (sample_identity Active) (sample_identity Backup) (sample_groups\<lparr>ms_requests := 2\<rparr>)) =
     Inl ''refused''"
  by (simp add: exchange_table_groups_def exchange_pair_def swapped_def sample_groups_run)

lemma sample_exchange_again:
  "fst (exchange_table_groups memory_db (sample_identity Active) (sample_identity Backup)
     (snd (exchange_table_groups memory_db (sample_identity Active) (sample_identity Backup)
       (sample_groups\<lparr>ms_requests := 2\<rparr>)))) = Inr ()"
  by (simp add: exchange_table_groups_def exchange_pair_def swapped_def sample_groups_run)

lemma cutover_resumable_witness:
  "\<exists>d3 d4. attempts memory_db (sample_identity Active) (sample_identity Backup) (sample_groups\<lparr>ms_requests := 2\<rparr>) d3 \<and>
    exchange_table_groups memory_db (sample_identity Active) (sample_identity Backup) d3 = (Inr (), d4) \<and>
    exchanged (set GROUP_MERGE_TABLES) (ms_tables sample_groups) (ms_tables d4)"
proof -
  let ?run = "exchange_table_groups memory_db (sample_identity Active) (sample_identity Backup)"
  let ?d2 = "sample_groups\<lparr>ms_requests := 2\<rparr>"
  have "?run ?d2 = (Inl ''refused'', snd (?run ?d2))" using sample_exchange_run by (metis prod.collapse)
  from attempt [OF no_attempt this]
  have att: "attempts memory_db (sample_identity Active) (sample_identity Backup) ?d2 (snd (?run ?d2))" .
  have again: "?run (snd (?run ?d2)) = (Inr (), snd (?run (snd (?run ?d2))))"
    using sample_exchange_again by (metis prod.collapse)
  have uuids: "\<forall>b \<in> set GROUP_MERGE_TABLES. map_option tv_uuid (ms_tables sample_groups (group_table Active b)) \<noteq>
      map_option tv_uuid (ms_tables sample_groups (group_table Backup b))"
    by (simp add: sample_groups_run)
  have "exchanged (set GROUP_MERGE_TABLES) (ms_tables sample_groups) (ms_tables (snd (?run (snd (?run ?d2)))))"
    using cutover_resumable [OF memory.clickhouse_axioms sample_identity_run uuids att again] by blast
  then show ?thesis using att again by blast
qed

lemma sample_probe:
  fixes d :: memory_server
  assumes "ms_tables d = ms_tables sample_groups" "ms_fault d = ms_fault sample_groups" "5 < ms_requests d"
  shows "probe_part_totals memory_db (tables_of_group Active) d =
    (Inr [1, 1, 1, 1, 1, 1], d\<lparr>ms_requests := ms_requests d + 6\<rparr>)"
  using assms by (simp add: sample_groups_run raw_merge_part_total_def)

lemma merges_settle_witness:
  "\<exists>d'. wait_for_group_merges_to_settle memory_db (\<lambda>_ d. d) Active sample_groups = Some d' \<and>
    (\<exists>totals d0 d1. probe_part_totals memory_db (tables_of_group Active) d0 = (Inr totals, d1) \<and>
       answered memory_db (\<lambda>_ d. d) (tables_of_group Active) totals d1 d')"
proof (rule merges_settle [where I = "\<lambda>d. ms_tables d = ms_tables sample_groups \<and> ms_fault d = ms_fault sample_groups \<and> 5 < ms_requests d"
      and n = 1 and T = "[1, 1, 1, 1, 1, 1]"])
  fix d :: memory_server
  assume I: "ms_tables d = ms_tables sample_groups \<and> ms_fault d = ms_fault sample_groups \<and> 5 < ms_requests d"
  show "\<exists>d1. probe_part_totals memory_db (tables_of_group Active) d = (Inr [1, 1, 1, 1, 1, 1], d1) \<and>
      ms_tables d1 = ms_tables sample_groups \<and> ms_fault d1 = ms_fault sample_groups \<and> 5 < ms_requests d1"
    using sample_probe [of d] I by simp
next
  have "probe_part_totals memory_db (tables_of_group Active) sample_groups =
      (Inl ''refused'', sample_groups\<lparr>ms_requests := 6\<rparr>)"
    by (simp add: sample_groups_run)
  then show "ms_tables ((settle_world memory_db (\<lambda>_ d. d) (tables_of_group Active) ^^ 1) sample_groups) = ms_tables sample_groups \<and>
      ms_fault ((settle_world memory_db (\<lambda>_ d. d) (tables_of_group Active) ^^ 1) sample_groups) = ms_fault sample_groups \<and>
      5 < ms_requests ((settle_world memory_db (\<lambda>_ d. d) (tables_of_group Active) ^^ 1) sample_groups)"
    by (simp add: settle_world_def sample_groups_def)
qed

lemma reset_group_isolated_witness:
  "\<exists>d'. reset_table_group memory_db Backup (sample_groups\<lparr>ms_requests := 6\<rparr>) = (Inr (), d') \<and>
    ms_tables d' ''raw_account'' = ms_tables sample_groups ''raw_account''"
proof -
  let ?run = "reset_table_group memory_db Backup (sample_groups\<lparr>ms_requests := 6\<rparr>)"
  have "fst ?run = Inr ()"
    by (simp add: reset_table_group_def RAW_TABLES_def GROUP_HOT_TABLES_def sample_groups_run)
  then have run: "?run = (Inr (), snd ?run)" by (metis prod.collapse)
  have "ms_tables (snd ?run) ''raw_account'' = ms_tables sample_groups ''raw_account''"
    using reset_group_isolated [OF memory.clickhouse_axioms run] by (simp add: sample_tables_of_group)
  then show ?thesis using run by blast
qed

text \<open>A server without faults always answers.\<close>

lemma memory_counts: "succeeds (\<lambda>d. ms_fault d = (\<lambda>_. Fine)) (count_rows memory_db t)"
  by (simp add: succeeds_def memory_ops mem_read_def mem_request_def Let_def)

lemma staging_validation_witness:
  "\<exists>d'. refresh_hot_indexes memory_db ''n'' Backup {''m''} Full 9 {} True
      (sample_groups\<lparr>ms_fault := (\<lambda>_. Fine)\<rparr>) = (Inr (), d') \<and>
    fst (validate_staging_group memory_db 1 d') = Inr () \<and>
    fst (validate_staging_group memory_db 2 d') \<noteq> Inr ()"
proof -
  let ?run = "refresh_hot_indexes memory_db ''n'' Backup {''m''} Full 9 {} True (sample_groups\<lparr>ms_fault := (\<lambda>_. Fine)\<rparr>)"
  have "fst ?run = Inr () \<and> ms_fault (snd ?run) = (\<lambda>_. Fine)"
    by (simp add: refresh_hot_indexes_def rebuild_wallet_balance_table_def or_else_cleanup_def build_name_def
        rebuild_token_info_table_def HOT_TOKEN_INFO_BATCH_SIZE_def chunks.simps [of _ "[_]"] swapped_def sample_groups_run)
  then have run: "?run = (Inr (), snd ?run)" and fine: "ms_fault (snd ?run) = (\<lambda>_. Fine)" by (metis prod.collapse)+
  have "finite {''m''}" by simp
  note staging_validation [OF memory.clickhouse_axioms run this memory_counts fine]
  then show ?thesis using run by (intro exI [of _ "snd ?run"]) simp
qed

end
