(* ===== verification/Watcher_State.thy ===== *)
theory Watcher_State
  imports Incremental Table_Groups "HOL-Library.Sublist"
begin

text \<open>
  The watcher's journal in \<^verbatim>\<open>main.rs\<close>: the state of the two lanes, its constructors and the migration
  of old versions, the file that holds it, and the files with the frozen mint sets.  The disk is a map
  from paths (directory and name) to contents with a schedule of faults, in which a failing write may
  have written a part.  serde's JSON reader and writer are parameters (\<open>journal_format\<close>).
\<close>

section \<open>State\<close>

datatype lane_phase =
    Disabled | WaitingForFull | FullLoading | FullMerging | Ready | IncrementalLoading | CutoverPending

datatype persisted_snapshot_kind = PersistedFull | PersistedIncremental

record inflight_snapshot_state =
  in_kind :: persisted_snapshot_kind

type_synonym file_path = "string \<times> string"

text \<open>\<^verbatim>\<open>FullSnapshotWatcherState\<close> has the two fields of \<open>full_snapshot\<close>.\<close>

record lane_state =
  ln_phase :: lane_phase
  ln_full_snapshot :: "full_snapshot option"
  ln_max_slot :: "u64 option"
  ln_hot_mints_path :: "file_path option"
  ln_inflight :: "inflight_snapshot_state option"

record cutover_state =
  cu_active_tables :: table_group_identity
  cu_staging_tables :: table_group_identity

record shared_full_load_state =
  sh_snapshot :: full_snapshot
  sh_active_resume_slot :: u64

record watcher_state =
  wt_version :: u32
  wt_active :: lane_state
  wt_staging :: lane_state
  wt_cutover :: "cutover_state option"
  wt_shared :: "shared_full_load_state option"

definition WATCHER_STATE_VERSION :: u32 where "WATCHER_STATE_VERSION = 5"

definition lane_disabled :: lane_state where
  "lane_disabled = \<lparr>ln_phase = Disabled, ln_full_snapshot = None, ln_max_slot = None,
     ln_hot_mints_path = None, ln_inflight = None\<rparr>"

definition lane_waiting_for_full :: lane_state where
  "lane_waiting_for_full = lane_disabled\<lparr>ln_phase := WaitingForFull\<rparr>"

definition lane_full_loading :: "full_snapshot \<Rightarrow> lane_state" where
  "lane_full_loading snapshot = lane_disabled\<lparr>ln_phase := FullLoading, ln_full_snapshot := Some snapshot\<rparr>"

definition recovered_active_only :: "u64 \<Rightarrow> watcher_state" where
  "recovered_active_only max_slot = \<lparr>wt_version = WATCHER_STATE_VERSION,
     wt_active = \<lparr>ln_phase = Ready, ln_full_snapshot = None, ln_max_slot = Some max_slot,
       ln_hot_mints_path = None, ln_inflight = None\<rparr>,
     wt_staging = lane_disabled, wt_cutover = None, wt_shared = None\<rparr>"

definition bootstrap_preserving_active :: "u64 \<Rightarrow> watcher_state" where
  "bootstrap_preserving_active max_slot = recovered_active_only max_slot"

definition bootstrap_waiting_for_full :: watcher_state where
  "bootstrap_waiting_for_full = \<lparr>wt_version = WATCHER_STATE_VERSION, wt_active = lane_waiting_for_full,
     wt_staging = lane_disabled, wt_cutover = None, wt_shared = None\<rparr>"

definition full_snapshot_state :: "full_snapshot \<Rightarrow> full_snapshot" where
  "full_snapshot_state s = \<lparr>fs_path = fs_path s, fs_slot = fs_slot s\<rparr>"

fun inflight_snapshot :: "watched_snapshot \<Rightarrow> inflight_snapshot_state" where
  "inflight_snapshot (WFull s) = \<lparr>in_kind = PersistedFull\<rparr>"
| "inflight_snapshot (WIncremental s) = \<lparr>in_kind = PersistedIncremental\<rparr>"

section \<open>Version 2\<close>

record legacy_staging_v2 =
  lg_full_snapshot_path :: string
  lg_full_snapshot_slot :: u64
  lg_ready_slot :: "u64 option"
  lg_hot_mints_path :: "file_path option"
  lg_first_incremental :: "unit option"
  lg_first_incremental_completed :: bool

record legacy_state_v2 =
  lg_active_slot :: u64
  lg_active_hot_mints_path :: "file_path option"
  lg_staging :: "legacy_staging_v2 option"

definition migrate_v2_state :: "legacy_state_v2 \<Rightarrow> watcher_state" where
  "migrate_v2_state legacy = \<lparr>wt_version = WATCHER_STATE_VERSION,
     wt_active = \<lparr>ln_phase = Ready, ln_full_snapshot = None, ln_max_slot = Some (lg_active_slot legacy),
       ln_hot_mints_path = lg_active_hot_mints_path legacy, ln_inflight = None\<rparr>,
     wt_staging = (case lg_staging legacy of
         None \<Rightarrow> lane_disabled
       | Some s \<Rightarrow>
           (let inflight = map_option (\<lambda>_. \<lparr>in_kind = PersistedIncremental\<rparr>) (lg_first_incremental s);
                phase = (if lg_ready_slot s = None then FullLoading
                         else if lg_first_incremental_completed s then Ready
                         else if inflight \<noteq> None then IncrementalLoading
                         else Ready)
            in \<lparr>ln_phase = phase,
                 ln_full_snapshot = Some \<lparr>fs_path = lg_full_snapshot_path s, fs_slot = lg_full_snapshot_slot s\<rparr>,
                 ln_max_slot = lg_ready_slot s, ln_hot_mints_path = lg_hot_mints_path s, ln_inflight = inflight\<rparr>)),
     wt_cutover = None, wt_shared = None\<rparr>"

section \<open>The disk\<close>

datatype disk_error = NotFound | AlreadyExists | OtherError

text \<open>\<open>dk_fault n\<close> is set when the call number \<open>n\<close> fails; a failing write has then written that many characters.\<close>

record disk =
  dk_files :: "file_path \<Rightarrow> string option"
  dk_calls :: nat
  dk_fault :: "nat \<Rightarrow> nat option"

type_synonym 'a disk_op = "(disk, disk_error, 'a) op"

definition disk_call :: "((file_path \<Rightarrow> string option) \<Rightarrow> disk_error + (file_path \<Rightarrow> string option)) \<Rightarrow> unit disk_op" where
  "disk_call f d =
     (let d1 = d\<lparr>dk_calls := Suc (dk_calls d)\<rparr> in
      case dk_fault d (dk_calls d) of
        Some k \<Rightarrow> (Inl OtherError, d1)
      | None \<Rightarrow> (case f (dk_files d) of Inl e \<Rightarrow> (Inl e, d1) | Inr fs \<Rightarrow> (Inr (), d1\<lparr>dk_files := fs\<rparr>)))"

definition disk_create_new :: "file_path \<Rightarrow> unit disk_op" where
  "disk_create_new p = disk_call (\<lambda>fs. if fs p = None then Inr (fs(p \<mapsto> '''')) else Inl AlreadyExists)"

definition disk_write_all :: "file_path \<Rightarrow> string \<Rightarrow> unit disk_op" where
  "disk_write_all p s d =
     (let d1 = d\<lparr>dk_calls := Suc (dk_calls d)\<rparr> in
      case dk_files d p of
        None \<Rightarrow> (Inl OtherError, d1)
      | Some c \<Rightarrow>
          (case dk_fault d (dk_calls d) of
             Some k \<Rightarrow> (Inl OtherError, d1\<lparr>dk_files := (dk_files d)(p \<mapsto> c @ take k s)\<rparr>)
           | None \<Rightarrow> (Inr (), d1\<lparr>dk_files := (dk_files d)(p \<mapsto> c @ s)\<rparr>)))"

definition disk_sync_all :: "unit disk_op" where
  "disk_sync_all = disk_call Inr"

definition disk_rename :: "file_path \<Rightarrow> file_path \<Rightarrow> unit disk_op" where
  "disk_rename p q = disk_call (\<lambda>fs. case fs p of None \<Rightarrow> Inl NotFound | Some c \<Rightarrow> Inr (fs(p := None, q := Some c)))"

definition disk_remove_file :: "file_path \<Rightarrow> unit disk_op" where
  "disk_remove_file p = disk_call (\<lambda>fs. case fs p of None \<Rightarrow> Inl NotFound | Some c \<Rightarrow> Inr (fs(p := None)))"

definition disk_read :: "file_path \<Rightarrow> string disk_op" where
  "disk_read p d =
     (let d1 = d\<lparr>dk_calls := Suc (dk_calls d)\<rparr> in
      case dk_fault d (dk_calls d) of
        Some k \<Rightarrow> (Inl OtherError, d1)
      | None \<Rightarrow> (case dk_files d p of None \<Rightarrow> (Inl NotFound, d1) | Some c \<Rightarrow> (Inr c, d1)))"

section \<open>The journal file\<close>

definition newline :: string where "newline = [CHR 0x0A]"

record 'j journal_format =
  to_vec_pretty :: "watcher_state \<Rightarrow> string option"
  json_from_str :: "string \<Rightarrow> 'j option"
  json_version :: "'j \<Rightarrow> u64 option"
  state_from_value :: "'j \<Rightarrow> watcher_state option"
  v2_from_value :: "'j \<Rightarrow> legacy_state_v2 option"

definition WATCHER_STATE_FILENAME :: string where
  "WATCHER_STATE_FILENAME = ''solana-snapshot-etl-state.json''"

definition state_temporary :: "file_path \<Rightarrow> string \<Rightarrow> file_path" where
  "state_temporary path stamp = (fst path, ''.'' @ snd path @ ''.'' @ stamp @ ''.tmp'')"

text \<open>\<open>stamp\<close> is the process id and the clock, as they appear in the names of temporary files.\<close>

definition persist_watcher_state ::
  "'j journal_format \<Rightarrow> string \<Rightarrow> file_path \<Rightarrow> watcher_state \<Rightarrow> unit disk_op" where
  "persist_watcher_state jf stamp path state =
     (case to_vec_pretty jf state of
        None \<Rightarrow> sfail OtherError
      | Some bytes \<Rightarrow>
          (let temporary = state_temporary path stamp in
           or_else_cleanup
             (sthen (disk_create_new temporary)
             (sthen (disk_write_all temporary bytes)
             (sthen (disk_write_all temporary newline)
             (sthen disk_sync_all
             (sthen (disk_rename temporary path)
                    disk_sync_all)))))
             (disk_remove_file temporary)))"

definition load_watcher_state ::
  "'j journal_format \<Rightarrow> string \<Rightarrow> file_path \<Rightarrow> (disk, disk_error, watcher_state option) op" where
  "load_watcher_state jf stamp path = (\<lambda>d.
     case disk_read path d of
       (Inl NotFound, d1) \<Rightarrow> (Inr None, d1)
     | (Inl e, d1) \<Rightarrow> (Inl e, d1)
     | (Inr contents, d1) \<Rightarrow>
         (case json_from_str jf contents of
            None \<Rightarrow> sfail OtherError
          | Some v \<Rightarrow>
              (case json_version jf v of
                 None \<Rightarrow> sfail OtherError
               | Some version \<Rightarrow>
                   if version = ucast WATCHER_STATE_VERSION then
                     (case state_from_value jf v of None \<Rightarrow> sfail OtherError | Some s \<Rightarrow> sreturn (Some s))
                   else if version = 4 then
                     (case state_from_value jf v of None \<Rightarrow> sfail OtherError
                      | Some s \<Rightarrow> let m = s\<lparr>wt_version := WATCHER_STATE_VERSION\<rparr> in
                          sthen (persist_watcher_state jf stamp path m) (sreturn (Some m)))
                   else if version = 3 then
                     (case state_from_value jf v of None \<Rightarrow> sfail OtherError
                      | Some s \<Rightarrow> let m = s\<lparr>wt_version := WATCHER_STATE_VERSION, wt_shared := None\<rparr> in
                          sthen (persist_watcher_state jf stamp path m) (sreturn (Some m)))
                   else if version = 2 then
                     (case v2_from_value jf v of None \<Rightarrow> sfail OtherError
                      | Some l \<Rightarrow> let m = migrate_v2_state l in
                          sthen (persist_watcher_state jf stamp path m) (sreturn (Some m)))
                   else sfail OtherError)) d1)"

section \<open>The files of the frozen mint sets\<close>

definition HOT_MINTS_FILE_PREFIX :: string where "HOT_MINTS_FILE_PREFIX = ''solana-snapshot-etl-hot-mints-''"
definition HOT_MINTS_FILE_SUFFIX :: string where "HOT_MINTS_FILE_SUFFIX = ''.txt''"

definition hot_mints_file :: "string \<Rightarrow> string \<Rightarrow> file_path" where
  "hot_mints_file directory stamp = (directory, HOT_MINTS_FILE_PREFIX @ stamp @ HOT_MINTS_FILE_SUFFIX)"

definition hot_mints_temporary :: "string \<Rightarrow> string \<Rightarrow> file_path" where
  "hot_mints_temporary directory stamp = (directory, ''.solana-snapshot-etl-hot-mints-'' @ stamp @ ''.tmp'')"

text \<open>The mints in the order of the set's iterator; the buffered writer is one write.\<close>

definition persist_frozen_hot_mints :: "string \<Rightarrow> string \<Rightarrow> string list \<Rightarrow> file_path disk_op" where
  "persist_frozen_hot_mints stamp directory hot_mints =
     (let path = hot_mints_file directory stamp; temporary = hot_mints_temporary directory stamp in
      sthen
        (or_else_cleanup
          (sthen (disk_create_new temporary)
          (sthen (disk_write_all temporary (concat (map (\<lambda>mint. mint @ newline) hot_mints)))
          (sthen disk_sync_all
          (sthen (disk_rename temporary path)
                 disk_sync_all))))
          (disk_remove_file temporary))
        (sreturn path))"

text \<open>\<^verbatim>\<open>BufRead::lines\<close>: a line feed ends a line and a carriage return before it is dropped.\<close>

definition strip_cr :: "string \<Rightarrow> string" where
  "strip_cr line = (if line \<noteq> [] \<and> last line = CHR 0x0D then butlast line else line)"

fun read_lines :: "string \<Rightarrow> string \<Rightarrow> string list" where
  "read_lines acc [] = (if acc = [] then [] else [acc])"
| "read_lines acc (c # cs) =
     (if c = CHR 0x0A then strip_cr acc # read_lines [] cs else read_lines (acc @ [c]) cs)"

fun collect_mints :: "string list \<Rightarrow> string set \<Rightarrow> disk_error + string set" where
  "collect_mints [] mints = (if mints = {} then Inl OtherError else Inr mints)"
| "collect_mints (l # ls) mints = (if l = [] then Inl OtherError else collect_mints ls (insert l mints))"

definition load_frozen_hot_mints :: "file_path \<Rightarrow> string set disk_op" where
  "load_frozen_hot_mints path =
     sbind (disk_read path) (\<lambda>contents.
       case collect_mints (read_lines [] contents) {} of Inl e \<Rightarrow> sfail e | Inr mints \<Rightarrow> sreturn mints)"

definition is_managed_hot_mints_file :: "file_path \<Rightarrow> string \<Rightarrow> bool" where
  "is_managed_hot_mints_file path directory \<longleftrightarrow> fst path = directory \<and>
     prefix HOT_MINTS_FILE_PREFIX (snd path) \<and> suffix HOT_MINTS_FILE_SUFFIX (snd path)"

definition hot_mints_referenced :: "watcher_state \<Rightarrow> file_path \<Rightarrow> bool" where
  "hot_mints_referenced state path \<longleftrightarrow>
     (\<exists>lane \<in> {wt_active state, wt_staging state}. ln_phase lane \<noteq> Disabled \<and> ln_hot_mints_path lane = Some path)"

text \<open>The entries of the directory as \<^verbatim>\<open>read_dir\<close> gives them.\<close>

fun remove_unused_hot_mints ::
  "string \<Rightarrow> watcher_state \<Rightarrow> (disk_error + string) list \<Rightarrow> nat \<Rightarrow> nat disk_op" where
  "remove_unused_hot_mints directory state [] removed = sreturn removed"
| "remove_unused_hot_mints directory state (Inl e # entries) removed = sfail e"
| "remove_unused_hot_mints directory state (Inr name # entries) removed =
     (let path = (directory, name) in
      if \<not> is_managed_hot_mints_file path directory \<or> hot_mints_referenced state path
      then remove_unused_hot_mints directory state entries removed
      else (\<lambda>d. case disk_remove_file path d of
          (Inr _, d1) \<Rightarrow> remove_unused_hot_mints directory state entries (Suc removed) d1
        | (Inl NotFound, d1) \<Rightarrow> remove_unused_hot_mints directory state entries removed d1
        | (Inl e, d1) \<Rightarrow> (Inl e, d1)))"

definition cleanup_unused_frozen_hot_mints ::
  "string \<Rightarrow> disk_error + (disk_error + string) list \<Rightarrow> watcher_state \<Rightarrow> nat disk_op" where
  "cleanup_unused_frozen_hot_mints directory listing state =
     (case listing of
        Inl e \<Rightarrow> sfail e
      | Inr entries \<Rightarrow>
          sbind (remove_unused_hot_mints directory state entries 0) (\<lambda>removed.
            sthen (swhen (0 < removed) disk_sync_all) (sreturn removed)))"

definition clear_disabled_lane :: "lane_state \<Rightarrow> bool \<times> lane_state" where
  "clear_disabled_lane lane =
     (if ln_phase lane = Disabled then (ln_hot_mints_path lane \<noteq> None, lane\<lparr>ln_hot_mints_path := None\<rparr>)
      else (False, lane))"

definition clear_disabled_hot_mints_paths :: "watcher_state \<Rightarrow> bool \<times> watcher_state" where
  "clear_disabled_hot_mints_paths state =
     (let (changed_a, active) = clear_disabled_lane (wt_active state);
          (changed_s, staging) = clear_disabled_lane (wt_staging state)
      in (changed_a \<or> changed_s, state\<lparr>wt_active := active, wt_staging := staging\<rparr>))"

section \<open>Disk calls\<close>

lemma disk_call_cases:
  assumes "disk_call f d = (r, d')"
  obtains (failed) e where "r = Inl e" "dk_files d' = dk_files d"
    | (ok) fs where "r = Inr ()" "Inr fs = f (dk_files d)" "dk_files d' = fs"
  using assms by (auto simp: disk_call_def Let_def split: option.splits sum.splits)

lemma disk_write_cases:
  assumes "disk_write_all p s d = (r, d')"
  obtains (missing) "r = Inl OtherError" "dk_files d p = None" "dk_files d' = dk_files d"
    | (part) c k where "r = Inl OtherError" "dk_files d p = Some c" "dk_files d' = (dk_files d)(p \<mapsto> c @ take k s)"
    | (ok) c where "r = Inr ()" "dk_files d p = Some c" "dk_files d' = (dk_files d)(p \<mapsto> c @ s)"
  using assms by (auto simp: disk_write_all_def Let_def split: option.splits)

text \<open>\<open>off p m\<close>: the operation changes no file but \<open>p\<close>.\<close>

definition off :: "file_path set \<Rightarrow> 'a disk_op \<Rightarrow> bool" where
  "off P m \<longleftrightarrow> (\<forall>d r d'. m d = (r, d') \<longrightarrow> (\<forall>q. q \<notin> P \<longrightarrow> dk_files d' q = dk_files d q))"

lemma offD: "off P m \<Longrightarrow> m d = (r, d') \<Longrightarrow> q \<notin> P \<Longrightarrow> dk_files d' q = dk_files d q"
  unfolding off_def by blast

lemma off_create: "p \<in> P \<Longrightarrow> off P (disk_create_new p)"
  unfolding off_def disk_create_new_def by (intro allI impI, erule disk_call_cases) (auto simp del: split_paired_All split: if_splits)

lemma off_write: "p \<in> P \<Longrightarrow> off P (disk_write_all p s)"
  unfolding off_def by (intro allI impI, erule disk_write_cases) auto

lemma off_sync: "off P disk_sync_all"
  unfolding off_def disk_sync_all_def by (intro allI impI, erule disk_call_cases) auto

lemma off_rename: "p \<in> P \<Longrightarrow> q \<in> P \<Longrightarrow> off P (disk_rename p q)"
  unfolding off_def disk_rename_def by (intro allI impI, erule disk_call_cases) (auto simp del: split_paired_All split: option.splits)

lemma off_remove: "p \<in> P \<Longrightarrow> off P (disk_remove_file p)"
  unfolding off_def disk_remove_file_def by (intro allI impI, erule disk_call_cases) (auto simp del: split_paired_All split: option.splits)

lemma off_sthen: "off P m \<Longrightarrow> off P n \<Longrightarrow> off P (sthen m n)"
  by (fastforce simp: off_def sthen_def sbind_def split: prod.splits sum.splits)

lemma off_cleanup: "off P m \<Longrightarrow> off P c \<Longrightarrow> off P (or_else_cleanup m c)"
  unfolding off_def or_else_cleanup_def by (auto split: prod.splits sum.splits) (metis prod.collapse)

lemma off_sreturn: "off P (sreturn x)"
  by (simp add: off_def sreturn_def)

lemmas off_rules = off_create off_write off_sync off_rename off_remove off_sthen off_cleanup

lemma sync_files: "disk_sync_all d = (r, d') \<Longrightarrow> dk_files d' = dk_files d"
  unfolding disk_sync_all_def by (erule disk_call_cases) auto

section \<open>Writing through a temporary file\<close>

text \<open>The common shape of both writers.\<close>

definition write_temporary :: "file_path \<Rightarrow> file_path \<Rightarrow> unit disk_op \<Rightarrow> unit disk_op" where
  "write_temporary temporary path fill =
     or_else_cleanup
       (sthen (disk_create_new temporary)
       (sthen fill
       (sthen disk_sync_all
       (sthen (disk_rename temporary path) disk_sync_all))))
       (disk_remove_file temporary)"

lemma write_temporary_spec:
  assumes run: "write_temporary temporary path fill d = (r, d')" and neq: "temporary \<noteq> path"
    and fill: "off {temporary} fill"
    and full: "\<And>d1 u d2. fill d1 = (Inr u, d2) \<Longrightarrow> dk_files d1 temporary = Some '''' \<Longrightarrow> dk_files d2 temporary = Some contents"
  shows "(dk_files d' path = dk_files d path \<or> dk_files d' path = Some contents) \<and>
    (r = Inr () \<longrightarrow> dk_files d' path = Some contents \<and> dk_files d' temporary = None) \<and>
    (\<forall>q. q \<noteq> path \<and> q \<noteq> temporary \<longrightarrow> dk_files d' q = dk_files d q)"
proof -
  have frame: "\<forall>q. q \<noteq> path \<and> q \<noteq> temporary \<longrightarrow> dk_files d' q = dk_files d q"
  proof -
    have "off {temporary, path} fill" using fill by (simp add: off_def)
    then have "off {temporary, path} (write_temporary temporary path fill)"
      unfolding write_temporary_def by (intro off_rules) simp_all
    from offD [OF this run] show ?thesis by blast
  qed
  let ?tail = "sthen disk_sync_all (sthen (disk_rename temporary path) disk_sync_all)"
  let ?body = "sthen (disk_create_new temporary) (sthen fill ?tail)"
  obtain q d1 where body: "?body d = (q, d1)" by fastforce
  have rd: "r = q" "dk_files d' path = dk_files d1 path" "q = Inr () \<longrightarrow> d' = d1"
    using run body offD [OF off_remove [of temporary "{temporary}"], of d1] neq
    by (auto simp: write_temporary_def or_else_cleanup_def split: sum.splits) (metis prod.collapse)
  have "(dk_files d1 path = dk_files d path \<or> dk_files d1 path = Some contents) \<and>
      (q = Inr () \<longrightarrow> dk_files d1 path = Some contents \<and> dk_files d1 temporary = None)"
    using body
  proof (cases rule: sthen_cases)
    case (first e)
    then show ?thesis using offD [OF off_create [of temporary "{temporary}"] first(1), of path] neq by simp
  next
    case (both u d2)
    have p2: "dk_files d2 path = dk_files d path" "dk_files d2 temporary = Some ''''"
      using both(1) neq unfolding disk_create_new_def
      by (auto elim!: disk_call_cases split: if_splits)
    show ?thesis using both(2)
    proof (cases rule: sthen_cases)
      case (first e)
      then show ?thesis using offD [OF fill first(1), of path] neq p2 by simp
    next
      case filled: (both v d3)
      have p3: "dk_files d3 path = dk_files d path" "dk_files d3 temporary = Some contents"
        using offD [OF fill filled(1), of path] full [OF filled(1) p2(2)] neq p2 by simp_all
      show ?thesis using filled(2)
      proof (cases rule: sthen_cases)
        case (first e)
        then show ?thesis using sync_files [OF first(1)] p3 by simp
      next
        case synced: (both w d4)
        have p4: "dk_files d4 = dk_files d3" by (rule sync_files [OF synced(1)])
        show ?thesis using synced(2)
        proof (cases rule: sthen_cases)
          case (first e)
          then show ?thesis using p3 p4 unfolding disk_rename_def by (auto elim!: disk_call_cases)
        next
          case renamed: (both x d5)
          have "dk_files d5 = (dk_files d4)(temporary := None, path := Some contents)"
            using renamed(1) p3 p4 unfolding disk_rename_def by (auto elim!: disk_call_cases)
          then show ?thesis using sync_files [OF renamed(2)] neq by simp
        qed
      qed
    qed
  qed
  then show ?thesis using rd frame by auto
qed

lemma write_all_contents:
  "disk_write_all p s d = (Inr u, d') \<Longrightarrow> dk_files d p = Some c \<Longrightarrow> dk_files d' p = Some (c @ s)"
  by (erule disk_write_cases) auto

lemma persist_watcher_state_temporary:
  assumes "to_vec_pretty jf state = Some bytes"
  shows "persist_watcher_state jf stamp path state =
    write_temporary (state_temporary path stamp) path
      (sthen (disk_write_all (state_temporary path stamp) bytes) (disk_write_all (state_temporary path stamp) newline))"
  using assms by (simp add: persist_watcher_state_def write_temporary_def Let_def sthen_assoc)

lemma state_temporary_neq: "state_temporary path stamp \<noteq> path"
proof
  assume "state_temporary path stamp = path"
  then have "length (snd (state_temporary path stamp)) = length (snd path)" by simp
  then show False by (simp add: state_temporary_def)
qed

lemma persist_watcher_state_spec:
  assumes "persist_watcher_state jf stamp path state d = (r, d')" "to_vec_pretty jf state = Some bytes"
  shows "(dk_files d' path = dk_files d path \<or> dk_files d' path = Some (bytes @ newline)) \<and>
    (r = Inr () \<longrightarrow> dk_files d' path = Some (bytes @ newline) \<and> dk_files d' (state_temporary path stamp) = None) \<and>
    (\<forall>q. q \<noteq> path \<and> q \<noteq> state_temporary path stamp \<longrightarrow> dk_files d' q = dk_files d q)"
proof (rule write_temporary_spec [OF assms(1) [unfolded persist_watcher_state_temporary [OF assms(2)]] state_temporary_neq])
  show "off {state_temporary path stamp} (sthen (disk_write_all (state_temporary path stamp) bytes)
      (disk_write_all (state_temporary path stamp) newline))"
    by (intro off_rules) simp_all
  fix d1 u d2
  assume "sthen (disk_write_all (state_temporary path stamp) bytes) (disk_write_all (state_temporary path stamp) newline) d1 = (Inr u, d2)"
    and "dk_files d1 (state_temporary path stamp) = Some ''''"
  then show "dk_files d2 (state_temporary path stamp) = Some (bytes @ newline)"
    by (auto simp: op_success dest!: write_all_contents)
qed

section \<open>Reading back the mints\<close>

definition plain_mint :: "string \<Rightarrow> bool" where
  "plain_mint m \<longleftrightarrow> m \<noteq> [] \<and> CHR 0x0A \<notin> set m \<and> last m \<noteq> CHR 0x0D"

lemma read_lines_prefix: "CHR 0x0A \<notin> set m \<Longrightarrow> read_lines acc (m @ cs) = read_lines (acc @ m) cs"
  by (induction m arbitrary: acc) auto

lemma read_lines_mints:
  assumes "\<forall>m \<in> set ms. plain_mint m"
  shows "read_lines [] (concat (map (\<lambda>m. m @ newline) ms)) = ms"
  using assms
proof (induction ms)
  case (Cons m ms)
  then show ?case using read_lines_prefix [of m "[]"] by (simp add: newline_def plain_mint_def strip_cr_def)
qed simp

lemma collect_mints_all:
  assumes "\<forall>m \<in> set ms. m \<noteq> []" "ms \<noteq> [] \<or> S \<noteq> {}"
  shows "collect_mints ms S = Inr (S \<union> set ms)"
  using assms by (induction ms arbitrary: S) auto

section \<open>Removing unused mint files\<close>

definition unused_hot_mints :: "string \<Rightarrow> watcher_state \<Rightarrow> string \<Rightarrow> bool" where
  "unused_hot_mints directory state name \<longleftrightarrow> is_managed_hot_mints_file (directory, name) directory \<and>
     \<not> hot_mints_referenced state (directory, name)"

lemma disk_remove_cases:
  assumes "disk_remove_file p d = (q, d1)"
  shows "(\<forall>x. x \<noteq> p \<longrightarrow> dk_files d1 x = dk_files d x) \<and> (dk_files d1 p = dk_files d p \<or> dk_files d1 p = None) \<and>
    (q = Inr () \<or> q = Inl NotFound \<longrightarrow> dk_files d1 p = None)"
  using assms unfolding disk_remove_file_def
  by (auto simp: disk_call_def Let_def split: option.splits)

lemma remove_unused_hot_mints_spec:
  assumes "remove_unused_hot_mints directory state entries removed d = (r, d')"
  shows "(\<forall>p. dk_files d' p = dk_files d p \<or>
      fst p = directory \<and> unused_hot_mints directory state (snd p) \<and> dk_files d' p = None) \<and>
    (isl r \<or> (\<forall>name. Inr name \<in> set entries \<and> unused_hot_mints directory state name \<longrightarrow>
       dk_files d' (directory, name) = None))"
  using assms
proof (induction directory state entries removed arbitrary: d rule: remove_unused_hot_mints.induct)
  case (1 directory state removed)
  then show ?case by (simp add: sreturn_def)
next
  case (2 directory state e entries removed)
  then show ?case by (auto simp: sfail_def)
next
  case (3 directory state name entries removed)
  show ?case
  proof (cases "unused_hot_mints directory state name")
    case False
    then have skip: "\<not> is_managed_hot_mints_file (directory, name) directory \<or> hot_mints_referenced state (directory, name)"
      by (auto simp: unused_hot_mints_def)
    then have "remove_unused_hot_mints directory state entries removed d = (r, d')"
      using "3.prems" by (simp add: Let_def)
    from "3.IH"(1) [OF refl skip this] False show ?thesis by auto
  next
    case True
    then have due: "\<not> (\<not> is_managed_hot_mints_file (directory, name) directory \<or> hot_mints_referenced state (directory, name))"
      by (simp add: unused_hot_mints_def)
    obtain q d1 where q: "disk_remove_file (directory, name) d = (q, d1)" by fastforce
    note one = disk_remove_cases [OF q]
    show ?thesis
    proof (cases "q = Inr () \<or> q = Inl NotFound")
      case next_entry: True
      then obtain k where k: "remove_unused_hot_mints directory state entries k d1 = (r, d')"
        using "3.prems" due q by (auto simp: Let_def)
      have IH: "(\<forall>p. dk_files d' p = dk_files d1 p \<or>
          fst p = directory \<and> unused_hot_mints directory state (snd p) \<and> dk_files d' p = None) \<and>
        (isl r \<or> (\<forall>name. Inr name \<in> set entries \<and> unused_hot_mints directory state name \<longrightarrow>
           dk_files d' (directory, name) = None))"
        using next_entry
      proof
        assume "q = Inr ()"
        then have "remove_unused_hot_mints directory state entries (Suc removed) d1 = (r, d')"
          using "3.prems" due q by (simp add: Let_def)
        from "3.IH"(3) [OF refl due q [symmetric] \<open>q = Inr ()\<close> this] show ?thesis .
      next
        assume "q = Inl NotFound"
        then have "remove_unused_hot_mints directory state entries removed d1 = (r, d')"
          using "3.prems" due q by (simp add: Let_def)
        from "3.IH"(2) [OF refl due q [symmetric] \<open>q = Inl NotFound\<close> refl this] show ?thesis .
      qed
      have "dk_files d1 (directory, name) = None" using one next_entry by blast
      then have gone: "dk_files d' (directory, name) = None" using IH by metis
      show ?thesis
      proof (intro conjI allI)
        fix p
        show "dk_files d' p = dk_files d p \<or>
            fst p = directory \<and> unused_hot_mints directory state (snd p) \<and> dk_files d' p = None"
        proof (cases "p = (directory, name)")
          case False
          then have "dk_files d1 p = dk_files d p" using one by blast
          then show ?thesis using conjunct1 [OF IH, THEN spec, of p] by simp
        qed (simp add: gone True)
      next
        show "isl r \<or> (\<forall>x. Inr x \<in> set (Inr name # entries) \<and> unused_hot_mints directory state x \<longrightarrow>
            dk_files d' (directory, x) = None)"
          using conjunct2 [OF IH] gone by auto
      qed
    next
      case False
      then obtain e where e: "q = Inl e" "e \<noteq> NotFound" by (cases q) auto
      then have "r = Inl e" "d' = d1" using "3.prems" due q by (cases e; simp add: Let_def)+
      moreover have "dk_files d1 p = dk_files d p \<or> p = (directory, name) \<and> dk_files d1 p = None" for p
        using one by metis
      ultimately show ?thesis using True by fastforce
    qed
  qed
qed

section \<open>Well-formed states\<close>

text \<open>What the watcher's loop relies on; the loop keeps it (theory \<open>Watcher\<close>).\<close>

definition active_wf :: "lane_state \<Rightarrow> bool" where
  "active_wf l \<longleftrightarrow> ln_phase l \<noteq> Disabled \<and>
     (ln_phase l \<in> {FullLoading, FullMerging} \<longrightarrow> ln_full_snapshot l \<noteq> None) \<and>
     (ln_phase l \<in> {FullMerging, Ready, IncrementalLoading, CutoverPending} \<longrightarrow> ln_max_slot l \<noteq> None) \<and>
     (ln_phase l = IncrementalLoading \<longrightarrow> ln_inflight l \<noteq> None)"

definition staging_wf :: "lane_state \<Rightarrow> bool" where
  "staging_wf l \<longleftrightarrow> ln_phase l \<noteq> WaitingForFull \<and>
     (ln_phase l \<in> {FullLoading, FullMerging} \<longrightarrow> ln_full_snapshot l \<noteq> None) \<and>
     (ln_phase l \<in> {FullMerging, Ready, IncrementalLoading, CutoverPending} \<longrightarrow>
        ln_max_slot l \<noteq> None \<and> ln_hot_mints_path l \<noteq> None) \<and>
     (ln_phase l = IncrementalLoading \<longrightarrow> ln_inflight l = Some \<lparr>in_kind = PersistedIncremental\<rparr>)"

definition shared_wf :: "watcher_state \<Rightarrow> bool" where
  "shared_wf s \<longleftrightarrow> (case wt_shared s of None \<Rightarrow> True | Some sh \<Rightarrow>
     ln_phase (wt_staging s) = FullLoading \<and> ln_full_snapshot (wt_staging s) = Some (sh_snapshot sh) \<and>
     ln_hot_mints_path (wt_staging s) \<noteq> None \<and>
     ln_phase (wt_active s) = IncrementalLoading \<and> ln_inflight (wt_active s) = Some \<lparr>in_kind = PersistedFull\<rparr> \<and>
     ln_max_slot (wt_active s) = Some (sh_active_resume_slot sh))"

definition cutover_wf :: "watcher_state \<Rightarrow> bool" where
  "cutover_wf s \<longleftrightarrow> (ln_phase (wt_active s) = CutoverPending \<longleftrightarrow> ln_phase (wt_staging s) = CutoverPending) \<and>
     (wt_cutover s \<noteq> None \<longrightarrow> ln_phase (wt_active s) = CutoverPending)"

definition state_wf :: "watcher_state \<Rightarrow> bool" where
  "state_wf s \<longleftrightarrow> active_wf (wt_active s) \<and> staging_wf (wt_staging s) \<and> shared_wf s \<and> cutover_wf s \<and>
     (ln_phase (wt_active s) \<in> {WaitingForFull, FullLoading, FullMerging} \<longrightarrow> ln_phase (wt_staging s) = Disabled)"

lemmas state_wf_defs = state_wf_def active_wf_def staging_wf_def shared_wf_def cutover_wf_def

section \<open>Properties\<close>

text \<open>The serialiser and the parser agree on a state of the current version.\<close>

definition faithful_format :: "'j journal_format \<Rightarrow> watcher_state \<Rightarrow> bool" where
  "faithful_format jf s \<longleftrightarrow> (\<exists>bytes v. to_vec_pretty jf s = Some bytes \<and> json_from_str jf (bytes @ newline) = Some v \<and>
     json_version jf v = Some (ucast WATCHER_STATE_VERSION) \<and> state_from_value jf v = Some s)"

text \<open>C4: The journal is replaced atomically: whichever disk call of a checkpoint fails, and so also if
  the process dies at any of them, the journal file either is as before or holds the complete new state,
  and the next start then loads exactly that state; a checkpoint that succeeds has written it and leaves
  no temporary file; no other file changes.\<close>

theorem journal_atomic:
  assumes "faithful_format jf state" and "persist_watcher_state jf stamp path state d = (r, d')"
  shows "(dk_files d' path = dk_files d path \<and> r \<noteq> Inr () \<or>
      fst (load_watcher_state jf stamp' path (d'\<lparr>dk_fault := \<lambda>_. None\<rparr>)) = Inr (Some state)) \<and>
    (r = Inr () \<longrightarrow> dk_files d' (state_temporary path stamp) = None) \<and>
    (\<forall>q. q \<noteq> path \<and> q \<noteq> state_temporary path stamp \<longrightarrow> dk_files d' q = dk_files d q)"
proof -
  obtain bytes v where f: "to_vec_pretty jf state = Some bytes" "json_from_str jf (bytes @ newline) = Some v"
    "json_version jf v = Some (ucast WATCHER_STATE_VERSION)" "state_from_value jf v = Some state"
    using assms(1) by (auto simp: faithful_format_def)
  note p = persist_watcher_state_spec [OF assms(2) f(1)]
  have "fst (load_watcher_state jf stamp' path (d'\<lparr>dk_fault := \<lambda>_. None\<rparr>)) = Inr (Some state)"
    if "dk_files d' path = Some (bytes @ newline)"
    using that f by (simp add: load_watcher_state_def disk_read_def sreturn_def)
  then show ?thesis using p by blast
qed

text \<open>C28: Frozen mints survive a restart: when the writer of a mint file succeeds, reading the returned
  path back gives exactly the set written, for nonempty mints without line ends.\<close>

theorem hot_mints_roundtrip:
  assumes "persist_frozen_hot_mints stamp directory mints d = (Inr path, d')"
    and "mints \<noteq> []" "\<forall>m \<in> set mints. plain_mint m"
  shows "fst (load_frozen_hot_mints path (d'\<lparr>dk_fault := \<lambda>_. None\<rparr>)) = Inr (set mints) \<and>
    is_managed_hot_mints_file path directory \<and>
    (\<forall>q. q \<noteq> path \<and> q \<noteq> hot_mints_temporary directory stamp \<longrightarrow> dk_files d' q = dk_files d q)"
proof -
  let ?path = "hot_mints_file directory stamp" and ?temp = "hot_mints_temporary directory stamp"
  let ?all = "concat (map (\<lambda>mint. mint @ newline) mints)"
  have run: "write_temporary ?temp ?path (disk_write_all ?temp ?all) d = (Inr (), d')" and path: "path = ?path"
    using assms(1) by (auto simp: persist_frozen_hot_mints_def write_temporary_def Let_def op_success)
  have neq: "?temp \<noteq> ?path" by (simp add: hot_mints_file_def hot_mints_temporary_def HOT_MINTS_FILE_PREFIX_def)
  have off: "off {?temp} (disk_write_all ?temp ?all)" by (intro off_rules) simp
  have full: "dk_files d2 ?temp = Some ?all"
    if "disk_write_all ?temp ?all d1 = (Inr u, d2)" "dk_files d1 ?temp = Some ''''" for d1 u d2
    using write_all_contents [OF that] by simp
  have w: "(dk_files d' ?path = dk_files d ?path \<or> dk_files d' ?path = Some ?all) \<and>
      ((Inr () :: disk_error + unit) = Inr () \<longrightarrow> dk_files d' ?path = Some ?all \<and> dk_files d' ?temp = None) \<and>
      (\<forall>q. q \<noteq> ?path \<and> q \<noteq> ?temp \<longrightarrow> dk_files d' q = dk_files d q)"
    by (rule write_temporary_spec [OF run neq off]) (rule full)
  have "\<forall>m \<in> set mints. m \<noteq> []" using assms(3) by (simp add: plain_mint_def)
  then have "collect_mints (read_lines [] ?all) {} = Inr (set mints)"
    using collect_mints_all [of mints "{}"] assms(2) read_lines_mints [OF assms(3)] by simp
  then have "fst (load_frozen_hot_mints path (d'\<lparr>dk_fault := \<lambda>_. None\<rparr>)) = Inr (set mints)"
    using w by (simp add: load_frozen_hot_mints_def path sbind_def disk_read_def sreturn_def)
  moreover have "is_managed_hot_mints_file path directory"
    by (simp add: path hot_mints_file_def is_managed_hot_mints_file_def suffix_def)
  ultimately show ?thesis using w unfolding path by blast
qed

text \<open>C27: Cleaning up deletes exactly the mint files of the directory that the watcher itself has
  written and that no working lane refers to: it touches nothing else whether it fails or not, and when
  it succeeds on a complete listing none of them is left.\<close>

theorem hot_mints_cleanup_exact:
  assumes "cleanup_unused_frozen_hot_mints directory (Inr entries) state d = (r, d')"
    and "\<forall>name. dk_files d (directory, name) \<noteq> None \<longrightarrow> Inr name \<in> set entries"
  shows "(\<forall>p. dk_files d' p = dk_files d p \<or>
      fst p = directory \<and> unused_hot_mints directory state (snd p) \<and> dk_files d' p = None) \<and>
    (isl r \<or> (\<forall>name. unused_hot_mints directory state name \<longrightarrow> dk_files d' (directory, name) = None))"
proof -
  obtain q d1 where run: "remove_unused_hot_mints directory state entries 0 d = (q, d1)" by fastforce
  note one = remove_unused_hot_mints_spec [OF run]
  have sync: "dk_files d' = dk_files d1 \<and> (isl q \<longrightarrow> isl r)"
  proof (cases q)
    case (Inl e)
    then show ?thesis using assms(1) run by (simp add: cleanup_unused_frozen_hot_mints_def sbind_def)
  next
    case (Inr n)
    have "off {} (sthen (swhen (0 < n) disk_sync_all) (sreturn n))"
      by (cases "0 < n") (simp_all add: off_sthen off_sync off_sreturn)
    from offD [OF this] assms(1) run Inr show ?thesis
      by (intro conjI ext) (simp_all add: cleanup_unused_frozen_hot_mints_def sbind_def)
  qed
  have "dk_files d' (directory, name) = None"
    if "\<not> isl r" "unused_hot_mints directory state name" for name
  proof (cases "Inr name \<in> set entries")
    case True
    then show ?thesis using one sync that by auto
  next
    case False
    then have "dk_files d (directory, name) = None" using assms(2) by auto
    then show ?thesis using one sync by (metis (no_types))
  qed
  moreover have "\<forall>p. dk_files d' p = dk_files d p \<or>
      fst p = directory \<and> unused_hot_mints directory state (snd p) \<and> dk_files d' p = None"
    using one sync by simp
  ultimately show ?thesis by blast
qed


section \<open>Witnesses\<close>

text \<open>A format that can write the states with nothing but a watermark.\<close>

definition slot_format :: "watcher_state journal_format" where
  "slot_format = \<lparr>to_vec_pretty = (\<lambda>s. map_option (\<lambda>m. display_nat (unat m)) (ln_max_slot (wt_active s))),
     json_from_str = (\<lambda>text. map_option recovered_active_only (parse_u64 (butlast text))),
     json_version = (\<lambda>_. Some 5), state_from_value = Some, v2_from_value = (\<lambda>_. None)\<rparr>"

definition state_file :: file_path where
  "state_file = (''run'', WATCHER_STATE_FILENAME)"

text \<open>The rename succeeds and the synchronisation of the directory after it fails.\<close>

definition late_fault_disk :: disk where
  "late_fault_disk = \<lparr>dk_files = (\<lambda>_. None), dk_calls = 0, dk_fault = (\<lambda>n. if n = 5 then Some 0 else None)\<rparr>"

lemma slot_format_faithful: "faithful_format slot_format (recovered_active_only slot)"
  by (simp add: faithful_format_def slot_format_def recovered_active_only_def newline_def WATCHER_STATE_VERSION_def)

lemmas disk_run = sthen_def sbind_def disk_create_new_def disk_call_def disk_write_all_def disk_sync_all_def
  disk_rename_def disk_remove_file_def disk_read_def or_else_cleanup_def Let_def

lemma journal_atomic_witness:
  "\<exists>d'. persist_watcher_state slot_format ''9'' state_file (recovered_active_only 7) late_fault_disk = (Inl OtherError, d') \<and>
    fst (load_watcher_state slot_format ''10'' state_file (d'\<lparr>dk_fault := \<lambda>_. None\<rparr>)) = Inr (Some (recovered_active_only 7))"
proof -
  let ?run = "persist_watcher_state slot_format ''9'' state_file (recovered_active_only 7) late_fault_disk"
  have f: "fst ?run = Inl OtherError \<and> dk_files (snd ?run) state_file \<noteq> None"
    by (simp add: persist_watcher_state_def slot_format_def recovered_active_only_def disk_run late_fault_disk_def
        state_file_def state_temporary_def WATCHER_STATE_FILENAME_def)
  then have run: "?run = (Inl OtherError, snd ?run)" by (metis prod.collapse)
  have "dk_files late_fault_disk state_file = None" by (simp add: late_fault_disk_def)
  then show ?thesis
    using journal_atomic [OF slot_format_faithful run, of "''10''"] f run by (metis (lifting))
qed

lemma hot_mints_roundtrip_witness:
  "\<exists>d'. persist_frozen_hot_mints ''9'' ''run'' [''MintA'', ''MintB''] (late_fault_disk\<lparr>dk_fault := \<lambda>_. None\<rparr>) =
      (Inr (hot_mints_file ''run'' ''9''), d') \<and>
    fst (load_frozen_hot_mints (hot_mints_file ''run'' ''9'') (d'\<lparr>dk_fault := \<lambda>_. None\<rparr>)) = Inr {''MintA'', ''MintB''}"
proof -
  let ?run = "persist_frozen_hot_mints ''9'' ''run'' [''MintA'', ''MintB''] (late_fault_disk\<lparr>dk_fault := \<lambda>_. None\<rparr>)"
  have "fst ?run = Inr (hot_mints_file ''run'' ''9'')"
    by (simp add: persist_frozen_hot_mints_def disk_run sreturn_def late_fault_disk_def hot_mints_file_def
        hot_mints_temporary_def HOT_MINTS_FILE_PREFIX_def)
  then have run: "?run = (Inr (hot_mints_file ''run'' ''9''), snd ?run)" by (metis prod.collapse)
  have "set [''MintA'', ''MintB''] = {''MintA'', ''MintB''}" by simp
  then show ?thesis using hot_mints_roundtrip [OF run] run by (intro exI [of _ "snd ?run"]) (simp add: plain_mint_def)
qed

text \<open>Two mint files of an earlier run, one of which the active lane uses, and another file.\<close>

definition cleanup_disk :: disk where
  "cleanup_disk = \<lparr>dk_files = [hot_mints_file ''run'' ''1'' \<mapsto> ''A'', hot_mints_file ''run'' ''2'' \<mapsto> ''B'',
     (''run'', ''notes.txt'') \<mapsto> ''C''], dk_calls = 0, dk_fault = (\<lambda>_. None)\<rparr>"

definition cleanup_state :: watcher_state where
  "cleanup_state = (recovered_active_only 7)\<lparr>wt_active :=
     (wt_active (recovered_active_only 7))\<lparr>ln_hot_mints_path := Some (hot_mints_file ''run'' ''2'')\<rparr>\<rparr>"

lemma hot_mints_cleanup_exact_witness:
  "\<exists>d'. cleanup_unused_frozen_hot_mints ''run''
      (Inr [Inr (snd (hot_mints_file ''run'' ''1'')), Inr (snd (hot_mints_file ''run'' ''2'')), Inr ''notes.txt''])
      cleanup_state cleanup_disk = (Inr 1, d') \<and>
    dk_files d' (hot_mints_file ''run'' ''1'') = None \<and>
    dk_files d' (hot_mints_file ''run'' ''2'') = Some ''B''"
proof -
  let ?entries = "[Inr (snd (hot_mints_file ''run'' ''1'')), Inr (snd (hot_mints_file ''run'' ''2'')), Inr ''notes.txt'']"
  let ?run = "cleanup_unused_frozen_hot_mints ''run'' (Inr ?entries) cleanup_state cleanup_disk"
  note mints = hot_mints_file_def HOT_MINTS_FILE_PREFIX_def HOT_MINTS_FILE_SUFFIX_def is_managed_hot_mints_file_def
    hot_mints_referenced_def cleanup_state_def recovered_active_only_def lane_disabled_def suffix_def
  have "fst ?run = Inr 1"
    by (simp add: cleanup_unused_frozen_hot_mints_def disk_run sreturn_def swhen_def cleanup_disk_def mints)
  then have run: "?run = (Inr 1, snd ?run)" by (metis prod.collapse)
  have listed: "\<forall>name. dk_files cleanup_disk (''run'', name) \<noteq> None \<longrightarrow> Inr name \<in> set ?entries"
    by (simp add: cleanup_disk_def mints)
  note clean = hot_mints_cleanup_exact [OF run listed]
  have "unused_hot_mints ''run'' cleanup_state (snd (hot_mints_file ''run'' ''1''))"
    by (simp add: unused_hot_mints_def mints)
  then have one: "dk_files (snd ?run) (hot_mints_file ''run'' ''1'') = None"
    using clean by (simp add: hot_mints_file_def)
  have "\<not> unused_hot_mints ''run'' cleanup_state (snd (hot_mints_file ''run'' ''2''))"
    by (simp add: unused_hot_mints_def mints)
  then have "dk_files (snd ?run) (hot_mints_file ''run'' ''2'') = dk_files cleanup_disk (hot_mints_file ''run'' ''2'')"
    using clean by metis
  moreover have "dk_files cleanup_disk (hot_mints_file ''run'' ''2'') = Some ''B''"
    by (simp add: cleanup_disk_def mints)
  ultimately show ?thesis using run one by (intro exI [of _ "snd ?run"]) (simp only: simp_thms)
qed


end
