(* ===== verification/Watcher.thy ===== *)
theory Watcher
  imports Watcher_State
begin

text \<open>
  The watcher of \<^verbatim>\<open>main.rs\<close>: \<^verbatim>\<open>run_incremental_snapshots\<close>, its start and one turn of its loop, the
  operations of \<^verbatim>\<open>IncrementalOutput\<close> it uses and the bodies of its worker threads.  Everything outside
  the process (disk, archives, ClickHouse, threads) is the record \<open>watch_env\<close> of operations on a world
  \<open>'w\<close>; each may fail at any time.  The requests are recorded in \<open>wr_events\<close>, a ghost list over which the
  order of checkpoints and destructive work is stated.
\<close>

section \<open>The environment\<close>

text \<open>\<open>sb_full_imported\<close> and \<open>sb_full_import_ack\<close>: whether the build has the receiver and the sender.\<close>

record staging_build =
  sb_snapshot :: full_snapshot
  sb_full_imported :: bool
  sb_full_import_ack :: bool

record 'w watch_env =
  we_persist :: "watcher_state \<Rightarrow> ('w, string, unit) op"
  we_load_state :: "('w, string, watcher_state option) op"
  we_persist_mints :: "string set \<Rightarrow> ('w, string, file_path) op"
  we_load_mints :: "file_path \<Rightarrow> ('w, string, string set) op"
  we_cleanup_mints :: "watcher_state \<Rightarrow> ('w, string, nat) op"
  we_discover_incrementals :: "('w, string, incremental_snapshot list) op"
  we_discover_fulls :: "('w, string, full_snapshot list) op"
  we_path_exists :: "'w \<Rightarrow> string \<Rightarrow> bool"
  we_max_slot :: "('w, string, u64) op"
  we_enabled_mints :: "('w, string, string set) op"
  we_set_merges :: "table_group \<Rightarrow> bool \<Rightarrow> ('w, string, unit) op"
  we_wait_settle :: "table_group \<Rightarrow> ('w, string, unit) op"
  we_reset :: "table_group \<Rightarrow> ('w, string, unit) op"
  we_identity :: "table_group \<Rightarrow> ('w, string, table_group_identity) op"
  we_exchange :: "table_group_identity \<Rightarrow> table_group_identity \<Rightarrow> ('w, string, unit) op"
  we_validate :: "nat \<Rightarrow> ('w, string, unit) op"
  we_new_loader :: "watched_snapshot \<Rightarrow> u64 \<Rightarrow> ('w, string, unit) op"
  we_insert_all :: "watched_snapshot \<Rightarrow> u64 \<Rightarrow> snapshot_kind \<Rightarrow> table_group \<Rightarrow> string set \<Rightarrow> ('w, string, unit) op"
  we_fanout :: "watched_snapshot \<Rightarrow> u64 \<Rightarrow> string set \<Rightarrow> string set \<Rightarrow> ('w, string, unit) op"
  we_spawn_full :: "full_snapshot \<Rightarrow> ('w, string, unit) op"
  we_spawn_merge_wait :: "full_snapshot \<Rightarrow> ('w, string, unit) op"
  we_spawn_incremental :: "incremental_snapshot \<Rightarrow> u64 \<Rightarrow> string set \<Rightarrow> ('w, string, unit) op"
  we_try_recv :: "('w, string, string set option) op"
  we_send_ack :: "('w, string, unit) op"
  we_build_finished :: "'w \<Rightarrow> bool"
  we_build_join :: "staging_build \<Rightarrow> ('w, string, unit) op"
  we_incremental_finished :: "'w \<Rightarrow> bool"
  we_incremental_join :: "('w, string, u64) op"
  we_sleep :: "'w \<Rightarrow> 'w"

datatype watch_event =
    EPersist watcher_state
  | ESetMerges table_group bool
  | EReset table_group
  | EExchange table_group_identity table_group_identity
  | EValidate nat
  | EInsertAll watched_snapshot u64 snapshot_kind table_group
  | EFanout watched_snapshot u64
  | ESpawnFull full_snapshot
  | ESpawnMergeWait full_snapshot
  | ESpawnIncremental incremental_snapshot u64
  | EOther

datatype watch_error = Environment string | Inconsistent string

section \<open>The process\<close>

record 'w watcher =
  wr_world :: 'w
  wr_events :: "(watch_event \<times> bool) list"
  wr_state :: watcher_state
  wr_active_slot :: u64
  wr_bootstrap_pending :: bool
  wr_output_mints :: "string set option"
  wr_staging_mints :: "string set option"
  wr_build :: "staging_build option"
  wr_incremental_handle :: bool
  wr_invalid :: "string set"

type_synonym ('w, 'a) watch_op = "('w watcher, watch_error, 'a) op"

text \<open>A request, recorded with whether it was answered without an error.\<close>

definition ask :: "watch_event \<Rightarrow> ('w, string, 'a) op \<Rightarrow> ('w, 'a) watch_op" where
  "ask ev m s =
     (case m (wr_world s) of
        (Inl e, w) \<Rightarrow> (Inl (Environment e), s\<lparr>wr_world := w, wr_events := wr_events s @ [(ev, False)]\<rparr>)
      | (Inr x, w) \<Rightarrow> (Inr x, s\<lparr>wr_world := w, wr_events := wr_events s @ [(ev, True)]\<rparr>))"

definition sattempt :: "('w, 'a) watch_op \<Rightarrow> ('w, unit) watch_op" where
  "sattempt m s = (Inr (), snd (m s))"

text \<open>\<^verbatim>\<open>match m { Ok(x) => f, Err(e) => g }\<close>.\<close>

definition smatch :: "('s, 'e, 'a) op \<Rightarrow> ('a \<Rightarrow> ('s, 'e, 'b) op) \<Rightarrow> ('e \<Rightarrow> ('s, 'e, 'b) op) \<Rightarrow> ('s, 'e, 'b) op" where
  "smatch m f g s = (case m s of (Inr x, s') \<Rightarrow> f x s' | (Inl e, s') \<Rightarrow> g e s')"

definition required :: "watch_error \<Rightarrow> 'a option \<Rightarrow> ('w, 'a) watch_op" where
  "required e x = (case x of None \<Rightarrow> sfail e | Some y \<Rightarrow> sreturn y)"

definition set_active :: "(lane_state \<Rightarrow> lane_state) \<Rightarrow> ('w, unit) watch_op" where
  "set_active f = supdate (\<lambda>s. s\<lparr>wr_state := (wr_state s)\<lparr>wt_active := f (wt_active (wr_state s))\<rparr>\<rparr>)"

definition set_staging :: "(lane_state \<Rightarrow> lane_state) \<Rightarrow> ('w, unit) watch_op" where
  "set_staging f = supdate (\<lambda>s. s\<lparr>wr_state := (wr_state s)\<lparr>wt_staging := f (wt_staging (wr_state s))\<rparr>\<rparr>)"

definition set_cutover :: "cutover_state option \<Rightarrow> ('w, unit) watch_op" where
  "set_cutover c = supdate (\<lambda>s. s\<lparr>wr_state := (wr_state s)\<lparr>wt_cutover := c\<rparr>\<rparr>)"

definition set_shared :: "shared_full_load_state option \<Rightarrow> ('w, unit) watch_op" where
  "set_shared c = supdate (\<lambda>s. s\<lparr>wr_state := (wr_state s)\<lparr>wt_shared := c\<rparr>\<rparr>)"

definition checkpoint :: "'w watch_env \<Rightarrow> ('w, unit) watch_op" where
  "checkpoint env s = ask (EPersist (wr_state s)) (we_persist env (wr_state s)) s"

definition cleanup_or_warn :: "'w watch_env \<Rightarrow> ('w, unit) watch_op" where
  "cleanup_or_warn env s = sattempt (ask EOther (we_cleanup_mints env (wr_state s))) s"

section \<open>The output\<close>

definition hot_mints_for :: "'w watch_env \<Rightarrow> snapshot_kind \<Rightarrow> ('w, string set) watch_op" where
  "hot_mints_for env kind =
     sbind (sread wr_output_mints) (\<lambda>hot_mints.
     sbind (if kind = Full then ask EOther (we_enabled_mints env)
            else case hot_mints of Some mints \<Rightarrow> sreturn mints | None \<Rightarrow> ask EOther (we_enabled_mints env)) (\<lambda>mints.
     sthen (supdate (\<lambda>s. s\<lparr>wr_output_mints := Some mints\<rparr>)) (sreturn mints)))"

definition frozen_hot_mints :: "('w, string set) watch_op" where
  "frozen_hot_mints =
     sbind (sread wr_output_mints) (required (Inconsistent ''no frozen hot-token set is loaded for this output''))"

definition output_process ::
  "'w watch_env \<Rightarrow> watched_snapshot \<Rightarrow> u64 \<Rightarrow> snapshot_kind \<Rightarrow> table_group \<Rightarrow> ('w, unit) watch_op" where
  "output_process env candidate resume kind grp =
     sbind (hot_mints_for env kind) (\<lambda>mints.
       ask (EInsertAll candidate resume kind grp) (we_insert_all env candidate resume kind grp mints))"

definition process_shared_full_fanout ::
  "'w watch_env \<Rightarrow> watched_snapshot \<Rightarrow> u64 \<Rightarrow> string set \<Rightarrow> ('w, unit) watch_op" where
  "process_shared_full_fanout env candidate active_resume_slot staging_hot_mints =
     sbind frozen_hot_mints (\<lambda>active_hot_mints.
       ask (EFanout candidate active_resume_slot) (we_fanout env candidate active_resume_slot active_hot_mints staging_hot_mints))"

definition reset_failed_staging :: "'w watch_env \<Rightarrow> ('w, unit) watch_op" where
  "reset_failed_staging env =
     sthen (sattempt (ask (ESetMerges Backup False) (we_set_merges env Backup False)))
     (sthen (sattempt (ask (EReset Backup) (we_reset env Backup)))
            (supdate (\<lambda>s. s\<lparr>wr_world := we_sleep env (wr_world s)\<rparr>)))"

section \<open>Imports\<close>

definition apply_active_incremental :: "'w watch_env \<Rightarrow> watched_snapshot \<Rightarrow> ('w, bool) watch_op" where
  "apply_active_incremental env candidate =
     sbind (sread wr_active_slot) (\<lambda>active_slot.
       if watched_slot candidate \<le> active_slot then sreturn False
       else
         sthen (ask EOther (we_new_loader env candidate active_slot))
         (sthen (set_active (\<lambda>l. l\<lparr>ln_phase := IncrementalLoading, ln_inflight := Some (inflight_snapshot candidate)\<rparr>))
         (sthen (checkpoint env)
         (sthen (output_process env candidate active_slot Incremental Active)
         (sthen (supdate (\<lambda>s. s\<lparr>wr_active_slot := watched_slot candidate\<rparr>))
         (sthen (set_active (\<lambda>l. l\<lparr>ln_max_slot := Some (watched_slot candidate), ln_phase := Ready, ln_inflight := None\<rparr>))
         (sthen (checkpoint env) (sreturn True))))))))"

definition process_bootstrap_full :: "'w watch_env \<Rightarrow> full_snapshot \<Rightarrow> ('w, u64) watch_op" where
  "process_bootstrap_full env snapshot =
     sthen (set_active (\<lambda>_. lane_full_loading (full_snapshot_state snapshot)))
     (sthen (set_staging (\<lambda>_. lane_disabled))
     (sthen (set_cutover None)
     (sthen (checkpoint env)
     (sthen (ask (ESetMerges Active False) (we_set_merges env Active False))
     (sthen (ask (EReset Active) (we_reset env Active))
     (sthen (ask EOther (we_new_loader env (WFull snapshot) 0))
     (sthen (output_process env (WFull snapshot) 0 Full Active)
     (sbind frozen_hot_mints (\<lambda>mints.
      sbind (ask EOther (we_persist_mints env mints)) (\<lambda>path.
      sthen (set_active (\<lambda>l. l\<lparr>ln_phase := FullMerging, ln_max_slot := Some (fs_slot snapshot),
               ln_hot_mints_path := Some path, ln_inflight := None\<rparr>))
     (sthen (checkpoint env)
     (sthen (ask (ESetMerges Active True) (we_set_merges env Active True))
     (sthen (ask EOther (we_wait_settle env Active))
     (sthen (set_active (\<lambda>l. l\<lparr>ln_phase := Ready\<rparr>))
     (sthen (checkpoint env)
            (sreturn (fs_slot snapshot)))))))))))))))))"

definition begin_shared_full_load :: "'w watch_env \<Rightarrow> full_snapshot \<Rightarrow> ('w, string set) watch_op" where
  "begin_shared_full_load env snapshot =
     sbind (sread wr_state) (\<lambda>st.
       if ln_phase (wt_staging st) \<noteq> Disabled
       then sfail (Inconsistent ''cannot begin shared full load while staging is not disabled'')
       else if ln_phase (wt_active st) \<noteq> Ready
       then sfail (Inconsistent ''cannot begin shared full load while active is not ready'')
       else
         sbind (required (Inconsistent ''ready active has no committed max_slot'') (ln_max_slot (wt_active st)))
           (\<lambda>active_resume_slot.
         sbind (ask EOther (we_enabled_mints env)) (\<lambda>staging_hot_mints.
         sbind (ask EOther (we_persist_mints env staging_hot_mints)) (\<lambda>path.
         sthen (set_staging (\<lambda>_. (lane_full_loading (full_snapshot_state snapshot))\<lparr>ln_hot_mints_path := Some path\<rparr>))
         (sthen (set_active (\<lambda>l. l\<lparr>ln_phase := IncrementalLoading, ln_inflight := Some (inflight_snapshot (WFull snapshot))\<rparr>))
         (sthen (set_cutover None)
         (sthen (set_shared (Some \<lparr>sh_snapshot = full_snapshot_state snapshot, sh_active_resume_slot = active_resume_slot\<rparr>))
         (sthen (checkpoint env)
         (sthen (cleanup_or_warn env)
                (sreturn staging_hot_mints))))))))))"

definition same_archive :: "full_snapshot \<Rightarrow> full_snapshot \<Rightarrow> bool" where
  "same_archive a b \<longleftrightarrow> components (fs_path a) = components (fs_path b) \<and> fs_slot a = fs_slot b"

definition spawn_staging_merge_wait :: "'w watch_env \<Rightarrow> full_snapshot \<Rightarrow> ('w, staging_build) watch_op" where
  "spawn_staging_merge_wait env snapshot =
     sthen (ask (ESpawnMergeWait snapshot) (we_spawn_merge_wait env snapshot))
       (sreturn \<lparr>sb_snapshot = snapshot, sb_full_imported = False, sb_full_import_ack = False\<rparr>)"

definition spawn_staging_full :: "'w watch_env \<Rightarrow> full_snapshot \<Rightarrow> ('w, staging_build) watch_op" where
  "spawn_staging_full env snapshot =
     sthen (ask (ESpawnFull snapshot) (we_spawn_full env snapshot))
       (sreturn \<lparr>sb_snapshot = full_snapshot_state snapshot, sb_full_imported = True, sb_full_import_ack = True\<rparr>)"

definition complete_shared_full_load ::
  "'w watch_env \<Rightarrow> full_snapshot \<Rightarrow> string set \<Rightarrow> ('w, staging_build option) watch_op" where
  "complete_shared_full_load env snapshot staging_hot_mints =
     sbind (sread wr_state) (\<lambda>st.
     sbind (required (Inconsistent ''shared full completion without a shared-full checkpoint'') (wt_shared st)) (\<lambda>shared.
       if ln_phase (wt_staging st) \<noteq> FullLoading \<or> ln_phase (wt_active st) \<noteq> IncrementalLoading
       then sfail (Inconsistent ''shared full checkpoint has incompatible lane phases'')
       else
         sbind (required (Inconsistent ''shared full checkpoint has no active inflight archive'') (ln_inflight (wt_active st)))
           (\<lambda>active_inflight.
         if in_kind active_inflight \<noteq> PersistedFull \<or> \<not> same_archive snapshot (sh_snapshot shared)
         then sfail (Inconsistent ''shared full checkpoint does not match the recorded archive'')
         else if ln_max_slot (wt_active st) \<noteq> Some (sh_active_resume_slot shared)
         then sfail (Inconsistent ''shared full checkpoint expected another active max_slot'')
         else
           sthen (ask EOther (we_new_loader env (WFull snapshot) 0))
           (sthen (process_shared_full_fanout env (WFull snapshot) (sh_active_resume_slot shared) staging_hot_mints)
           (sthen (set_active (\<lambda>l. l\<lparr>ln_max_slot := Some (fs_slot snapshot), ln_phase := Ready, ln_inflight := None\<rparr>))
           (sthen (set_staging (\<lambda>l. l\<lparr>ln_max_slot := Some (fs_slot snapshot), ln_phase := FullMerging, ln_inflight := None\<rparr>))
           (sthen (set_shared None)
           (sthen (checkpoint env)
             (smatch (spawn_staging_merge_wait env (sh_snapshot shared))
                (\<lambda>build. sreturn (Some build)) (\<lambda>_. sreturn None))))))))))"

section \<open>Cutover\<close>

definition finish_cutover :: "'w watch_env \<Rightarrow> string set \<Rightarrow> ('w, unit) watch_op" where
  "finish_cutover env staging_hot_mints =
     sbind (sread wr_state) (\<lambda>st.
       if ln_phase (wt_active st) \<noteq> CutoverPending \<or> ln_phase (wt_staging st) \<noteq> CutoverPending then sreturn ()
       else
         sbind (required (Inconsistent ''cutover pending without a committed staging max_slot'') (ln_max_slot (wt_staging st)))
           (\<lambda>staging_slot.
         sthen (swhen (Option.is_none (wt_cutover st))
           (sthen (ask (EValidate (card staging_hot_mints)) (we_validate env (card staging_hot_mints)))
           (sbind (ask EOther (we_identity env Active)) (\<lambda>active_tables.
            sbind (ask EOther (we_identity env Backup)) (\<lambda>staging_tables.
            sthen (set_cutover (Some \<lparr>cu_active_tables = active_tables, cu_staging_tables = staging_tables\<rparr>))
                  (checkpoint env))))))
         (sbind (sread (\<lambda>s. wt_cutover (wr_state s))) (\<lambda>cutover.
          sbind (required (Inconsistent ''cutover checkpoint disappeared before exchange'') cutover) (\<lambda>cu.
          sthen (ask (EExchange (cu_active_tables cu) (cu_staging_tables cu))
                   (we_exchange env (cu_active_tables cu) (cu_staging_tables cu)))
          (sthen (supdate (\<lambda>s. s\<lparr>wr_output_mints := Some staging_hot_mints\<rparr>))
          (sbind (sread wr_state) (\<lambda>st.
           sthen (set_active (\<lambda>_. (wt_staging st)\<lparr>ln_phase := Ready, ln_inflight := None\<rparr>))
          (sthen (set_staging (\<lambda>_. (wt_active st)\<lparr>ln_phase := Disabled, ln_inflight := None, ln_hot_mints_path := None\<rparr>))
          (sthen (set_cutover None)
          (sthen (set_shared None)
          (sthen (checkpoint env)
                 (cleanup_or_warn env)))))))))))))"

section \<open>One turn of the loop\<close>

text \<open>A stage returns whether the turn ends there (\<^verbatim>\<open>continue\<close>).\<close>

definition or_next :: "('w, bool) watch_op \<Rightarrow> ('w, bool) watch_op \<Rightarrow> ('w, bool) watch_op" where
  "or_next stage rest = sbind stage (\<lambda>ends. if ends then sreturn True else rest)"

definition poll_full_imported :: "'w watch_env \<Rightarrow> ('w, bool) watch_op" where
  "poll_full_imported env =
     sbind (sread (\<lambda>s. s)) (\<lambda>s.
       case wr_build s of
         Some build \<Rightarrow>
           if ln_phase (wt_staging (wr_state s)) = FullLoading \<and> sb_full_imported build then
             sbind (ask EOther (we_try_recv env)) (\<lambda>imported.
               case imported of
                 None \<Rightarrow> sreturn False
               | Some hot_mints \<Rightarrow>
                   sbind (ask EOther (we_persist_mints env hot_mints)) (\<lambda>path.
                   sthen (set_staging (\<lambda>l. l\<lparr>ln_phase := FullMerging, ln_max_slot := Some (fs_slot (sb_snapshot build)),
                            ln_hot_mints_path := Some path, ln_inflight := None\<rparr>))
                   (sthen (checkpoint env)
                   (sthen (cleanup_or_warn env)
                   (sthen (supdate (\<lambda>s. s\<lparr>wr_staging_mints := Some hot_mints\<rparr>))
                   (if \<not> sb_full_import_ack build
                    then sfail (Inconsistent ''staging full worker has no merge-start acknowledgement'')
                    else sthen (supdate (\<lambda>s. s\<lparr>wr_build := Some (build\<lparr>sb_full_import_ack := False\<rparr>)\<rparr>))
                           (sthen (ask EOther (we_send_ack env)) (sreturn False))))))))
           else sreturn False
       | None \<Rightarrow> sreturn False)"

definition join_staging_build :: "'w watch_env \<Rightarrow> ('w, bool) watch_op" where
  "join_staging_build env =
     sbind (sread (\<lambda>s. s)) (\<lambda>s.
       case wr_build s of
         Some build \<Rightarrow>
           if we_build_finished env (wr_world s) then
             sthen (supdate (\<lambda>s. s\<lparr>wr_build := None\<rparr>))
             (smatch (ask EOther (we_build_join env build))
                (\<lambda>_. if ln_phase (wt_staging (wr_state s)) \<noteq> FullMerging
                   then sfail (Inconsistent ''staging full worker finished without a full_merging checkpoint'')
                   else sthen (set_staging (\<lambda>l. l\<lparr>ln_phase := Ready\<rparr>)) (sthen (checkpoint env) (sreturn False)))
                (\<lambda>e. if ln_phase (wt_staging (wr_state s)) = FullMerging then sfail e
                   else sthen (reset_failed_staging env) (sreturn False)))
           else sreturn False
       | None \<Rightarrow> sreturn False)"

definition join_staging_incremental :: "'w watch_env \<Rightarrow> ('w, bool) watch_op" where
  "join_staging_incremental env =
     sbind (sread (\<lambda>s. s)) (\<lambda>s.
       if wr_incremental_handle s \<and> we_incremental_finished env (wr_world s) then
         sthen (supdate (\<lambda>s. s\<lparr>wr_incremental_handle := False\<rparr>))
         (sbind (ask EOther (we_incremental_join env)) (\<lambda>slot.
          sthen (set_staging (\<lambda>l. l\<lparr>ln_max_slot := Some slot, ln_phase := CutoverPending, ln_inflight := None\<rparr>))
          (sthen (set_active (\<lambda>l. l\<lparr>ln_phase := CutoverPending, ln_inflight := None\<rparr>))
          (sthen (checkpoint env) (sreturn False)))))
       else sreturn False)"

definition committed_slot :: "lane_state \<Rightarrow> u64" where
  "committed_slot l = (case ln_max_slot l of None \<Rightarrow> 0 | Some m \<Rightarrow> m)"

definition take_active_slot :: "('w, unit) watch_op" where
  "take_active_slot = supdate (\<lambda>s. s\<lparr>wr_active_slot := committed_slot (wt_active (wr_state s))\<rparr>)"

definition run_cutover :: "'w watch_env \<Rightarrow> ('w, bool) watch_op" where
  "run_cutover env =
     sbind (sread (\<lambda>s. s)) (\<lambda>s.
       if ln_phase (wt_active (wr_state s)) = CutoverPending \<and> ln_phase (wt_staging (wr_state s)) = CutoverPending then
         sbind (required (Inconsistent ''cutover pending without staging frozen hot-mint set'') (wr_staging_mints s)) (\<lambda>mints.
         sthen (finish_cutover env mints)
         (sthen take_active_slot
         (sthen (supdate (\<lambda>s. s\<lparr>wr_staging_mints := None\<rparr>)) (sreturn True))))
       else sreturn False)"

definition run_shared_full :: "'w watch_env \<Rightarrow> full_snapshot list \<Rightarrow> ('w, bool) watch_op" where
  "run_shared_full env fulls =
     sbind (sread (\<lambda>s. s)) (\<lambda>s.
       case wt_shared (wr_state s) of
         None \<Rightarrow> sreturn False
       | Some shared \<Rightarrow>
           if wr_build s \<noteq> None \<or> wr_incremental_handle s
           then sfail (Inconsistent ''shared full checkpoint conflicts with a staging worker'')
           else
             smatch (ask (ESetMerges Backup False) (we_set_merges env Backup False)) (\<lambda>_.
             smatch (ask (EReset Backup) (we_reset env Backup)) (\<lambda>_.
               sbind (required (Environment ''cannot resume full snapshot: archive is missing'')
                        (find_recorded_full fulls (sh_snapshot shared))) (\<lambda>snapshot.
               sbind (required (Inconsistent ''shared full checkpoint has no frozen staging hot-mint set'')
                        (wr_staging_mints s)) (\<lambda>mints.
               smatch (complete_shared_full_load env snapshot mints)
                 (\<lambda>build. sthen take_active_slot (sthen (supdate (\<lambda>s. s\<lparr>wr_build := build\<rparr>)) (sreturn True)))
                 (\<lambda>_. sthen (reset_failed_staging env) (sreturn True)))))
               (\<lambda>_. sthen (reset_failed_staging env) (sreturn True)))
               (\<lambda>_. sthen (reset_failed_staging env) (sreturn True)))"

definition resume_active_full_merging :: "'w watch_env \<Rightarrow> ('w, bool) watch_op" where
  "resume_active_full_merging env =
     sbind (sread (\<lambda>s. wt_active (wr_state s))) (\<lambda>active.
       if ln_phase active = FullMerging then
         sbind (required (Inconsistent ''active full_merging without full snapshot'') (ln_full_snapshot active)) (\<lambda>full.
         sthen (ask (ESetMerges Active True) (we_set_merges env Active True))
         (sthen (ask EOther (we_wait_settle env Active))
         (sthen (set_active (\<lambda>l. l\<lparr>ln_phase := Ready\<rparr>))
         (sthen (checkpoint env)
         (sthen take_active_slot
         (sthen (supdate (\<lambda>s. s\<lparr>wr_bootstrap_pending := False\<rparr>)) (sreturn True)))))))
       else sreturn False)"

definition after_bootstrap :: "u64 \<Rightarrow> ('w, bool) watch_op" where
  "after_bootstrap slot = sthen (supdate (\<lambda>s. s\<lparr>wr_active_slot := slot, wr_bootstrap_pending := False\<rparr>)) (sreturn True)"

definition resume_active_full_loading :: "'w watch_env \<Rightarrow> full_snapshot list \<Rightarrow> ('w, bool) watch_op" where
  "resume_active_full_loading env fulls =
     sbind (sread (\<lambda>s. wt_active (wr_state s))) (\<lambda>active.
       if ln_phase active = FullLoading then
         sbind (required (Inconsistent ''active full_loading without full snapshot'') (ln_full_snapshot active)) (\<lambda>recorded.
         sbind (required (Environment ''cannot resume full snapshot: archive is missing'') (find_recorded_full fulls recorded))
           (\<lambda>snapshot.
         sbind (process_bootstrap_full env snapshot) after_bootstrap))
       else sreturn False)"

definition active_ready_again :: "'w watch_env \<Rightarrow> ('w, unit) watch_op" where
  "active_ready_again env = sthen (set_active (\<lambda>l. l\<lparr>ln_phase := Ready, ln_inflight := None\<rparr>)) (checkpoint env)"

definition resume_active_incremental ::
  "'w watch_env \<Rightarrow> incremental_snapshot list \<Rightarrow> full_snapshot list \<Rightarrow> ('w, bool) watch_op" where
  "resume_active_incremental env incrementals fulls =
     sbind (sread (\<lambda>s. s)) (\<lambda>s.
       if ln_phase (wt_active (wr_state s)) = IncrementalLoading then
         sbind (required (Inconsistent ''active incremental_loading without inflight snapshot'')
                  (ln_inflight (wt_active (wr_state s)))) (\<lambda>recorded.
           case (case in_kind recorded of
                   PersistedFull \<Rightarrow> (case eligible_full_candidates fulls (wr_active_slot s) of
                       [] \<Rightarrow> None | f # _ \<Rightarrow> Some (WFull f))
                 | PersistedIncremental \<Rightarrow> map_option WIncremental (newest_eligible_incremental incrementals (wr_active_slot s)))
           of
             None \<Rightarrow> sthen (active_ready_again env) (sreturn True)
           | Some candidate \<Rightarrow>
               sbind (apply_active_incremental env candidate) (\<lambda>applied.
               sthen (swhen (\<not> applied) (active_ready_again env)) (sreturn True)))
       else sreturn False)"

definition respawn_staging_full :: "'w watch_env \<Rightarrow> full_snapshot list \<Rightarrow> ('w, bool) watch_op" where
  "respawn_staging_full env fulls =
     sbind (sread (\<lambda>s. s)) (\<lambda>s.
       if wr_build s = None \<and> ln_phase (wt_staging (wr_state s)) = FullLoading then
         sbind (required (Inconsistent ''staging full_loading without full snapshot'')
                  (ln_full_snapshot (wt_staging (wr_state s)))) (\<lambda>recorded.
         sbind (required (Environment ''cannot resume full snapshot: archive is missing'') (find_recorded_full fulls recorded))
           (\<lambda>snapshot.
         sbind (spawn_staging_full env snapshot) (\<lambda>build.
         sthen (supdate (\<lambda>s. s\<lparr>wr_build := Some build\<rparr>)) (sreturn False))))
       else sreturn False)"

definition respawn_merge_wait :: "'w watch_env \<Rightarrow> ('w, bool) watch_op" where
  "respawn_merge_wait env =
     sbind (sread (\<lambda>s. s)) (\<lambda>s.
       if wr_build s = None \<and> ln_phase (wt_staging (wr_state s)) = FullMerging then
         sbind (required (Inconsistent ''staging full_merging without full snapshot'')
                  (ln_full_snapshot (wt_staging (wr_state s)))) (\<lambda>recorded.
         sbind (spawn_staging_merge_wait env recorded) (\<lambda>build.
         sthen (supdate (\<lambda>s. s\<lparr>wr_build := Some build\<rparr>)) (sreturn False)))
       else sreturn False)"

definition respawn_staging_incremental :: "'w watch_env \<Rightarrow> incremental_snapshot list \<Rightarrow> ('w, bool) watch_op" where
  "respawn_staging_incremental env incrementals =
     sbind (sread (\<lambda>s. s)) (\<lambda>s.
       let staging = wt_staging (wr_state s) in
       if \<not> wr_incremental_handle s \<and> ln_phase staging = IncrementalLoading then
         sbind (required (Inconsistent ''staging incremental_loading without inflight snapshot'') (ln_inflight staging)) (\<lambda>recorded.
         sbind (required (Inconsistent ''staging incremental_loading without a committed max_slot'') (ln_max_slot staging)) (\<lambda>stage_slot.
           if in_kind recorded \<noteq> PersistedIncremental
           then sfail (Inconsistent ''staging incremental_loading has a non-incremental marker'')
           else case newest_eligible_incremental incrementals stage_slot of
             None \<Rightarrow>
               sthen (set_staging (\<lambda>l. l\<lparr>ln_phase := Ready, ln_inflight := None\<rparr>)) (sthen (checkpoint env) (sreturn True))
           | Some snapshot \<Rightarrow>
               sbind (required (Inconsistent ''staging restart requires frozen hot-mint set'') (wr_staging_mints s)) (\<lambda>mints.
               sthen (ask (ESpawnIncremental snapshot stage_slot) (we_spawn_incremental env snapshot stage_slot mints))
               (sthen (supdate (\<lambda>s. s\<lparr>wr_incremental_handle := True\<rparr>)) (sreturn False)))))
       else sreturn False)"

definition run_bootstrap :: "'w watch_env \<Rightarrow> full_snapshot list \<Rightarrow> ('w, bool) watch_op" where
  "run_bootstrap env fulls =
     sbind (sread (\<lambda>s. s)) (\<lambda>s.
       if wr_bootstrap_pending s \<or> ln_phase (wt_active (wr_state s)) = WaitingForFull then
         case newest_full_generation fulls None of
           None \<Rightarrow> sreturn False
         | Some snapshot \<Rightarrow> sbind (process_bootstrap_full env snapshot) after_bootstrap
       else sreturn False)"

definition start_new_generation :: "'w watch_env \<Rightarrow> full_snapshot list \<Rightarrow> ('w, bool) watch_op" where
  "start_new_generation env fulls =
     sbind (sread (\<lambda>s. s)) (\<lambda>s.
       if ln_phase (wt_staging (wr_state s)) = Disabled \<and> wr_build s = None then
         case newest_full_generation fulls (map_option fs_slot (ln_full_snapshot (wt_active (wr_state s)))) of
           None \<Rightarrow> sreturn False
         | Some snapshot \<Rightarrow>
             sbind (begin_shared_full_load env snapshot) (\<lambda>mints.
             sthen (supdate (\<lambda>s. s\<lparr>wr_staging_mints := Some mints\<rparr>)) (sreturn True))
       else sreturn False)"

definition first_valid :: "string set \<Rightarrow> incremental_snapshot list \<Rightarrow> u64 \<Rightarrow> incremental_snapshot option" where
  "first_valid invalid incrementals slot =
     (case filter (\<lambda>s. is_path s \<notin> invalid) (eligible_candidates incrementals slot) of [] \<Rightarrow> None | s # _ \<Rightarrow> Some s)"

definition continues :: "incremental_snapshot \<Rightarrow> u64 \<Rightarrow> bool" where
  "continues s slot \<longleftrightarrow> slot < is_slot s \<and> is_base_slot s \<le> slot"

definition start_staging_incremental :: "'w watch_env \<Rightarrow> incremental_snapshot \<Rightarrow> ('w, unit) watch_op" where
  "start_staging_incremental env incremental =
     sbind (sread (\<lambda>s. s)) (\<lambda>s.
       case ln_max_slot (wt_staging (wr_state s)) of
         Some stage_slot \<Rightarrow>
           if \<not> wr_incremental_handle s \<and> ln_phase (wt_staging (wr_state s)) = Ready \<and> continues incremental stage_slot then
             sbind (required (Inconsistent ''staging incremental selected without frozen hot-mint set'') (wr_staging_mints s)) (\<lambda>mints.
             sthen (set_staging (\<lambda>l. l\<lparr>ln_phase := IncrementalLoading,
                      ln_inflight := Some (inflight_snapshot (WIncremental incremental))\<rparr>))
             (sthen (checkpoint env)
             (sthen (ask (ESpawnIncremental incremental stage_slot) (we_spawn_incremental env incremental stage_slot mints))
                    (supdate (\<lambda>s. s\<lparr>wr_incremental_handle := True\<rparr>)))))
           else sreturn ()
       | None \<Rightarrow> sreturn ())"

definition start_active_incremental :: "'w watch_env \<Rightarrow> incremental_snapshot \<Rightarrow> ('w, unit) watch_op" where
  "start_active_incremental env incremental =
     sbind (sread (\<lambda>s. s)) (\<lambda>s.
       if ln_phase (wt_active (wr_state s)) = Ready \<and> continues incremental (wr_active_slot s) then
         smatch (apply_active_incremental env (WIncremental incremental))
           (\<lambda>_. sreturn ())
           (\<lambda>e. sthen (supdate (\<lambda>s. s\<lparr>wr_invalid := insert (is_path incremental) (wr_invalid s)\<rparr>)) (sfail e))
       else sreturn ())"

definition run_incrementals :: "'w watch_env \<Rightarrow> incremental_snapshot list \<Rightarrow> ('w, bool) watch_op" where
  "run_incrementals env incrementals =
     sbind (sread (\<lambda>s. s)) (\<lambda>s.
       let active_candidate = (if ln_phase (wt_active (wr_state s)) = Ready
             then first_valid (wr_invalid s) incrementals (wr_active_slot s) else None) in
       sbind (if \<not> wr_incremental_handle s \<and> ln_phase (wt_staging (wr_state s)) = Ready
              then sbind (required (Inconsistent ''ready staging without max_slot'') (ln_max_slot (wt_staging (wr_state s))))
                     (\<lambda>stage_slot. sreturn (first_valid (wr_invalid s) incrementals stage_slot))
              else sreturn None) (\<lambda>staging_candidate.
         case (case staging_candidate of Some c \<Rightarrow> Some c | None \<Rightarrow> active_candidate) of
           None \<Rightarrow> sreturn False
         | Some incremental \<Rightarrow>
             sthen (start_staging_incremental env incremental)
             (sthen (start_active_incremental env incremental) (sreturn True))))"

definition wait_for_poll :: "'w watch_env \<Rightarrow> ('w, bool) watch_op" where
  "wait_for_poll env =
     sthen (supdate (\<lambda>s. s\<lparr>wr_world := we_sleep env (wr_world s)\<rparr>))
     (sthen (supdate (\<lambda>s. s\<lparr>wr_invalid := {p \<in> wr_invalid s. we_path_exists env (wr_world s) p}\<rparr>))
            (sreturn True))"

definition turn_after_discovery ::
  "'w watch_env \<Rightarrow> incremental_snapshot list \<Rightarrow> full_snapshot list \<Rightarrow> ('w, bool) watch_op" where
  "turn_after_discovery env incrementals fulls =
     or_next (run_shared_full env fulls)
    (or_next (resume_active_full_merging env)
    (or_next (resume_active_full_loading env fulls)
    (or_next (resume_active_incremental env incrementals fulls)
    (or_next (respawn_staging_full env fulls)
    (or_next (respawn_merge_wait env)
    (or_next (respawn_staging_incremental env incrementals)
    (or_next (run_bootstrap env fulls)
    (or_next (start_new_generation env fulls)
    (or_next (run_incrementals env incrementals)
             (wait_for_poll env))))))))))"

definition watch_turn :: "'w watch_env \<Rightarrow> ('w, bool) watch_op" where
  "watch_turn env =
     or_next (poll_full_imported env)
    (or_next (join_staging_build env)
    (or_next (join_staging_incremental env)
    (or_next (run_cutover env)
    (sbind (ask EOther (we_discover_incrementals env)) (\<lambda>incrementals.
     sbind (ask EOther (we_discover_fulls env)) (\<lambda>fulls.
       turn_after_discovery env incrementals fulls))))))"

section \<open>Start\<close>

definition resume_slot_from_max_updated_slot :: "u64 \<Rightarrow> u64 \<Rightarrow> u64" where
  "resume_slot_from_max_updated_slot newest rewind = saturating_sub newest rewind"

definition initial_watcher_state :: "'w watch_env \<Rightarrow> bool \<Rightarrow> u64 \<Rightarrow> ('w, watcher_state) watch_op" where
  "initial_watcher_state env bootstrap rewind =
     (if bootstrap then
        sbind (ask EOther (we_max_slot env)) (\<lambda>max_slot.
        let st = bootstrap_preserving_active max_slot in
        sthen (ask (EPersist st) (we_persist env st))
        (sthen (ask EOther (we_cleanup_mints env st)) (sreturn st)))
      else
        sbind (ask EOther (we_load_state env)) (\<lambda>loaded.
          case loaded of
            Some st \<Rightarrow> sreturn st
          | None \<Rightarrow>
              sbind (ask EOther (we_max_slot env)) (\<lambda>max_slot.
              let st = recovered_active_only (resume_slot_from_max_updated_slot max_slot rewind) in
              sthen (ask (EPersist st) (we_persist env st)) (sreturn st))))"

definition load_output_mints :: "'w watch_env \<Rightarrow> file_path option \<Rightarrow> ('w, string set) watch_op" where
  "load_output_mints env recorded =
     (case recorded of
        Some path \<Rightarrow> ask EOther (we_load_mints env path)
      | None \<Rightarrow>
          sbind (ask EOther (we_enabled_mints env)) (\<lambda>mints.
          sbind (ask EOther (we_persist_mints env mints)) (\<lambda>path.
          sthen (set_active (\<lambda>l. l\<lparr>ln_hot_mints_path := Some path\<rparr>))
          (sthen (checkpoint env) (sreturn mints)))))"

definition load_staging_mints :: "'w watch_env \<Rightarrow> lane_state \<Rightarrow> ('w, string set option) watch_op" where
  "load_staging_mints env staging =
     (case ln_hot_mints_path staging of
        Some path \<Rightarrow>
          if ln_phase staging \<noteq> Disabled
          then sbind (ask EOther (we_load_mints env path)) (\<lambda>mints. sreturn (Some mints)) else sreturn None
      | None \<Rightarrow> sreturn None)"

definition enter_loop :: "'w watch_env \<Rightarrow> watcher_state \<Rightarrow> ('w, unit) watch_op" where
  "enter_loop env st =
     (let pending = ln_phase (wt_active st) \<in> {WaitingForFull, FullLoading} in
      sthen (supdate (\<lambda>s. s\<lparr>wr_bootstrap_pending := pending\<rparr>))
     (sthen take_active_slot
     (sthen (swhen (\<not> pending)
        (sbind (load_output_mints env (ln_hot_mints_path (wt_active st)))
           (\<lambda>mints. supdate (\<lambda>s. s\<lparr>wr_output_mints := Some mints\<rparr>))))
     (sbind (load_staging_mints env (wt_staging st))
        (\<lambda>mints. supdate (\<lambda>s. s\<lparr>wr_staging_mints := mints, wr_build := None, wr_incremental_handle := False,
             wr_invalid := {}\<rparr>))))))"

definition start_watcher :: "'w watch_env \<Rightarrow> bool \<Rightarrow> u64 \<Rightarrow> ('w, unit) watch_op" where
  "start_watcher env bootstrap rewind =
     sbind (initial_watcher_state env bootstrap rewind) (\<lambda>loaded.
     sthen (supdate (\<lambda>s. s\<lparr>wr_state := snd (clear_disabled_hot_mints_paths loaded)\<rparr>))
     (sthen (swhen (fst (clear_disabled_hot_mints_paths loaded)) (checkpoint env))
     (sthen (cleanup_or_warn env)
            (enter_loop env (snd (clear_disabled_hot_mints_paths loaded))))))"

section \<open>Worker threads\<close>

text \<open>\<open>send\<close> and \<open>receive\<close> are the ends of the channels to the watcher.\<close>

definition build_staging_full ::
  "'w watch_env \<Rightarrow> (string set \<Rightarrow> ('w, string, unit) op) \<Rightarrow> ('w, string, unit) op \<Rightarrow> full_snapshot \<Rightarrow> ('w, string, unit) op" where
  "build_staging_full env send receive snapshot =
     sthen (we_set_merges env Backup False)
     (sthen (we_reset env Backup)
     (sthen (we_new_loader env (WFull snapshot) 0)
     (sbind (we_enabled_mints env) (\<lambda>hot_mints.
      sthen (we_insert_all env (WFull snapshot) 0 Full Backup hot_mints)
     (sthen (send hot_mints)
     (sthen receive
     (sthen (we_set_merges env Backup True)
            (we_wait_settle env Backup))))))))"

definition wait_for_staging_merges :: "'w watch_env \<Rightarrow> ('w, string, unit) op" where
  "wait_for_staging_merges env = sthen (we_set_merges env Backup True) (we_wait_settle env Backup)"

definition process_incremental_in_background ::
  "'w watch_env \<Rightarrow> incremental_snapshot \<Rightarrow> table_group \<Rightarrow> u64 \<Rightarrow> string set \<Rightarrow> ('w, string, unit) op" where
  "process_incremental_in_background env snapshot grp resume_slot hot_mints =
     sthen (we_new_loader env (WIncremental snapshot) resume_slot)
           (we_insert_all env (WIncremental snapshot) resume_slot Incremental grp hot_mints)"

definition staging_incremental_worker ::
  "'w watch_env \<Rightarrow> incremental_snapshot \<Rightarrow> u64 \<Rightarrow> string set \<Rightarrow> ('w, string, u64) op" where
  "staging_incremental_worker env snapshot stage_slot hot_mints =
     sthen (process_incremental_in_background env snapshot Backup stage_slot hot_mints) (sreturn (is_slot snapshot))"

section \<open>Order of checkpoints and requests\<close>

fun journal_step :: "watcher_state \<times> bool \<Rightarrow> watch_event \<times> bool \<Rightarrow> watcher_state \<times> bool" where
  "journal_step (j, clean) (EPersist st, ok) = (if ok then (st, clean) else (j, False))"
| "journal_step (j, clean) (ev, ok) = (j, clean)"

text \<open>The last checkpoint written, and whether every checkpoint has been written.\<close>

definition journal_after :: "watcher_state \<Rightarrow> (watch_event \<times> bool) list \<Rightarrow> watcher_state \<times> bool" where
  "journal_after j evs = foldl journal_step (j, True) evs"

fun lane :: "table_group \<Rightarrow> watcher_state \<Rightarrow> lane_state" where
  "lane Active st = wt_active st"
| "lane Backup st = wt_staging st"

text \<open>
  What the journal on disk has to say when a request is sent.
\<close>

fun allowed :: "watcher_state \<times> bool \<Rightarrow> watch_event \<Rightarrow> bool" where
  "allowed (j, clean) (EPersist st) = state_wf st"
| "allowed (j, clean) (ESetMerges g on) = (ln_phase (lane g j) = (if on then FullMerging else FullLoading))"
| "allowed (j, clean) (EReset g) = (ln_phase (lane g j) = FullLoading)"
| "allowed (j, clean) (EExchange a b) = (wt_cutover j = Some \<lparr>cu_active_tables = a, cu_staging_tables = b\<rparr>)"
| "allowed (j, clean) (EValidate n) = (ln_phase (wt_staging j) = CutoverPending)"
| "allowed (j, clean) (EInsertAll candidate resume kind g) = (g = Active \<and>
     (case kind of
        Full \<Rightarrow> ln_phase (wt_active j) = FullLoading
      | Incremental \<Rightarrow> ln_phase (wt_active j) = IncrementalLoading \<and>
          ln_inflight (wt_active j) = Some (inflight_snapshot candidate) \<and>
          (clean \<longrightarrow> ln_max_slot (wt_active j) = Some resume) \<and>
          (case candidate of WIncremental s \<Rightarrow> continues s resume | WFull f \<Rightarrow> resume < fs_slot f)))"
| "allowed (j, clean) (EFanout candidate resume) =
     (\<exists>sh. wt_shared j = Some sh \<and> sh_active_resume_slot sh = resume \<and> watched_slot candidate = fs_slot (sh_snapshot sh))"
| "allowed (j, clean) (ESpawnFull f) = (ln_phase (wt_staging j) = FullLoading)"
| "allowed (j, clean) (ESpawnMergeWait f) = (clean \<longrightarrow> ln_phase (wt_staging j) = FullMerging)"
| "allowed (j, clean) (ESpawnIncremental s slot) = (ln_phase (wt_staging j) = IncrementalLoading \<and>
     ln_max_slot (wt_staging j) = Some slot \<and> continues s slot)"
| "allowed (j, clean) EOther = True"

fun journaled :: "watcher_state \<times> bool \<Rightarrow> (watch_event \<times> bool) list \<Rightarrow> bool" where
  "journaled jc [] = True"
| "journaled jc (e # es) = (allowed jc (fst e) \<and> journaled (journal_step jc e) es)"

lemma journaled_append: "journaled jc (xs @ ys) \<longleftrightarrow> journaled jc xs \<and> journaled (foldl journal_step jc xs) ys"
  by (induction xs arbitrary: jc) auto

lemma journal_after_append: "journal_after j (xs @ ys) = foldl journal_step (journal_after j xs) ys"
  by (simp add: journal_after_def)

lemma journaled_more:
  "journaled (j0, True) (evs @ es) \<longleftrightarrow> journaled (j0, True) evs \<and> journaled (journal_after j0 evs) es"
  by (simp add: journaled_append journal_after_def)

end
