(* ===== verification/Watcher_Calculus.thy ===== *)
theory Watcher_Calculus
  imports Watcher
begin

text \<open>
  Weakest preconditions for the operations of the watcher, the invariant of its loop, and rules that
  decompose an operation into the states between its requests.  The transitions of the two lanes are
  shown here to keep a state well formed, once for all stages.
\<close>

section \<open>Weakest preconditions\<close>

definition wp :: "('s, 'e, 'a) op \<Rightarrow> ('a \<Rightarrow> 's \<Rightarrow> bool) \<Rightarrow> ('e \<Rightarrow> 's \<Rightarrow> bool) \<Rightarrow> 's \<Rightarrow> bool" where
  "wp m Q E s \<longleftrightarrow> (case m s of (Inr x, s') \<Rightarrow> Q x s' | (Inl e, s') \<Rightarrow> E e s')"

lemma wpD: "wp m Q E s \<Longrightarrow> m s = (r, s') \<Longrightarrow> (case r of Inr x \<Rightarrow> Q x s' | Inl e \<Rightarrow> E e s')"
  by (auto simp: wp_def split: sum.splits)

lemma wp_conseq:
  assumes "wp m Q E s" "\<And>x s'. Q x s' \<Longrightarrow> Q' x s'" "\<And>e s'. E e s' \<Longrightarrow> E' e s'"
  shows "wp m Q' E' s"
  using assms by (auto simp: wp_def split: prod.splits sum.splits)

named_theorems wp_rules \<open>weakest preconditions of the operations\<close>

lemma wp_sreturn [wp_rules]: "wp (sreturn x) Q E s \<longleftrightarrow> Q x s"
  by (simp add: wp_def sreturn_def)

lemma wp_sfail [wp_rules]: "wp (sfail e) Q E s \<longleftrightarrow> E e s"
  by (simp add: wp_def sfail_def)

lemma wp_supdate [wp_rules]: "wp (supdate f) Q E s \<longleftrightarrow> Q () (f s)"
  by (simp add: wp_def supdate_def)

lemma wp_sread [wp_rules]: "wp (sread g) Q E s \<longleftrightarrow> Q (g s) s"
  by (simp add: wp_def sread_def)

lemma wp_swhen [wp_rules]: "wp (swhen b n) Q E s \<longleftrightarrow> (if b then wp n Q E s else Q () s)"
  by (simp add: swhen_def wp_sreturn)

lemma wp_sbind [wp_rules]: "wp (sbind m f) Q E s \<longleftrightarrow> wp m (\<lambda>x. wp (f x) Q E) E s"
  by (auto simp: wp_def sbind_def split: prod.splits sum.splits)

lemma wp_sthen [wp_rules]: "wp (sthen m n) Q E s \<longleftrightarrow> wp m (\<lambda>_. wp n Q E) E s"
  by (simp add: sthen_def wp_sbind)

lemma wp_smatch [wp_rules]: "wp (smatch m f g) Q E s \<longleftrightarrow> wp m (\<lambda>x. wp (f x) Q E) (\<lambda>e. wp (g e) Q E) s"
  by (auto simp: wp_def smatch_def split: prod.splits sum.splits)

lemma wp_sattempt [wp_rules]: "wp (sattempt m) Q E s \<longleftrightarrow> wp m (\<lambda>_. Q ()) (\<lambda>_. Q ()) s"
  by (auto simp: wp_def sattempt_def split: prod.splits sum.splits)

lemma wp_required [wp_rules]: "wp (required e x) Q E s \<longleftrightarrow> (case x of None \<Rightarrow> E e s | Some y \<Rightarrow> Q y s)"
  by (auto simp: required_def wp_rules split: option.split)

lemma wp_if [wp_rules]: "wp (if b then m else n) Q E s \<longleftrightarrow> (if b then wp m Q E s else wp n Q E s)"
  by simp

lemma wp_ask [wp_rules]:
  "wp (ask ev m) Q E s \<longleftrightarrow>
     (\<forall>x w. m (wr_world s) = (Inr x, w) \<longrightarrow> Q x (s\<lparr>wr_world := w, wr_events := wr_events s @ [(ev, True)]\<rparr>)) \<and>
     (\<forall>e w. m (wr_world s) = (Inl e, w) \<longrightarrow> E (Environment e) (s\<lparr>wr_world := w, wr_events := wr_events s @ [(ev, False)]\<rparr>))"
  by (auto simp: wp_def ask_def split: prod.splits sum.splits)

lemma wp_updates [wp_rules]:
  "wp (set_active f) Q E s \<longleftrightarrow> Q () (s\<lparr>wr_state := (wr_state s)\<lparr>wt_active := f (wt_active (wr_state s))\<rparr>\<rparr>)"
  "wp (set_staging f) Q E s \<longleftrightarrow> Q () (s\<lparr>wr_state := (wr_state s)\<lparr>wt_staging := f (wt_staging (wr_state s))\<rparr>\<rparr>)"
  "wp (set_cutover c) Q E s \<longleftrightarrow> Q () (s\<lparr>wr_state := (wr_state s)\<lparr>wt_cutover := c\<rparr>\<rparr>)"
  "wp (set_shared sh) Q E s \<longleftrightarrow> Q () (s\<lparr>wr_state := (wr_state s)\<lparr>wt_shared := sh\<rparr>\<rparr>)"
  by (simp_all add: set_active_def set_staging_def set_cutover_def set_shared_def wp_rules)

lemma wp_checkpoint:
  "wp (checkpoint env) Q E s \<longleftrightarrow>
     (\<forall>u w. we_persist env (wr_state s) (wr_world s) = (Inr u, w) \<longrightarrow>
        Q u (s\<lparr>wr_world := w, wr_events := wr_events s @ [(EPersist (wr_state s), True)]\<rparr>)) \<and>
     (\<forall>e w. we_persist env (wr_state s) (wr_world s) = (Inl e, w) \<longrightarrow>
        E (Environment e) (s\<lparr>wr_world := w, wr_events := wr_events s @ [(EPersist (wr_state s), False)]\<rparr>))"
  by (auto simp: wp_def checkpoint_def ask_def split: prod.splits sum.splits)

section \<open>The invariant of the loop\<close>

text \<open>
  \<open>journal_inv\<close>: every request was allowed when it was sent, and the journal on disk is the state in memory.
  The only checkpoint whose failure the loop survives is the one at the end of a shared full import; then
  the journal still says that staging is loading.
\<close>

definition workers_fit :: "'w watcher \<Rightarrow> bool" where
  "workers_fit s \<longleftrightarrow>
     (\<forall>b. wr_build s = Some b \<longrightarrow> wt_shared (wr_state s) = None \<and>
        ln_phase (wt_staging (wr_state s)) \<in> {FullLoading, FullMerging} \<and>
        (ln_phase (wt_staging (wr_state s)) = FullLoading \<longrightarrow> sb_full_imported b \<and> sb_full_import_ack b)) \<and>
     (wr_incremental_handle s \<longrightarrow> ln_phase (wt_staging (wr_state s)) = IncrementalLoading)"

definition journal_inv :: "watcher_state \<Rightarrow> 'w watcher \<Rightarrow> bool" where
  "journal_inv j0 s \<longleftrightarrow> journaled (j0, True) (wr_events s) \<and>
     (case journal_after j0 (wr_events s) of (j, clean) \<Rightarrow>
        j = wr_state s \<or> \<not> clean \<and> ln_phase (wt_staging (wr_state s)) = FullMerging \<and> ln_phase (wt_active (wr_state s)) = Ready)"

text \<open>The variables of the loop: the local watermark is the committed one as long as no checkpoint has
  failed, and the mints a lane needs are loaded.\<close>

definition locals_inv :: "watcher_state \<Rightarrow> 'w watcher \<Rightarrow> bool" where
  "locals_inv j0 s \<longleftrightarrow>
     (snd (journal_after j0 (wr_events s)) \<longrightarrow> wr_active_slot s = committed_slot (wt_active (wr_state s))) \<and>
     (wr_bootstrap_pending s \<longrightarrow> ln_phase (wt_active (wr_state s)) \<in> {WaitingForFull, FullLoading}) \<and>
     (ln_phase (wt_staging (wr_state s)) \<in> {FullMerging, Ready, IncrementalLoading, CutoverPending} \<or>
        wt_shared (wr_state s) \<noteq> None \<longrightarrow> wr_staging_mints s \<noteq> None) \<and>
     (ln_phase (wt_active (wr_state s)) \<notin> {WaitingForFull, FullLoading} \<longrightarrow> wr_output_mints s \<noteq> None)"

definition watcher_inv :: "watcher_state \<Rightarrow> 'w watcher \<Rightarrow> bool" where
  "watcher_inv j0 s \<longleftrightarrow> journal_inv j0 s \<and> state_wf (wr_state s) \<and> workers_fit s \<and> locals_inv j0 s"

text \<open>What holds when the process ends with an error.\<close>

definition exits :: "watcher_state \<Rightarrow> watch_error \<Rightarrow> 'w watcher \<Rightarrow> bool" where
  "exits j0 e s \<longleftrightarrow> journaled (j0, True) (wr_events s) \<and> (\<exists>m. e = Environment m)"

text \<open>A stage of a turn, from \<open>P\<close>; \<open>P'\<close> holds if the turn goes on.\<close>

definition stage ::
  "watcher_state \<Rightarrow> ('w watcher \<Rightarrow> bool) \<Rightarrow> ('w, bool) watch_op \<Rightarrow> ('w watcher \<Rightarrow> bool) \<Rightarrow> bool" where
  "stage j0 P m P' \<longleftrightarrow> (\<forall>s. watcher_inv j0 s \<and> P s \<longrightarrow>
     wp m (\<lambda>ends s'. watcher_inv j0 s' \<and> (\<not> ends \<longrightarrow> P' s')) (exits j0) s)"

lemma stage_or_next:
  assumes "stage j0 P m P'" "stage j0 P' rest P''"
  shows "stage j0 P (or_next m rest) P''"
  unfolding stage_def or_next_def wp_sbind
proof (intro allI impI)
  fix s assume "watcher_inv j0 s \<and> P s"
  then have "wp m (\<lambda>ends s'. watcher_inv j0 s' \<and> (\<not> ends \<longrightarrow> P' s')) (exits j0) s"
    using assms(1) by (simp add: stage_def)
  then show "wp m (\<lambda>ends. wp (if ends then sreturn True else rest) (\<lambda>ends s'. watcher_inv j0 s' \<and> (\<not> ends \<longrightarrow> P'' s')) (exits j0))
      (exits j0) s"
    by (rule wp_conseq) (use assms(2) in \<open>auto simp: stage_def wp_rules\<close>)
qed

section \<open>Verification conditions\<close>

text \<open>After a request only the world and the log have changed.\<close>

definition after_request :: "watcher_state \<Rightarrow> watcher_state \<times> bool \<Rightarrow> 'w watcher \<Rightarrow> 'w watcher \<Rightarrow> bool" where
  "after_request j0 jc s s' \<longleftrightarrow> journaled (j0, True) (wr_events s') \<and> journal_after j0 (wr_events s') = jc \<and>
     wr_state s' = wr_state s \<and> wr_active_slot s' = wr_active_slot s \<and> wr_bootstrap_pending s' = wr_bootstrap_pending s \<and>
     wr_output_mints s' = wr_output_mints s \<and> wr_staging_mints s' = wr_staging_mints s \<and> wr_build s' = wr_build s \<and>
     wr_incremental_handle s' = wr_incremental_handle s"

fun is_persist :: "watch_event \<Rightarrow> bool" where
  "is_persist (EPersist st) = True"
| "is_persist ev = False"

lemma journal_step_request: "\<not> is_persist ev \<Longrightarrow> journal_step jc (ev, ok) = jc"
  by (cases jc; cases ev) auto

named_theorems vcg \<open>introduction rules that decompose an operation\<close>

lemma vcg_basic [vcg]:
  "Q x s \<Longrightarrow> wp (sreturn x) Q E s"
  "E e s \<Longrightarrow> wp (sfail e) Q E s"
  "Q (g s) s \<Longrightarrow> wp (sread g) Q E s"
  "Q' () (f s) \<Longrightarrow> wp (supdate f) Q' E s"
  by (simp_all add: wp_rules)

lemma vcg_sbind [vcg]: "wp m (\<lambda>x. wp (f x) Q E) E s \<Longrightarrow> wp (sbind m f) Q E s"
  by (simp add: wp_rules)

lemma vcg_sthen [vcg]: "wp m (\<lambda>_. wp n Q E) E s \<Longrightarrow> wp (sthen m n) Q E s"
  by (simp add: wp_rules)

lemma vcg_smatch [vcg]: "wp m (\<lambda>x. wp (f x) Q E) (\<lambda>e. wp (g e) Q E) s \<Longrightarrow> wp (smatch m f g) Q E s"
  by (simp add: wp_rules)

lemma vcg_sattempt [vcg]: "wp m (\<lambda>_. Q ()) (\<lambda>_. Q ()) s \<Longrightarrow> wp (sattempt m) Q E s"
  by (simp add: wp_rules)

lemma vcg_branches [vcg]:
  "(b \<Longrightarrow> wp m Q E s) \<Longrightarrow> (\<not> b \<Longrightarrow> wp n Q E s) \<Longrightarrow> wp (if b then m else n) Q E s"
  "(b \<Longrightarrow> wp k Q' E s) \<Longrightarrow> (\<not> b \<Longrightarrow> Q' () s) \<Longrightarrow> wp (swhen b k) Q' E s"
  by (simp_all add: wp_rules)

lemma vcg_required [vcg]: "(x = None \<Longrightarrow> E e s) \<Longrightarrow> (\<And>y. x = Some y \<Longrightarrow> Q y s) \<Longrightarrow> wp (required e x) Q E s"
  by (auto simp: wp_rules split: option.split)

lemma vcg_option [vcg]:
  "(x = None \<Longrightarrow> wp m Q E s) \<Longrightarrow> (\<And>y. x = Some y \<Longrightarrow> wp (f y) Q E s) \<Longrightarrow> wp (case x of None \<Rightarrow> m | Some y \<Rightarrow> f y) Q E s"
  by (cases x) auto

lemma vcg_updates [vcg]:
  "Q () (s\<lparr>wr_state := (wr_state s)\<lparr>wt_active := f (wt_active (wr_state s))\<rparr>\<rparr>) \<Longrightarrow> wp (set_active f) Q E s"
  "Q () (s\<lparr>wr_state := (wr_state s)\<lparr>wt_staging := f (wt_staging (wr_state s))\<rparr>\<rparr>) \<Longrightarrow> wp (set_staging f) Q E s"
  "Q () (s\<lparr>wr_state := (wr_state s)\<lparr>wt_cutover := c\<rparr>\<rparr>) \<Longrightarrow> wp (set_cutover c) Q E s"
  "Q () (s\<lparr>wr_state := (wr_state s)\<lparr>wt_shared := sh\<rparr>\<rparr>) \<Longrightarrow> wp (set_shared sh) Q E s"
  by (simp_all add: wp_rules)

lemma vcg_ask:
  assumes "journaled (j0, True) (wr_events s)" "allowed (journal_after j0 (wr_events s)) ev" "\<not> is_persist ev"
    "\<And>x s' w. m (wr_world s) = (Inr x, w) \<Longrightarrow> after_request j0 (journal_after j0 (wr_events s)) s s' \<Longrightarrow> Q x s'"
    "\<And>e s'. after_request j0 (journal_after j0 (wr_events s)) s s' \<Longrightarrow> E (Environment e) s'"
  shows "wp (ask ev m) Q E s"
  unfolding wp_ask
proof (intro conjI allI impI)
  fix x w assume "m (wr_world s) = (Inr x, w)"
  then show "Q x (s\<lparr>wr_world := w, wr_events := wr_events s @ [(ev, True)]\<rparr>)"
    by (rule assms(4)) (use assms(1-3) in
      \<open>simp add: after_request_def journaled_more journal_after_append journal_step_request\<close>)
next
  fix e w
  show "E (Environment e) (s\<lparr>wr_world := w, wr_events := wr_events s @ [(ev, False)]\<rparr>)"
    by (rule assms(5)) (use assms(1-3) in
      \<open>simp add: after_request_def journaled_more journal_after_append journal_step_request\<close>)
qed

lemma vcg_checkpoint:
  assumes "journaled (j0, True) (wr_events s)" "state_wf (wr_state s)"
    "\<And>s'. after_request j0 (wr_state s, snd (journal_after j0 (wr_events s))) s s' \<Longrightarrow> Q () s'"
    "\<And>e s'. after_request j0 (fst (journal_after j0 (wr_events s)), False) s s' \<Longrightarrow> E (Environment e) s'"
  shows "wp (checkpoint env) Q E s"
  unfolding wp_checkpoint
proof (intro conjI allI impI)
  fix u w
  show "Q u (s\<lparr>wr_world := w, wr_events := wr_events s @ [(EPersist (wr_state s), True)]\<rparr>)"
    unfolding unit_eq [of u] by (rule assms(3)) (use assms(1,2) in
      \<open>cases "journal_after j0 (wr_events s)"; simp add: after_request_def journaled_more journal_after_append\<close>)
next
  fix e w
  show "E (Environment e) (s\<lparr>wr_world := w, wr_events := wr_events s @ [(EPersist (wr_state s), False)]\<rparr>)"
    by (rule assms(4)) (use assms(1,2) in
      \<open>cases "journal_after j0 (wr_events s)"; simp add: after_request_def journaled_more journal_after_append\<close>)
qed

section \<open>The stages keep the invariant\<close>

lemma allowed_EOther [simp]: "allowed jc EOther"
  by (cases jc) simp

lemma staging_busy:
  "state_wf st \<Longrightarrow> ln_phase (wt_staging st) \<noteq> Disabled \<Longrightarrow> ln_phase (wt_active st) \<noteq> WaitingForFull \<and> ln_phase (wt_active st) \<noteq> FullLoading"
  by (auto simp: state_wf_defs)

lemma inv_facts:
  assumes "watcher_inv j0 s" "journal_after j0 (wr_events s) = (j, c)"
  shows "journaled (j0, True) (wr_events s)" "state_wf (wr_state s)"
    "ln_phase (wt_staging (wr_state s)) \<noteq> FullMerging \<Longrightarrow> j = wr_state s"
    "ln_phase (wt_active (wr_state s)) \<noteq> Ready \<Longrightarrow> j = wr_state s"
    "c \<Longrightarrow> j = wr_state s"
    "c \<Longrightarrow> wr_active_slot s = committed_slot (wt_active (wr_state s))"
    "ln_phase (wt_staging (wr_state s)) \<noteq> FullLoading \<Longrightarrow> ln_phase (wt_staging (wr_state s)) \<noteq> FullMerging \<Longrightarrow> wr_build s = None"
    "wt_shared (wr_state s) = Some sh \<Longrightarrow> wr_build s = None"
    "wr_build s = Some b \<Longrightarrow> wt_shared (wr_state s) = None"
    "wr_build s = Some b \<Longrightarrow> ln_phase (wt_staging (wr_state s)) \<noteq> FullMerging \<Longrightarrow> ln_phase (wt_staging (wr_state s)) = FullLoading"
    "wr_build s = Some b \<Longrightarrow> ln_phase (wt_staging (wr_state s)) \<noteq> FullMerging \<Longrightarrow> sb_full_imported b"
    "wr_build s = Some b \<Longrightarrow> ln_phase (wt_staging (wr_state s)) \<noteq> FullMerging \<Longrightarrow> sb_full_import_ack b"
    "wr_incremental_handle s \<Longrightarrow> ln_phase (wt_staging (wr_state s)) = IncrementalLoading"
    "ln_phase (wt_staging (wr_state s)) \<noteq> IncrementalLoading \<Longrightarrow> \<not> wr_incremental_handle s"
    "ln_phase (wt_active (wr_state s)) \<noteq> WaitingForFull \<Longrightarrow> ln_phase (wt_active (wr_state s)) \<noteq> FullLoading \<Longrightarrow>
      \<not> wr_bootstrap_pending s \<and> (\<exists>y. wr_output_mints s = Some y)"
    "wt_shared (wr_state s) = Some sh \<Longrightarrow> \<exists>y. wr_staging_mints s = Some y"
    "ln_phase (wt_staging (wr_state s)) \<in> {FullMerging, Ready, IncrementalLoading, CutoverPending} \<Longrightarrow> \<exists>y. wr_staging_mints s = Some y"
    "ln_phase (wt_staging (wr_state s)) \<noteq> Disabled \<Longrightarrow> ln_phase (wt_active (wr_state s)) \<noteq> WaitingForFull"
    "ln_phase (wt_staging (wr_state s)) \<noteq> Disabled \<Longrightarrow> ln_phase (wt_active (wr_state s)) \<noteq> FullLoading"
  using assms staging_busy [of "wr_state s"]
  by (auto simp: watcher_inv_def journal_inv_def locals_inv_def workers_fit_def)

lemma watcher_invI:
  assumes "journaled (j0, True) (wr_events s)" "state_wf (wr_state s)"
    "fst (journal_after j0 (wr_events s)) = wr_state s \<or> \<not> snd (journal_after j0 (wr_events s)) \<and>
       ln_phase (wt_staging (wr_state s)) = FullMerging \<and> ln_phase (wt_active (wr_state s)) = Ready"
    "\<And>b. wr_build s = Some b \<Longrightarrow> wt_shared (wr_state s) = None \<and>
        ln_phase (wt_staging (wr_state s)) \<in> {FullLoading, FullMerging} \<and>
        (ln_phase (wt_staging (wr_state s)) = FullLoading \<longrightarrow> sb_full_imported b \<and> sb_full_import_ack b)"
    "wr_incremental_handle s \<Longrightarrow> ln_phase (wt_staging (wr_state s)) = IncrementalLoading"
    "snd (journal_after j0 (wr_events s)) \<Longrightarrow> wr_active_slot s = committed_slot (wt_active (wr_state s))"
    "wr_bootstrap_pending s \<Longrightarrow> ln_phase (wt_active (wr_state s)) \<in> {WaitingForFull, FullLoading}"
    "ln_phase (wt_staging (wr_state s)) \<in> {FullMerging, Ready, IncrementalLoading, CutoverPending} \<or>
        wt_shared (wr_state s) \<noteq> None \<Longrightarrow> \<exists>y. wr_staging_mints s = Some y"
    "ln_phase (wt_active (wr_state s)) \<notin> {WaitingForFull, FullLoading} \<Longrightarrow> \<exists>y. wr_output_mints s = Some y"
  shows "watcher_inv j0 s"
  using assms by (cases "journal_after j0 (wr_events s)")
    (simp add: watcher_inv_def journal_inv_def locals_inv_def workers_fit_def)

lemma watcher_inv_request:
  "watcher_inv j0 s \<Longrightarrow> after_request j0 (journal_after j0 (wr_events s)) s s' \<Longrightarrow> watcher_inv j0 s'"
  by (simp add: watcher_inv_def journal_inv_def locals_inv_def workers_fit_def after_request_def)

lemma stageI:
  assumes "\<And>s j c. watcher_inv j0 s \<Longrightarrow> journal_after j0 (wr_events s) = (j, c) \<Longrightarrow> P s \<Longrightarrow>
    wp m (\<lambda>ends s'. watcher_inv j0 s' \<and> (\<not> ends \<longrightarrow> P' s')) (exits j0) s"
  shows "stage j0 P m P'"
  unfolding stage_def
proof (intro allI impI)
  fix s assume I: "watcher_inv j0 s \<and> P s"
  obtain j c where "journal_after j0 (wr_events s) = (j, c)" by fastforce
  with I show "wp m (\<lambda>ends s'. watcher_inv j0 s' \<and> (\<not> ends \<longrightarrow> P' s')) (exits j0) s"
    by (intro assms) simp_all
qed

lemma vcg_cleanup:
  assumes "journaled (j0, True) (wr_events s)"
    "\<And>s'. after_request j0 (journal_after j0 (wr_events s)) s s' \<Longrightarrow> Q () s'"
  shows "wp (cleanup_or_warn env) Q E s"
proof -
  have "wp (sattempt (ask EOther (we_cleanup_mints env (wr_state s)))) Q E s"
    by (intro vcg vcg_ask [of j0]; use assms in \<open>simp add: after_request_def\<close>)
  then show ?thesis by (simp add: wp_def cleanup_or_warn_def)
qed

lemma vcg_reset_failed:
  assumes "journaled (j0, True) (wr_events s)" "ln_phase (wt_staging (fst (journal_after j0 (wr_events s)))) = FullLoading"
    "\<And>s'. after_request j0 (journal_after j0 (wr_events s)) s s' \<Longrightarrow> Q () s'"
  shows "wp (reset_failed_staging env) Q E s"
  unfolding reset_failed_staging_def
  by (cases "journal_after j0 (wr_events s)")
    (intro vcg vcg_ask [of j0]; use assms in \<open>simp add: after_request_def\<close>)

lemma lane_phases [simp]: "ln_phase (lane_full_loading f) = FullLoading" "ln_phase lane_disabled = Disabled"
  by (simp_all add: lane_full_loading_def lane_disabled_def)

lemma committed_slot_updates [simp]:
  "committed_slot (l\<lparr>ln_phase := p\<rparr>) = committed_slot l" "committed_slot (l\<lparr>ln_inflight := i\<rparr>) = committed_slot l"
  "committed_slot (l\<lparr>ln_hot_mints_path := h\<rparr>) = committed_slot l" "committed_slot (l\<lparr>ln_max_slot := Some m\<rparr>) = m"
  by (simp_all add: committed_slot_def)

text \<open>The transitions of the two lanes keep them well formed.\<close>

definition lanes_wf ::
  "lane_state \<Rightarrow> lane_state \<Rightarrow> shared_full_load_state option \<Rightarrow> cutover_state option \<Rightarrow> bool" where
  "lanes_wf active staging shared cutover =
     state_wf \<lparr>wt_version = 3, wt_active = active, wt_staging = staging, wt_cutover = cutover, wt_shared = shared\<rparr>"

lemma shared_wf_iff: "shared_wf s \<longleftrightarrow> (\<forall>sh. wt_shared s = Some sh \<longrightarrow>
     ln_phase (wt_staging s) = FullLoading \<and> ln_full_snapshot (wt_staging s) = Some (sh_snapshot sh) \<and>
     ln_hot_mints_path (wt_staging s) \<noteq> None \<and>
     ln_phase (wt_active s) = IncrementalLoading \<and> ln_inflight (wt_active s) = Some \<lparr>in_kind = PersistedFull\<rparr> \<and>
     ln_max_slot (wt_active s) = Some (sh_active_resume_slot sh))"
  by (cases "wt_shared s") (simp_all add: shared_wf_def)

lemmas lanes_wf_defs = lanes_wf_def state_wf_def active_wf_def staging_wf_def shared_wf_iff cutover_wf_def

lemma state_wf_lanes: "state_wf st = lanes_wf (wt_active st) (wt_staging st) (wt_shared st) (wt_cutover st)"
  by (simp add: lanes_wf_defs del: not_None_eq)

lemma wf_cutover_pending:
  "lanes_wf a g sh cu \<Longrightarrow> ln_phase g = IncrementalLoading \<Longrightarrow>
   lanes_wf (a\<lparr>ln_phase := CutoverPending, ln_inflight := None\<rparr>)
     (g\<lparr>ln_max_slot := Some m, ln_phase := CutoverPending, ln_inflight := None\<rparr>) sh cu"
  by (cases "ln_phase a") (simp_all add: lanes_wf_defs del: not_None_eq)

lemma wf_cutover_tables:
  "lanes_wf a g sh cu \<Longrightarrow> ln_phase a = CutoverPending \<Longrightarrow> lanes_wf a g sh (Some cu')"
  by (simp add: lanes_wf_defs del: not_None_eq)

lemma wf_cutover_finished:
  "lanes_wf a g sh cu \<Longrightarrow> ln_phase g = CutoverPending \<Longrightarrow>
   lanes_wf (g\<lparr>ln_phase := Ready, ln_inflight := None\<rparr>)
     (a\<lparr>ln_phase := Disabled, ln_inflight := None, ln_hot_mints_path := None\<rparr>) None None"
  by (simp add: lanes_wf_defs del: not_None_eq)

lemma wf_staging_merging:
  "lanes_wf a g None cu \<Longrightarrow> ln_phase g = FullLoading \<Longrightarrow>
   lanes_wf a (g\<lparr>ln_phase := FullMerging, ln_max_slot := Some m, ln_hot_mints_path := Some p, ln_inflight := None\<rparr>) None cu"
  by (cases "ln_phase a"; simp add: lanes_wf_defs del: not_None_eq)

lemma wf_staging_ready:
  "lanes_wf a g sh cu \<Longrightarrow> ln_phase g = FullMerging \<Longrightarrow> lanes_wf a (g\<lparr>ln_phase := Ready\<rparr>) sh cu"
  "lanes_wf a g sh cu \<Longrightarrow> ln_phase g = IncrementalLoading \<Longrightarrow>
   lanes_wf a (g\<lparr>ln_phase := Ready, ln_inflight := None\<rparr>) sh cu"
  by (cases "ln_phase a"; simp add: lanes_wf_defs del: not_None_eq)+

lemma wf_staging_incremental:
  "lanes_wf a g sh cu \<Longrightarrow> ln_phase g = Ready \<Longrightarrow>
   lanes_wf a (g\<lparr>ln_phase := IncrementalLoading, ln_inflight := Some \<lparr>in_kind = PersistedIncremental\<rparr>\<rparr>) sh cu"
  by (cases "ln_phase a"; simp add: lanes_wf_defs del: not_None_eq)

lemma wf_active_incremental:
  assumes "lanes_wf a g None cu" "ln_phase a = Ready \<or> ln_phase a = IncrementalLoading"
  shows "lanes_wf (a\<lparr>ln_phase := IncrementalLoading, ln_inflight := Some i\<rparr>) g None cu"
    "lanes_wf (a\<lparr>ln_phase := Ready, ln_inflight := None\<rparr>) g None cu"
    "lanes_wf (a\<lparr>ln_max_slot := Some m, ln_phase := Ready, ln_inflight := None\<rparr>) g None cu"
  by (insert assms(1), rule disjE [OF assms(2)]; simp add: lanes_wf_defs del: not_None_eq)+

lemma wf_active_ready:
  "lanes_wf a g None cu \<Longrightarrow> ln_phase a = FullMerging \<Longrightarrow> lanes_wf (a\<lparr>ln_phase := Ready\<rparr>) g None cu"
  by (cases "ln_phase g"; simp add: lanes_wf_defs del: not_None_eq)

lemma wf_shared_begun:
  "lanes_wf a g sh cu \<Longrightarrow> ln_phase a = Ready \<Longrightarrow> ln_max_slot a = Some m \<Longrightarrow>
   lanes_wf (a\<lparr>ln_phase := IncrementalLoading, ln_inflight := Some \<lparr>in_kind = PersistedFull\<rparr>\<rparr>)
     ((lane_full_loading f)\<lparr>ln_hot_mints_path := Some p\<rparr>) (Some \<lparr>sh_snapshot = f, sh_active_resume_slot = m\<rparr>) None"
  by (simp add: lanes_wf_defs lane_full_loading_def lane_disabled_def)

lemma wf_shared_complete:
  "lanes_wf a g (Some sh) cu \<Longrightarrow> ln_phase a = IncrementalLoading \<Longrightarrow> ln_phase g = FullLoading \<Longrightarrow>
   lanes_wf (a\<lparr>ln_max_slot := Some m, ln_phase := Ready, ln_inflight := None\<rparr>)
     (g\<lparr>ln_max_slot := Some m, ln_phase := FullMerging, ln_inflight := None\<rparr>) None cu"
  by (simp add: lanes_wf_defs del: not_None_eq)

lemma wf_bootstrap:
  "lanes_wf (lane_full_loading f) lane_disabled None None"
  "lanes_wf ((lane_full_loading f)\<lparr>ln_phase := FullMerging, ln_max_slot := Some m, ln_hot_mints_path := Some p, ln_inflight := None\<rparr>)
     lane_disabled None None"
  "lanes_wf ((lane_full_loading f)\<lparr>ln_max_slot := Some m, ln_hot_mints_path := Some p, ln_inflight := None, ln_phase := Ready\<rparr>)
     lane_disabled None None"
  by (simp_all add: lanes_wf_defs lane_full_loading_def lane_disabled_def)

text \<open>What a well-formed state says about a lane in some phase.\<close>

lemma wf_facts:
  assumes "state_wf st"
  shows "wt_shared st = Some sh \<Longrightarrow> ln_phase (wt_staging st) = FullLoading \<and> ln_full_snapshot (wt_staging st) = Some (sh_snapshot sh) \<and>
      ln_phase (wt_active st) = IncrementalLoading \<and> ln_inflight (wt_active st) = Some \<lparr>in_kind = PersistedFull\<rparr> \<and>
      ln_max_slot (wt_active st) = Some (sh_active_resume_slot sh)"
    "ln_phase (wt_active st) = CutoverPending \<longleftrightarrow> ln_phase (wt_staging st) = CutoverPending"
    "ln_phase (wt_active st) \<in> {FullLoading, FullMerging} \<Longrightarrow> ln_full_snapshot (wt_active st) \<noteq> None"
    "ln_phase (wt_staging st) \<in> {FullLoading, FullMerging} \<Longrightarrow> ln_full_snapshot (wt_staging st) \<noteq> None"
    "ln_phase (wt_staging st) \<in> {FullMerging, Ready, IncrementalLoading, CutoverPending} \<Longrightarrow> ln_max_slot (wt_staging st) \<noteq> None"
    "ln_phase (wt_active st) \<in> {FullMerging, Ready, IncrementalLoading, CutoverPending} \<Longrightarrow> ln_max_slot (wt_active st) \<noteq> None"
    "ln_phase (wt_active st) = IncrementalLoading \<Longrightarrow> ln_inflight (wt_active st) \<noteq> None"
    "ln_phase (wt_staging st) = IncrementalLoading \<Longrightarrow> ln_inflight (wt_staging st) = Some \<lparr>in_kind = PersistedIncremental\<rparr>"
    "ln_phase (wt_active st) \<in> {WaitingForFull, FullLoading, FullMerging} \<Longrightarrow> ln_phase (wt_staging st) = Disabled"
    "wt_cutover st \<noteq> None \<Longrightarrow> ln_phase (wt_active st) = CutoverPending"
    "ln_phase (wt_active st) \<noteq> Disabled"
  using assms unfolding state_wf_def active_wf_def staging_wf_def shared_wf_iff cutover_wf_def by blast+

end
