(* ===== verification/Watcher_Stages.thy ===== *)
theory Watcher_Stages
  imports Watcher_Calculus
begin

text \<open>
  Each stage of a turn of the watcher keeps the invariant of the loop, sends only requests that the
  journal allows and ends the process with an error of the environment only.
\<close>

lemma stage_join_staging_incremental: "stage j0 P (join_staging_incremental env) (\<lambda>_. True)"
proof (rule stageI)
  fix s :: "'a watcher" and j c
  assume I: "watcher_inv j0 s" and J: "journal_after j0 (wr_events s) = (j, c)"
  note I' = inv_facts [OF I J]
  have F: "ln_phase (wt_staging (wr_state s)) = IncrementalLoading \<and> j = wr_state s \<and> wr_build s = None \<and>
      \<not> wr_bootstrap_pending s \<and> (\<exists>y. wr_output_mints s = Some y) \<and> (\<exists>y. wr_staging_mints s = Some y)"
    if "wr_incremental_handle s"
    using I' that by simp
  show "wp (join_staging_incremental env) (\<lambda>ends s'. watcher_inv j0 s' \<and> (\<not> ends \<longrightarrow> True)) (exits j0) s"
    unfolding join_staging_incremental_def
    by (intro vcg vcg_ask [of j0] vcg_checkpoint [of j0] conjI impI TrueI; (rule I | rule watcher_invI)?;
      use I'(2) in \<open>simp add: J F I'(1,6) after_request_def exits_def state_wf_lanes wf_cutover_pending\<close>)
qed

definition worker_acknowledged :: "'w watch_env \<Rightarrow> bool" where
  "worker_acknowledged env \<longleftrightarrow>
     (\<forall>b w w'. we_build_join env b w = (Inr (), w') \<longrightarrow> \<not> (sb_full_imported b \<and> sb_full_import_ack b))"

lemma stage_poll_full_imported: "stage j0 P (poll_full_imported env) (\<lambda>_. True)"
proof (rule stageI)
  fix s :: "'a watcher" and j c
  assume I: "watcher_inv j0 s" and J: "journal_after j0 (wr_events s) = (j, c)"
  note I' = inv_facts [OF I J]
  have F: "wt_shared (wr_state s) = None \<and> j = wr_state s \<and> sb_full_import_ack b \<and>
      \<not> wr_bootstrap_pending s \<and> (\<exists>y. wr_output_mints s = Some y) \<and> \<not> wr_incremental_handle s"
    if "wr_build s = Some b" "ln_phase (wt_staging (wr_state s)) = FullLoading" for b
    using I' that by simp
  show "wp (poll_full_imported env) (\<lambda>ends s'. watcher_inv j0 s' \<and> (\<not> ends \<longrightarrow> True)) (exits j0) s"
    unfolding poll_full_imported_def
    by (intro vcg vcg_ask [of j0] vcg_cleanup [of j0] vcg_checkpoint [of j0] conjI impI TrueI; (rule I | rule watcher_invI)?;
      use I'(2) in \<open>simp add: J F I'(1,6) after_request_def exits_def state_wf_lanes wf_staging_merging\<close>)
qed

lemma stage_join_staging_build:
  assumes "worker_acknowledged env"
  shows "stage j0 P (join_staging_build env) (\<lambda>_. True)"
proof (rule stageI)
  fix s :: "'a watcher" and j c
  assume I: "watcher_inv j0 s" and J: "journal_after j0 (wr_events s) = (j, c)"
  note I' = inv_facts [OF I J]
  let ?goal = "wp (join_staging_build env) (\<lambda>ends s'. watcher_inv j0 s' \<and> (\<not> ends \<longrightarrow> True)) (exits j0) s"
  show ?goal
  proof (cases "ln_phase (wt_staging (wr_state s)) = FullMerging")
    case True
    have F: "wt_shared (wr_state s) = None"
      using wf_facts(1) [OF I'(2)] True by (cases "wt_shared (wr_state s)") simp_all
    have G: "\<not> wr_bootstrap_pending s \<and> (\<exists>y. wr_output_mints s = Some y) \<and> \<not> wr_incremental_handle s \<and>
        (\<exists>y. wr_staging_mints s = Some y)"
      using I'(14-19) True by simp
    show ?goal
      unfolding join_staging_build_def
      by (intro vcg vcg_ask [of j0] vcg_checkpoint [of j0] vcg_reset_failed [of j0] conjI impI TrueI; (rule I | rule watcher_invI)?;
        use I'(2) in \<open>simp add: True F G J I'(1,6) after_request_def exits_def state_wf_lanes wf_staging_ready\<close>)
  next
    case False
    have F: "ln_phase (wt_staging (wr_state s)) = FullLoading \<and> sb_full_imported b \<and> sb_full_import_ack b \<and>
        wt_shared (wr_state s) = None \<and> j = wr_state s \<and>
        \<not> wr_bootstrap_pending s \<and> (\<exists>y. wr_output_mints s = Some y) \<and> \<not> wr_incremental_handle s"
      if "wr_build s = Some b" for b
      using I' that False by simp
    have no: False if "wr_build s = Some b" "we_build_join env b w = (Inr u, w')" for b w w' u
      using F [OF that(1)] that(2) assms unfolding worker_acknowledged_def unit_eq [of u] by blast
    show ?goal
      unfolding join_staging_build_def
      by (intro vcg vcg_ask [of j0] vcg_checkpoint [of j0] vcg_reset_failed [of j0] conjI impI TrueI;
        (rule I | (drule (1) no, erule FalseE) | rule watcher_invI)?;
        use I'(2) in \<open>simp add: F J I'(1,6) after_request_def exits_def\<close>)
  qed
qed


lemma stage_run_cutover: "stage j0 P (run_cutover env) (\<lambda>s. ln_phase (wt_active (wr_state s)) \<noteq> CutoverPending)"
proof (rule stageI)
  fix s :: "'a watcher" and j c
  assume I: "watcher_inv j0 s" and J: "journal_after j0 (wr_events s) = (j, c)"
  note I' = inv_facts [OF I J]
  let ?goal = "wp (run_cutover env) (\<lambda>ends s'. watcher_inv j0 s' \<and> (\<not> ends \<longrightarrow> ln_phase (wt_active (wr_state s')) \<noteq> CutoverPending))
    (exits j0) s"
  show ?goal
  proof (cases "ln_phase (wt_active (wr_state s)) = CutoverPending")
    case True
    have T: "ln_phase (wt_staging (wr_state s)) = CutoverPending" "wt_shared (wr_state s) = None"
      using wf_facts(1,2) [OF I'(2)] True by (cases "wt_shared (wr_state s)"; simp)+
    have G: "j = wr_state s \<and> \<not> wr_bootstrap_pending s \<and> (\<exists>y. wr_output_mints s = Some y) \<and> \<not> wr_incremental_handle s \<and>
        wr_staging_mints s \<noteq> None \<and> wr_build s = None \<and> ln_max_slot (wt_staging (wr_state s)) \<noteq> None"
      using I'(4,7,14-19) wf_facts(5) [OF I'(2)] True T by simp
    show ?goal
      unfolding run_cutover_def finish_cutover_def take_active_slot_def
      by (intro vcg vcg_ask [of j0] vcg_checkpoint [of j0] vcg_cleanup [of j0] conjI impI TrueI; (rule I | rule watcher_invI)?;
        use I'(2) in \<open>simp add: True T G J I'(1,6) after_request_def exits_def Option.is_none_def state_wf_lanes wf_cutover_tables wf_cutover_finished
          del: not_None_eq\<close>)
  next
    case False
    then show ?goal
      unfolding run_cutover_def by (intro vcg; simp add: I)
  qed
qed


text \<open>Between the second half of the stages no shared full import is pending and the active lane is in \<open>A\<close>.\<close>

definition unshared :: "lane_phase set \<Rightarrow> 'w watcher \<Rightarrow> bool" where
  "unshared A s \<longleftrightarrow> wt_shared (wr_state s) = None \<and> ln_phase (wt_active (wr_state s)) \<in> A"

lemma find_recorded_full_slot: "find_recorded_full fulls recorded = Some f \<Longrightarrow> fs_slot f = fs_slot recorded"
  by (auto simp: find_recorded_full_def find_Some_iff)

lemma stage_run_shared_full:
  "stage j0 (\<lambda>s. ln_phase (wt_active (wr_state s)) \<noteq> CutoverPending) (run_shared_full env fulls) (unshared (- {CutoverPending}))"
proof (rule stageI)
  fix s :: "'a watcher" and j c
  assume I: "watcher_inv j0 s" and J: "journal_after j0 (wr_events s) = (j, c)"
    and P: "ln_phase (wt_active (wr_state s)) \<noteq> CutoverPending"
  note I' = inv_facts [OF I J]
  let ?goal = "wp (run_shared_full env fulls)
    (\<lambda>ends s'. watcher_inv j0 s' \<and> (\<not> ends \<longrightarrow> unshared (- {CutoverPending}) s')) (exits j0) s"
  show ?goal
  proof (cases "wt_shared (wr_state s)")
    case None
    then show ?goal
      using P unfolding run_shared_full_def by (intro vcg; simp add: I unshared_def)
  next
    case (Some sh)
    note T = wf_facts(1) [OF I'(2) Some]
    have G: "j = wr_state s \<and> \<not> wr_bootstrap_pending s \<and> \<not> wr_incremental_handle s \<and> wr_build s = None"
      using I'(3,8,14-15) Some T by simp
    obtain om sm where M: "wr_output_mints s = Some om" "wr_staging_mints s = Some sm"
      using I'(15,16) Some T by auto
    show ?goal
      unfolding run_shared_full_def complete_shared_full_load_def process_shared_full_fanout_def frozen_hot_mints_def
        spawn_staging_merge_wait_def take_active_slot_def
      by (intro vcg vcg_ask [of j0] vcg_checkpoint [of j0] vcg_reset_failed [of j0] conjI impI TrueI; (rule I | rule watcher_invI)?;
        use I'(2) in \<open>simp add: Some T G M J I'(1,6) find_recorded_full_slot after_request_def exits_def state_wf_lanes wf_shared_complete
          del: not_None_eq\<close>)
  qed
qed


lemma stage_resume_active_full_merging:
  "stage j0 (unshared (- {CutoverPending})) (resume_active_full_merging env) (unshared (- {CutoverPending, FullMerging}))"
proof (rule stageI)
  fix s :: "'a watcher" and j c
  assume I: "watcher_inv j0 s" and J: "journal_after j0 (wr_events s) = (j, c)" and P: "unshared (- {CutoverPending}) s"
  note I' = inv_facts [OF I J]
  let ?goal = "wp (resume_active_full_merging env)
    (\<lambda>ends s'. watcher_inv j0 s' \<and> (\<not> ends \<longrightarrow> unshared (- {CutoverPending, FullMerging}) s')) (exits j0) s"
  show ?goal
  proof (cases "ln_phase (wt_active (wr_state s)) = FullMerging")
    case False
    then show ?goal
      using P unfolding resume_active_full_merging_def by (intro vcg; simp add: I unshared_def)
  next
    case True
    have D: "ln_phase (wt_staging (wr_state s)) = Disabled"
      using wf_facts(9) [OF I'(2)] True by simp
    have G: "j = wr_state s \<and> ln_full_snapshot (wt_active (wr_state s)) \<noteq> None \<and> wt_shared (wr_state s) = None \<and>
        wr_build s = None \<and> \<not> wr_incremental_handle s \<and> (\<exists>y. wr_output_mints s = Some y)"
      using I'(4,7,14,15) wf_facts(3) [OF I'(2)] True P D by (simp add: unshared_def)
    show ?goal
      unfolding resume_active_full_merging_def take_active_slot_def
      by (intro vcg vcg_ask [of j0] vcg_checkpoint [of j0] conjI impI TrueI; (rule watcher_invI)?;
        use I'(2) in \<open>simp add: True D G J I'(1,6) after_request_def exits_def state_wf_lanes wf_active_ready del: not_None_eq\<close>)
  qed
qed

text \<open>The first full import; staging is disabled throughout.\<close>

lemma wp_process_bootstrap_full:
  assumes I: "watcher_inv j0 s" and J: "journal_after j0 (wr_events s) = (j, c)"
    and P: "ln_phase (wt_staging (wr_state s)) = Disabled" "wt_shared (wr_state s) = None"
  shows "wp (sbind (process_bootstrap_full env snapshot) after_bootstrap) (\<lambda>ends s'. watcher_inv j0 s' \<and> ends) (exits j0) s"
proof -
  note I' = inv_facts [OF I J]
  have G: "wr_build s = None \<and> \<not> wr_incremental_handle s"
    using I'(7,14) P by simp
  show ?thesis
    unfolding process_bootstrap_full_def after_bootstrap_def output_process_def hot_mints_for_def frozen_hot_mints_def
    by (intro vcg vcg_ask [of j0] vcg_checkpoint [of j0] conjI impI TrueI; (rule watcher_invI)?;
      use I'(2) in \<open>simp add: P G J I'(1) after_request_def exits_def state_wf_lanes wf_bootstrap\<close>)
qed


lemma vcg_bootstrap:
  assumes "watcher_inv j0 s" "ln_phase (wt_staging (wr_state s)) = Disabled" "wt_shared (wr_state s) = None"
    "\<And>s'. watcher_inv j0 s' \<Longrightarrow> Q True s'"
  shows "wp (process_bootstrap_full env snapshot) (\<lambda>slot. wp (after_bootstrap slot) Q (exits j0)) (exits j0) s"
proof -
  obtain j c where J: "journal_after j0 (wr_events s) = (j, c)" by fastforce
  show ?thesis
    using wp_conseq [OF wp_process_bootstrap_full [OF assms(1) J assms(2,3)], of Q "exits j0"] assms(4)
    by (simp add: wp_sbind)
qed

lemma stage_resume_active_full_loading:
  "stage j0 (unshared (- {CutoverPending, FullMerging})) (resume_active_full_loading env fulls)
     (unshared {WaitingForFull, Ready, IncrementalLoading})"
proof (rule stageI)
  fix s :: "'a watcher" and j c
  assume I: "watcher_inv j0 s" and J: "journal_after j0 (wr_events s) = (j, c)"
    and P: "unshared (- {CutoverPending, FullMerging}) s"
  note I' = inv_facts [OF I J]
  let ?goal = "wp (resume_active_full_loading env fulls)
    (\<lambda>ends s'. watcher_inv j0 s' \<and> (\<not> ends \<longrightarrow> unshared {WaitingForFull, Ready, IncrementalLoading} s')) (exits j0) s"
  show ?goal
  proof (cases "ln_phase (wt_active (wr_state s)) = FullLoading")
    case False
    then have "unshared {WaitingForFull, Ready, IncrementalLoading} s"
      using P wf_facts(11) [OF I'(2)] by (cases "ln_phase (wt_active (wr_state s))") (simp_all add: unshared_def)
    with False show ?goal
      unfolding resume_active_full_loading_def by (intro vcg; simp add: I)
  next
    case True
    have D: "ln_phase (wt_staging (wr_state s)) = Disabled" "wt_shared (wr_state s) = None"
      "ln_full_snapshot (wt_active (wr_state s)) \<noteq> None"
      using wf_facts(3,9) [OF I'(2)] True P by (simp_all add: unshared_def)
    show ?goal
      unfolding resume_active_full_loading_def
      by (intro vcg vcg_bootstrap conjI impI TrueI; use I'(1) in \<open>simp add: True D I exits_def\<close>)
  qed
qed

text \<open>An incremental import into the active lane.\<close>

definition continuing :: "watched_snapshot \<Rightarrow> u64 \<Rightarrow> bool" where
  "continuing candidate slot \<longleftrightarrow> (case candidate of WIncremental s \<Rightarrow> slot < is_slot s \<longrightarrow> continues s slot | WFull f \<Rightarrow> True)"

lemma continuing_allowed:
  "continuing candidate slot \<Longrightarrow> \<not> watched_slot candidate \<le> slot \<Longrightarrow>
   (case candidate of WIncremental s \<Rightarrow> continues s slot | WFull f \<Rightarrow> slot < fs_slot f)"
  by (cases candidate) (simp_all add: continuing_def)

text \<open>When only the active lane has changed, the workers and the mints of the staging lane still fit.\<close>

lemma watcher_inv_activeI:
  assumes I: "watcher_inv j0 s" and "wt_shared (wr_state s) = None"
    and same: "wt_shared (wr_state s') = wt_shared (wr_state s)" "wt_staging (wr_state s') = wt_staging (wr_state s)"
      "wr_build s' = wr_build s" "wr_incremental_handle s' = wr_incremental_handle s" "wr_staging_mints s' = wr_staging_mints s"
    and new: "journaled (j0, True) (wr_events s')" "state_wf (wr_state s')" "fst (journal_after j0 (wr_events s')) = wr_state s'"
      "snd (journal_after j0 (wr_events s')) \<Longrightarrow> wr_active_slot s' = committed_slot (wt_active (wr_state s'))"
      "\<not> wr_bootstrap_pending s'" "wr_output_mints s' \<noteq> None"
  shows "watcher_inv j0 s'"
proof -
  have "journal_inv j0 s'"
    using new by (cases "journal_after j0 (wr_events s')") (simp add: journal_inv_def)
  moreover have "workers_fit s'" using I same
    by (simp add: watcher_inv_def workers_fit_def)
  ultimately show ?thesis
    using I same new by (simp add: watcher_inv_def locals_inv_def)
qed

lemma vcg_apply_active_incremental:
  assumes I: "watcher_inv j0 s" and P: "unshared {Ready, IncrementalLoading} s" and C: "continuing candidate (wr_active_slot s)"
    and Q: "\<And>s'. watcher_inv j0 s' \<Longrightarrow> wr_state s' = wr_state s\<lparr>wt_active := wt_active (wr_state s')\<rparr> \<Longrightarrow> Q True s'"
      "Q False s"
    and E: "\<And>e s'. exits j0 e s' \<Longrightarrow> E e s'"
  shows "wp (apply_active_incremental env candidate) Q E s"
proof -
  obtain j c where J: "journal_after j0 (wr_events s) = (j, c)" by fastforce
  note I' = inv_facts [OF I J]
  have A: "ln_phase (wt_active (wr_state s)) = Ready \<or> ln_phase (wt_active (wr_state s)) = IncrementalLoading"
    and S: "wt_shared (wr_state s) = None"
    using P by (auto simp: unshared_def)
  have K: "ln_phase (wt_active (wr_state s)) \<noteq> WaitingForFull" "ln_phase (wt_active (wr_state s)) \<noteq> FullLoading"
    using A by auto
  obtain om where M: "wr_output_mints s = Some om" "\<not> wr_bootstrap_pending s" using I'(15) [OF K] by auto
  have slot: "c \<Longrightarrow> ln_max_slot (wt_active (wr_state s)) = Some (wr_active_slot s)"
    using I'(6) wf_facts(6) [OF I'(2)] A by (auto simp: committed_slot_def)
  show ?thesis
    unfolding apply_active_incremental_def output_process_def hot_mints_for_def
    by (intro vcg vcg_ask [of j0] vcg_checkpoint [of j0] conjI impI TrueI Q E; (rule watcher_inv_activeI [OF I])?;
      use I'(2) in \<open>simp add: A S M J slot I'(1) continuing_allowed [OF C] after_request_def exits_def
        state_wf_lanes wf_active_incremental\<close>)
qed

lemma newest_eligible_incremental_continues:
  assumes "newest_eligible_incremental incrementals slot = Some s"
  shows "continues s slot"
proof -
  have "s \<in> set (eligible_candidates incrementals slot)"
    using assms by (auto simp: newest_eligible_incremental_def split: list.splits)
  then show ?thesis by (auto simp: eligible_candidates_def continues_def)
qed

lemma stage_resume_active_incremental:
  "stage j0 (unshared {WaitingForFull, Ready, IncrementalLoading}) (resume_active_incremental env incrementals fulls)
     (unshared {WaitingForFull, Ready})"
proof (rule stageI)
  fix s :: "'a watcher" and j c
  assume I: "watcher_inv j0 s" and J: "journal_after j0 (wr_events s) = (j, c)"
    and P: "unshared {WaitingForFull, Ready, IncrementalLoading} s"
  note I' = inv_facts [OF I J]
  let ?Q = "\<lambda>ends s'. watcher_inv j0 s' \<and> (\<not> ends \<longrightarrow> unshared {WaitingForFull, Ready} s')"
  show "wp (resume_active_incremental env incrementals fulls) ?Q (exits j0) s"
  proof (cases "ln_phase (wt_active (wr_state s)) = IncrementalLoading")
    case False
    then have "unshared {WaitingForFull, Ready} s" using P by (simp add: unshared_def)
    with False show ?thesis
      unfolding resume_active_incremental_def by (intro vcg; simp add: I)
  next
    case True
    have U: "unshared {Ready, IncrementalLoading} s" "wt_shared (wr_state s) = None" using P True by (simp_all add: unshared_def)
    have G: "j = wr_state s \<and> ln_inflight (wt_active (wr_state s)) \<noteq> None \<and> \<not> wr_bootstrap_pending s"
      using I'(4,15) wf_facts(7) [OF I'(2)] True by simp
    obtain om where M: "wr_output_mints s = Some om" using I'(15) True by auto
    have ready_again: "wp (active_ready_again env) (\<lambda>_. wp (sreturn True) ?Q (exits j0)) (exits j0) s"
      unfolding active_ready_again_def
      by (intro vcg vcg_checkpoint [of j0] conjI impI TrueI; (rule watcher_inv_activeI [OF I])?;
        use I'(2) in \<open>simp add: U True G M J I'(1,6) after_request_def exits_def state_wf_lanes wf_active_incremental\<close>)
    have apply_one: "wp (apply_active_incremental env candidate)
        (\<lambda>applied. wp (sthen (swhen (\<not> applied) (active_ready_again env)) (sreturn True)) ?Q (exits j0)) (exits j0) s"
      if "continuing candidate (wr_active_slot s)" for candidate
      by (rule vcg_apply_active_incremental [OF I U(1) that]) (simp_all add: wp_sthen wp_swhen wp_sreturn ready_again)
    show ?thesis
      unfolding resume_active_incremental_def
      by (intro vcg apply_one ready_again;
        use newest_eligible_incremental_continues [of incrementals "wr_active_slot s"] I'(1) in
          \<open>auto simp: True G exits_def continuing_def split: persisted_snapshot_kind.splits list.splits\<close>)
  qed
qed

text \<open>The staging workers.\<close>

lemma stage_respawn_staging_full: "stage j0 (unshared A) (respawn_staging_full env fulls) (unshared A)"
proof (rule stageI)
  fix s :: "'a watcher" and j c
  assume I: "watcher_inv j0 s" and J: "journal_after j0 (wr_events s) = (j, c)" and P: "unshared A s"
  note I' = inv_facts [OF I J]
  let ?goal = "wp (respawn_staging_full env fulls) (\<lambda>ends s'. watcher_inv j0 s' \<and> (\<not> ends \<longrightarrow> unshared A s')) (exits j0) s"
  show ?goal
  proof (cases "ln_phase (wt_staging (wr_state s)) = FullLoading")
    case False
    then show ?goal using P unfolding respawn_staging_full_def by (intro vcg; simp add: I)
  next
    case True
    have G: "j = wr_state s \<and> \<not> wr_bootstrap_pending s \<and> (\<exists>y. wr_output_mints s = Some y) \<and> \<not> wr_incremental_handle s \<and>
        ln_full_snapshot (wt_staging (wr_state s)) \<noteq> None \<and> wt_shared (wr_state s) = None"
      using I'(3,14-15,18-19) wf_facts(4) [OF I'(2)] True P by (simp add: unshared_def)
    show ?goal
      unfolding respawn_staging_full_def spawn_staging_full_def
      by (intro vcg vcg_ask [of j0] conjI impI TrueI; (rule I | rule watcher_invI)?;
        use I'(2) P in \<open>auto simp: True G J I'(1,6) after_request_def exits_def unshared_def\<close>)
  qed
qed

lemma stage_respawn_merge_wait: "stage j0 (unshared A) (respawn_merge_wait env) (unshared A)"
proof (rule stageI)
  fix s :: "'a watcher" and j c
  assume I: "watcher_inv j0 s" and J: "journal_after j0 (wr_events s) = (j, c)" and P: "unshared A s"
  note I' = inv_facts [OF I J]
  let ?goal = "wp (respawn_merge_wait env) (\<lambda>ends s'. watcher_inv j0 s' \<and> (\<not> ends \<longrightarrow> unshared A s')) (exits j0) s"
  show ?goal
  proof (cases "ln_phase (wt_staging (wr_state s)) = FullMerging")
    case False
    then show ?goal using P unfolding respawn_merge_wait_def by (intro vcg; simp add: I)
  next
    case True
    have G: "\<not> wr_bootstrap_pending s \<and> (\<exists>y. wr_output_mints s = Some y) \<and> \<not> wr_incremental_handle s \<and>
        ln_full_snapshot (wt_staging (wr_state s)) \<noteq> None \<and> wt_shared (wr_state s) = None \<and> (\<exists>y. wr_staging_mints s = Some y)"
      using I'(14-15,17-19) wf_facts(4) [OF I'(2)] True P by (simp add: unshared_def)
    have K: "j = wr_state s \<or> \<not> c \<and> ln_phase (wt_active (wr_state s)) = Ready" using I J
      by (auto simp: watcher_inv_def journal_inv_def)
    have E: "allowed (j, c) (ESpawnMergeWait f)" for f using K True by auto
    show ?goal
      unfolding respawn_merge_wait_def spawn_staging_merge_wait_def
      by (intro vcg vcg_ask [of j0] conjI impI TrueI; (rule I | rule watcher_invI)?;
        use I'(2) P K in \<open>simp add: True G J E I'(1,6) after_request_def exits_def unshared_def del: allowed.simps\<close>)
  qed
qed

lemma stage_respawn_staging_incremental: "stage j0 (unshared A) (respawn_staging_incremental env incrementals) (unshared A)"
proof (rule stageI)
  fix s :: "'a watcher" and j c
  assume I: "watcher_inv j0 s" and J: "journal_after j0 (wr_events s) = (j, c)" and P: "unshared A s"
  note I' = inv_facts [OF I J]
  let ?goal = "wp (respawn_staging_incremental env incrementals) (\<lambda>ends s'. watcher_inv j0 s' \<and> (\<not> ends \<longrightarrow> unshared A s')) (exits j0) s"
  show ?goal
  proof (cases "ln_phase (wt_staging (wr_state s)) = IncrementalLoading")
    case False
    then show ?goal using P unfolding respawn_staging_incremental_def Let_def by (intro vcg; simp add: I)
  next
    case True
    have G: "j = wr_state s \<and> \<not> wr_bootstrap_pending s \<and> (\<exists>y. wr_output_mints s = Some y) \<and> wr_build s = None \<and>
        ln_max_slot (wt_staging (wr_state s)) \<noteq> None \<and> wt_shared (wr_state s) = None \<and>
        ln_inflight (wt_staging (wr_state s)) = Some \<lparr>in_kind = PersistedIncremental\<rparr>"
      using I'(3,7,15,18-19) wf_facts(5,8) [OF I'(2)] True P by (simp add: unshared_def)
    obtain sm where M: "wr_staging_mints s = Some sm" using I'(17) True by auto
    show ?goal
      unfolding respawn_staging_incremental_def Let_def
      by (intro vcg vcg_ask [of j0] vcg_checkpoint [of j0] conjI impI TrueI; (rule I | rule watcher_invI)?;
        use I'(2) P in \<open>auto simp: True G M J newest_eligible_incremental_continues I'(1,6) after_request_def exits_def unshared_def
          state_wf_lanes wf_staging_ready\<close>)
  qed
qed

lemma stage_wait_for_poll: "stage j0 P (wait_for_poll env) Q"
proof (rule stageI)
  fix s :: "'a watcher" and j c
  assume I: "watcher_inv j0 s"
  show "wp (wait_for_poll env) (\<lambda>ends s'. watcher_inv j0 s' \<and> (\<not> ends \<longrightarrow> Q s')) (exits j0) s"
    unfolding wait_for_poll_def
    by (intro vcg; use I in \<open>simp add: watcher_inv_def journal_inv_def workers_fit_def locals_inv_def\<close>)
qed


text \<open>New work: the first full snapshot, a new generation, the next incremental.\<close>

lemma stage_run_bootstrap:
  "stage j0 (unshared {WaitingForFull, Ready}) (run_bootstrap env fulls)
     (\<lambda>s. unshared {WaitingForFull, Ready} s \<and>
        (ln_phase (wt_active (wr_state s)) = WaitingForFull \<longrightarrow> newest_full_generation fulls None = None))"
proof (rule stageI)
  fix s :: "'a watcher" and j c
  assume I: "watcher_inv j0 s" and J: "journal_after j0 (wr_events s) = (j, c)" and P: "unshared {WaitingForFull, Ready} s"
  note I' = inv_facts [OF I J]
  have D: "ln_phase (wt_staging (wr_state s)) = Disabled" if "wr_bootstrap_pending s \<or> ln_phase (wt_active (wr_state s)) = WaitingForFull"
    using that P I'(15) wf_facts(9) [OF I'(2)] by (auto simp: unshared_def)
  show "wp (run_bootstrap env fulls) (\<lambda>ends s'. watcher_inv j0 s' \<and> (\<not> ends \<longrightarrow> unshared {WaitingForFull, Ready} s' \<and>
        (ln_phase (wt_active (wr_state s')) = WaitingForFull \<longrightarrow> newest_full_generation fulls None = None))) (exits j0) s"
    unfolding run_bootstrap_def
    by (intro vcg vcg_bootstrap conjI impI TrueI; use P in \<open>simp add: D I unshared_def\<close>)
qed

lemma newest_full_generation_none:
  "newest_full_generation fulls None = None \<Longrightarrow> newest_full_generation fulls x = None"
  by (cases fulls; cases x) (auto simp: newest_full_generation_def split: list.splits)

lemma stage_start_new_generation:
  "stage j0 (\<lambda>s. unshared {WaitingForFull, Ready} s \<and>
        (ln_phase (wt_active (wr_state s)) = WaitingForFull \<longrightarrow> newest_full_generation fulls None = None))
     (start_new_generation env fulls) (unshared {WaitingForFull, Ready})"
proof (rule stageI)
  fix s :: "'a watcher" and j c
  assume I: "watcher_inv j0 s" and J: "journal_after j0 (wr_events s) = (j, c)"
    and P: "unshared {WaitingForFull, Ready} s \<and>
      (ln_phase (wt_active (wr_state s)) = WaitingForFull \<longrightarrow> newest_full_generation fulls None = None)"
  note I' = inv_facts [OF I J]
  let ?goal = "wp (start_new_generation env fulls) (\<lambda>ends s'. watcher_inv j0 s' \<and> (\<not> ends \<longrightarrow> unshared {WaitingForFull, Ready} s')) (exits j0) s"
  show ?goal
  proof (cases "ln_phase (wt_staging (wr_state s)) = Disabled \<and> ln_phase (wt_active (wr_state s)) = Ready")
    case False
    then have "ln_phase (wt_staging (wr_state s)) = Disabled \<longrightarrow> (\<forall>x. newest_full_generation fulls x = None)"
      using P newest_full_generation_none by (auto simp: unshared_def)
    then show ?goal using P unfolding start_new_generation_def by (intro vcg; simp add: I)
  next
    case True
    have G: "j = wr_state s \<and> \<not> wr_bootstrap_pending s \<and> wr_build s = None \<and> \<not> wr_incremental_handle s"
      using I'(3,7,14,15) True by simp
    obtain om where M: "wr_output_mints s = Some om" using I'(15) True by auto
    obtain m where S: "ln_max_slot (wt_active (wr_state s)) = Some m" using wf_facts(6) [OF I'(2)] True by auto
    show ?goal
      unfolding start_new_generation_def begin_shared_full_load_def
      by (intro vcg vcg_ask [of j0] vcg_checkpoint [of j0] vcg_cleanup [of j0] conjI impI TrueI; (rule I | rule watcher_invI)?;
        use I'(2) P in \<open>simp add: True G M S J I'(1,6) after_request_def exits_def unshared_def state_wf_lanes wf_shared_begun\<close>)
  qed
qed

lemma wp_start_staging_incremental:
  assumes I: "watcher_inv j0 s" and P: "unshared A s"
    and Q: "\<And>s'. watcher_inv j0 s' \<Longrightarrow> unshared A s' \<Longrightarrow> Q () s'"
  shows "wp (start_staging_incremental env incremental) Q (exits j0) s"
proof -
  obtain j c where J: "journal_after j0 (wr_events s) = (j, c)" by fastforce
  note I' = inv_facts [OF I J]
  show ?thesis
  proof (cases "ln_phase (wt_staging (wr_state s)) = Ready")
    case False
    then show ?thesis using Q [OF I P] unfolding start_staging_incremental_def by (intro vcg; simp add: I P)
  next
    case True
    have G: "j = wr_state s \<and> \<not> wr_bootstrap_pending s \<and> (\<exists>y. wr_output_mints s = Some y) \<and> wr_build s = None \<and>
        wt_shared (wr_state s) = None"
      using I'(3,7,15,18-19) True P by (simp add: unshared_def)
    obtain sm where M: "wr_staging_mints s = Some sm" using I'(17) True by auto
    show ?thesis
      unfolding start_staging_incremental_def
      by (intro vcg vcg_ask [of j0] vcg_checkpoint [of j0] conjI impI TrueI Q; (rule I | rule P | rule watcher_invI)?;
        use I'(2) P in \<open>simp add: True G M J I'(1,6) after_request_def exits_def unshared_def
          state_wf_lanes wf_staging_incremental\<close>)
  qed
qed

lemma stage_run_incrementals: "stage j0 (unshared {WaitingForFull, Ready}) (run_incrementals env incrementals) (\<lambda>_. True)"
proof (rule stageI)
  fix s :: "'a watcher" and j c
  assume I: "watcher_inv j0 s" and J: "journal_after j0 (wr_events s) = (j, c)" and P: "unshared {WaitingForFull, Ready} s"
  note I' = inv_facts [OF I J]
  let ?Q = "\<lambda>ends s'. watcher_inv j0 s' \<and> (\<not> ends \<longrightarrow> True)"
  have M: "ln_max_slot (wt_staging (wr_state s)) \<noteq> None" if "ln_phase (wt_staging (wr_state s)) = Ready"
    using wf_facts(5) [OF I'(2)] that by simp
  have active: "wp (start_active_incremental env i) (\<lambda>_. wp (sreturn True) ?Q (exits j0)) (exits j0) s'"
    if I: "watcher_inv j0 s'" and U: "unshared {WaitingForFull, Ready} s'" for i s'
    unfolding start_active_incremental_def
    by (intro vcg vcg_apply_active_incremental conjI impI TrueI;
      use U in \<open>simp add: I unshared_def continuing_def exits_def\<close>)
  show "wp (run_incrementals env incrementals) ?Q (exits j0) s"
    unfolding run_incrementals_def Let_def
    by (intro vcg wp_start_staging_incremental [OF I P] active conjI impI TrueI; use I'(1) in \<open>simp add: M I exits_def\<close>)
qed

end
