(* ===== verification/Watcher_Loop.thy ===== *)
theory Watcher_Loop
  imports Watcher_Stages
begin

text \<open>
  The watcher as a whole: a turn composed of its stages, the start, any number of turns, and what
  follows for the order of checkpoints and destructive work.
\<close>

section \<open>A turn\<close>

lemma stageD:
  assumes "stage j0 P m P'" "watcher_inv j0 s" "P s"
  shows "wp m (\<lambda>_. watcher_inv j0) (exits j0) s"
proof -
  have "wp m (\<lambda>ends s'. watcher_inv j0 s' \<and> (\<not> ends \<longrightarrow> P' s')) (exits j0) s"
    using assms by (simp add: stage_def)
  then show ?thesis by (rule wp_conseq) auto
qed

lemma stage_ask:
  fixes P' :: "'w watcher \<Rightarrow> bool"
  assumes "\<And>x. stage j0 (\<lambda>s. p (wr_state s)) (f x) P'"
  shows "stage j0 (\<lambda>s. p (wr_state s)) (sbind (ask EOther m) f) P'"
proof (rule stageI)
  fix s :: "'w watcher" and j c
  assume I: "watcher_inv j0 s" and J: "journal_after j0 (wr_events s) = (j, c)" and P: "p (wr_state s)"
  show "wp (sbind (ask EOther m) f) (\<lambda>ends s'. watcher_inv j0 s' \<and> (\<not> ends \<longrightarrow> P' s')) (exits j0) s"
  proof (intro vcg_sbind vcg_ask [of j0])
    fix x s' w
    assume a: "after_request j0 (journal_after j0 (wr_events s)) s s'"
    then have "watcher_inv j0 s' \<and> p (wr_state s')"
      using watcher_inv_request [OF I a] P by (simp add: after_request_def)
    then show "wp (f x) (\<lambda>ends s'. watcher_inv j0 s' \<and> (\<not> ends \<longrightarrow> P' s')) (exits j0) s'"
      using assms [of x] unfolding stage_def by blast
  qed (use inv_facts(1) [OF I J] in \<open>simp_all add: after_request_def exits_def\<close>)
qed

lemma stage_after_discovery:
  "stage j0 (\<lambda>s. ln_phase (wt_active (wr_state s)) \<noteq> CutoverPending) (turn_after_discovery env incrementals fulls) (\<lambda>_. True)"
  unfolding turn_after_discovery_def
  by (rule stage_or_next [OF stage_run_shared_full
        stage_or_next [OF stage_resume_active_full_merging
        stage_or_next [OF stage_resume_active_full_loading
        stage_or_next [OF stage_resume_active_incremental
        stage_or_next [OF stage_respawn_staging_full
        stage_or_next [OF stage_respawn_merge_wait
        stage_or_next [OF stage_respawn_staging_incremental
        stage_or_next [OF stage_run_bootstrap
        stage_or_next [OF stage_start_new_generation
        stage_or_next [OF stage_run_incrementals stage_wait_for_poll]]]]]]]]]])

lemma wp_watch_turn:
  assumes ack: "worker_acknowledged env" and I: "watcher_inv j0 s"
  shows "wp (watch_turn env) (\<lambda>_. watcher_inv j0) (exits j0) s"
  unfolding watch_turn_def
  by (rule stageD [OF stage_or_next [OF stage_poll_full_imported
        stage_or_next [OF stage_join_staging_build [OF ack]
        stage_or_next [OF stage_join_staging_incremental
        stage_or_next [OF stage_run_cutover
        stage_ask [OF stage_ask [OF stage_after_discovery]]]]]] I TrueI])


section \<open>The start\<close>

lemma wf_recovered: "state_wf (recovered_active_only slot)"
  by (simp add: state_wf_defs recovered_active_only_def lane_disabled_def)

lemma wf_clear_staging:
  "lanes_wf a g sh cu \<Longrightarrow> ln_phase g = Disabled \<Longrightarrow> lanes_wf a (g\<lparr>ln_hot_mints_path := None\<rparr>) sh cu"
  by (simp add: lanes_wf_defs del: not_None_eq)

lemma clear_disabled_wf:
  assumes clear: "clear_disabled_hot_mints_paths loaded = (changed, st)" and wf: "state_wf loaded"
  shows "state_wf st \<and> (\<not> changed \<longrightarrow> st = loaded)"
proof (cases "ln_phase (wt_staging loaded) = Disabled")
  case True
  have "st = loaded\<lparr>wt_staging := (wt_staging loaded)\<lparr>ln_hot_mints_path := None\<rparr>\<rparr>"
    and c: "changed \<longleftrightarrow> ln_hot_mints_path (wt_staging loaded) \<noteq> None"
    using clear wf_facts(11) [OF wf] True by (auto simp: clear_disabled_hot_mints_paths_def clear_disabled_lane_def)
  moreover have "loaded\<lparr>wt_staging := (wt_staging loaded)\<lparr>ln_hot_mints_path := None\<rparr>\<rparr> = loaded"
    if "ln_hot_mints_path (wt_staging loaded) = None"
    using that by (cases loaded; cases "wt_staging loaded") simp
  ultimately show ?thesis
    using wf True by (simp add: state_wf_lanes wf_clear_staging del: not_None_eq)
next
  case False
  then show ?thesis
    using clear wf wf_facts(11) [OF wf] by (auto simp: clear_disabled_hot_mints_paths_def clear_disabled_lane_def)
qed

text \<open>The state from which the process starts: nothing has been requested yet and the journal, when it can
  be read at all, holds \<open>j0\<close>.\<close>

definition starts_from :: "'w watch_env \<Rightarrow> watcher_state \<Rightarrow> 'w watcher \<Rightarrow> bool" where
  "starts_from env j0 s \<longleftrightarrow> wr_events s = [] \<and>
     (\<forall>st w'. we_load_state env (wr_world s) = (Inr (Some st), w') \<longrightarrow> st = j0 \<and> state_wf st)"

lemma wp_initial_watcher_state:
  fixes s :: "'w watcher"
  assumes "starts_from env j0 s"
  shows "wp (initial_watcher_state env bootstrap rewind)
    (\<lambda>st s'. journaled (j0, True) (wr_events s') \<and> journal_after j0 (wr_events s') = (st, True) \<and> state_wf st) (exits j0) s"
proof (cases bootstrap)
  case True
  then show ?thesis
    using assms by (simp add: initial_watcher_state_def Let_def wp_rules starts_from_def journal_after_def exits_def
        bootstrap_preserving_active_def wf_recovered)
next
  case False
  have "wp (ask EOther (we_load_state env)) (\<lambda>loaded s'. wr_events s' = [(EOther, True)] \<and> (\<forall>st. loaded = Some st \<longrightarrow> st = j0 \<and> state_wf st))
      (exits j0) s"
    using assms by (simp add: wp_ask starts_from_def exits_def)
  then have "wp (ask EOther (we_load_state env)) (\<lambda>loaded. wp (case loaded of
            Some st \<Rightarrow> sreturn st
          | None \<Rightarrow>
              sbind (ask EOther (we_max_slot env)) (\<lambda>max_slot.
              let st = recovered_active_only (resume_slot_from_max_updated_slot max_slot rewind) in
              sthen (ask (EPersist st) (we_persist env st)) (sreturn st)))
        (\<lambda>st s'. journaled (j0, True) (wr_events s') \<and> journal_after j0 (wr_events s') = (st, True) \<and> state_wf st) (exits j0)) (exits j0) s"
  proof (rule wp_conseq)
    fix loaded :: "watcher_state option" and s' :: "'w watcher"
    assume "wr_events s' = [(EOther, True)] \<and> (\<forall>st. loaded = Some st \<longrightarrow> st = j0 \<and> state_wf st)"
    then show "wp (case loaded of
            Some st \<Rightarrow> sreturn st
          | None \<Rightarrow>
              sbind (ask EOther (we_max_slot env)) (\<lambda>max_slot.
              let st = recovered_active_only (resume_slot_from_max_updated_slot max_slot rewind) in
              sthen (ask (EPersist st) (we_persist env st)) (sreturn st)))
        (\<lambda>st s'. journaled (j0, True) (wr_events s') \<and> journal_after j0 (wr_events s') = (st, True) \<and> state_wf st) (exits j0) s'"
      by (cases loaded) (simp_all add: wp_rules Let_def journal_after_def exits_def wf_recovered)
  qed
  with False show ?thesis by (simp add: initial_watcher_state_def wp_sbind)
qed


lemma wf_active_mints: "lanes_wf a g sh cu \<Longrightarrow> lanes_wf (a\<lparr>ln_hot_mints_path := Some p\<rparr>) g sh cu"
  by (simp add: lanes_wf_defs del: not_None_eq)

lemma staging_mints_recorded:
  assumes "state_wf st" "ln_phase (wt_staging st) \<in> {FullMerging, Ready, IncrementalLoading, CutoverPending} \<or> wt_shared st \<noteq> None"
  shows "ln_hot_mints_path (wt_staging st) \<noteq> None" "ln_phase (wt_staging st) \<noteq> Disabled"
  using assms unfolding state_wf_def staging_wf_def shared_wf_iff by (cases "wt_shared st"; force)+

lemma wp_enter_loop:
  assumes "journaled (j0, True) (wr_events s)" "journal_after j0 (wr_events s) = (st, True)" "wr_state s = st" "state_wf st"
  shows "wp (enter_loop env st) (\<lambda>_. watcher_inv j0) (exits j0) s"
  unfolding enter_loop_def Let_def take_active_slot_def load_output_mints_def load_staging_mints_def
  by (intro vcg vcg_ask [of j0] vcg_checkpoint [of j0]; (rule watcher_invI)?;
      use assms staging_mints_recorded [OF assms(4)] in
        \<open>simp add: after_request_def exits_def state_wf_lanes wf_active_mints\<close>)

lemma wp_start_watcher:
  fixes s :: "'w watcher"
  assumes "starts_from env j0 s"
  shows "wp (start_watcher env bootstrap rewind) (\<lambda>_. watcher_inv j0) (exits j0) s"
  unfolding start_watcher_def
proof (rule vcg_sbind, rule wp_conseq [OF wp_initial_watcher_state [OF assms]])
  fix loaded and s' :: "'w watcher"
  assume L: "journaled (j0, True) (wr_events s') \<and> journal_after j0 (wr_events s') = (loaded, True) \<and> state_wf loaded"
  obtain changed st where clear: "clear_disabled_hot_mints_paths loaded = (changed, st)" by fastforce
  have W: "state_wf st" "\<not> changed \<Longrightarrow> loaded = st" using clear_disabled_wf [OF clear] L by simp_all
  show "wp (sthen (supdate (\<lambda>s. s\<lparr>wr_state := snd (clear_disabled_hot_mints_paths loaded)\<rparr>))
     (sthen (swhen (fst (clear_disabled_hot_mints_paths loaded)) (checkpoint env))
     (sthen (cleanup_or_warn env)
            (enter_loop env (snd (clear_disabled_hot_mints_paths loaded))))))
     (\<lambda>_. watcher_inv j0) (exits j0) s'"
    unfolding clear fst_conv snd_conv
    by (intro vcg vcg_checkpoint [of j0] vcg_cleanup [of j0] wp_enter_loop;
      use L W in \<open>simp add: after_request_def exits_def\<close>)
qed simp

section \<open>A run\<close>

primrec watch_turns :: "'w watch_env \<Rightarrow> nat \<Rightarrow> ('w, unit) watch_op" where
  "watch_turns env 0 = sreturn ()"
| "watch_turns env (Suc n) = sbind (watch_turn env) (\<lambda>_. watch_turns env n)"

definition run_watcher :: "'w watch_env \<Rightarrow> bool \<Rightarrow> u64 \<Rightarrow> nat \<Rightarrow> ('w, unit) watch_op" where
  "run_watcher env bootstrap rewind turns = sthen (start_watcher env bootstrap rewind) (watch_turns env turns)"

lemma wp_watch_turns:
  assumes "worker_acknowledged env" "watcher_inv j0 s"
  shows "wp (watch_turns env n) (\<lambda>_. watcher_inv j0) (exits j0) s"
  using assms(2)
proof (induction n arbitrary: s)
  case (Suc n)
  show ?case
    unfolding watch_turns.simps wp_sbind
    by (rule wp_conseq [OF wp_watch_turn [OF assms(1) Suc.prems]]) (simp_all add: Suc.IH)
qed (simp add: wp_sreturn)

lemma wp_run_watcher:
  assumes "worker_acknowledged env" "starts_from env j0 s"
  shows "wp (run_watcher env bootstrap rewind n) (\<lambda>_. watcher_inv j0) (exits j0) s"
  unfolding run_watcher_def wp_sthen
  by (rule wp_conseq [OF wp_start_watcher [OF assms(2)]]) (simp_all add: wp_watch_turns assms(1))

section \<open>Properties\<close>

lemma journaled_iff:
  "journaled jc evs \<longleftrightarrow> (\<forall>k < length evs. allowed (foldl journal_step jc (take k evs)) (fst (evs ! k)))"
  by (induction evs arbitrary: jc) (auto simp: less_Suc_eq_0_disj all_conj_distrib)

lemma journaled_at:
  assumes "journaled (j0, True) evs" "k < length evs"
  shows "allowed (journal_after j0 (take k evs)) (fst (evs ! k))"
  using assms by (simp add: journaled_iff journal_after_def)

lemma run_watcher_cases:
  assumes "worker_acknowledged env" "starts_from env j0 s" "run_watcher env bootstrap rewind turns s = (r, s')"
  shows "case r of Inr x \<Rightarrow> watcher_inv j0 s' | Inl e \<Rightarrow> exits j0 e s'"
  using wpD [OF wp_run_watcher [OF assms(1,2)] assms(3)] by simp

lemma journal_wf:
  assumes "journaled (j, c) evs" "state_wf j"
  shows "state_wf (fst (foldl journal_step (j, c) evs))"
  using assms
proof (induction evs arbitrary: j c)
  case (Cons e es)
  obtain ev ok where e: "e = (ev, ok)" by fastforce
  obtain j' c' where s: "journal_step (j, c) e = (j', c')" by fastforce
  have "state_wf j'" using Cons.prems s by (cases ev) (auto simp: e split: if_splits)
  then show ?case using Cons.IH [of j' c'] Cons.prems(1) by (simp add: s)
qed simp

text \<open>A run of four turns from a fresh journal: a new generation is begun, imported once for both lanes, followed
  by an incremental, and cut over.\<close>

definition demo_env :: "unit watch_env" where
  "demo_env = \<lparr>
     we_persist = \<lambda>st w. (Inr (), w), we_load_state = \<lambda>w. (Inr None, w),
     we_persist_mints = \<lambda>mints w. (Inr (''data'', ''mints''), w), we_load_mints = \<lambda>p w. (Inr {''mint''}, w),
     we_cleanup_mints = \<lambda>st w. (Inr 0, w),
     we_discover_incrementals = \<lambda>w. (Inr [\<lparr>is_path = ''i'', is_base_slot = 200, is_slot = 250\<rparr>], w),
     we_discover_fulls = \<lambda>w. (Inr [\<lparr>fs_path = ''f'', fs_slot = 200\<rparr>], w),
     we_path_exists = \<lambda>w p. True, we_max_slot = \<lambda>w. (Inr 100, w), we_enabled_mints = \<lambda>w. (Inr {''mint''}, w),
     we_set_merges = \<lambda>g on w. (Inr (), w), we_wait_settle = \<lambda>g w. (Inr (), w), we_reset = \<lambda>g w. (Inr (), w),
     we_identity = \<lambda>g w. (Inr \<lparr>identity_tables = (\<lambda>t. Some (if g = Active then ''u1'' else ''u2''))\<rparr>, w),
     we_exchange = \<lambda>a b w. (Inr (), w),
     we_validate = \<lambda>n w. (Inr (), w), we_new_loader = \<lambda>c slot w. (Inr (), w),
     we_insert_all = \<lambda>c slot k g mints w. (Inr (), w), we_fanout = \<lambda>c slot a b w. (Inr (), w),
     we_spawn_full = \<lambda>f w. (Inr (), w), we_spawn_merge_wait = \<lambda>f w. (Inr (), w),
     we_spawn_incremental = \<lambda>i slot mints w. (Inr (), w), we_try_recv = \<lambda>w. (Inr None, w), we_send_ack = \<lambda>w. (Inr (), w),
     we_build_finished = \<lambda>w. True, we_build_join = \<lambda>b w. (if sb_full_import_ack b then Inl ''closed'' else Inr (), w),
     we_incremental_finished = \<lambda>w. True, we_incremental_join = \<lambda>w. (Inr 250, w), we_sleep = \<lambda>w. w\<rparr>"

definition demo_start :: "unit watcher" where
  "demo_start = \<lparr>wr_world = (), wr_events = [], wr_state = bootstrap_waiting_for_full, wr_active_slot = 0,
     wr_bootstrap_pending = False, wr_output_mints = None, wr_staging_mints = None, wr_build = None,
     wr_incremental_handle = False, wr_invalid = {}\<rparr>"

lemma demo_hypotheses: "worker_acknowledged demo_env" "starts_from demo_env j0 demo_start"
  by (simp_all add: worker_acknowledged_def starts_from_def demo_env_def demo_start_def)

definition is_exchange :: "watch_event \<Rightarrow> bool" where
  "is_exchange ev = (case ev of EExchange a b \<Rightarrow> True | _ \<Rightarrow> False)"



text \<open>C2: The state machine never contradicts itself.  Whatever the environment answers, the process ends with
  an error of the environment and with none of its own consistency errors; as long as it runs, its state is well
  formed, its workers and frozen mints fit the lanes and the watermark is the committed one; and the journal is
  well formed after every request, so that a restart after a crash starts from such a state again.\<close>

theorem watcher_stays_consistent:
  assumes "worker_acknowledged env" and "starts_from env j0 s" and "run_watcher env bootstrap rewind turns s = (r, s')"
  shows "r \<noteq> Inl (Inconsistent m) \<and> (r = Inr () \<longrightarrow> watcher_inv j0 s') \<and>
    (state_wf j0 \<longrightarrow> state_wf (fst (journal_after j0 (take k (wr_events s')))))"
proof (intro conjI impI)
  note C = run_watcher_cases [OF assms]
  show "r \<noteq> Inl (Inconsistent m)" using C by (auto simp: exits_def)
  show "watcher_inv j0 s'" if "r = Inr ()" using C that by simp
  have "journaled (j0, True) (take k (wr_events s') @ drop k (wr_events s'))"
    using C by (cases r) (simp_all add: exits_def watcher_inv_def journal_inv_def)
  then show "state_wf (fst (journal_after j0 (take k (wr_events s'))))" if "state_wf j0"
    using journal_wf that unfolding journaled_append journal_after_def by blast
qed

lemma watcher_stays_consistent_witness:
  "\<exists>s'. run_watcher demo_env False 0 4 demo_start = (Inr (), s') \<and> wr_active_slot s' = 250 \<and>
    watcher_inv (recovered_active_only 7) s' \<and>
    state_wf (fst (journal_after (recovered_active_only 7) (take 20 (wr_events s'))))"
proof -
  obtain r s' where run: "run_watcher demo_env False 0 4 demo_start = (r, s')" by fastforce
  have "fst (run_watcher demo_env False 0 4 demo_start) = Inr () \<and>
      wr_active_slot (snd (run_watcher demo_env False 0 4 demo_start)) = 250"
    by code_simp
  then show ?thesis
    using watcher_stays_consistent [OF demo_hypotheses run, of _ "recovered_active_only 7" 20] run wf_recovered by auto
qed

text \<open>The staging worker of a full import does not finish before the watcher has acknowledged the import.\<close>

lemma build_staging_full_needs_ack:
  assumes "\<And>w. isl (fst (receive w))"
  shows "isl (fst (build_staging_full env send receive snapshot w))"
proof -
  have "wp (build_staging_full env send receive snapshot) (\<lambda>_ _. False) (\<lambda>_ _. True) w"
    unfolding build_staging_full_def wp_sthen wp_sbind
    using assms by (auto simp: wp_def split: prod.splits sum.splits) (metis fst_conv sum.disc(2))
  then show ?thesis by (auto simp: wp_def split: prod.splits sum.splits)
qed

definition always_succeeds :: "('w, string, 'a) op \<Rightarrow> bool" where
  "always_succeeds m \<longleftrightarrow> (\<forall>w. \<not> isl (fst (m w)))"

definition always_fails :: "('w, string, 'a) op \<Rightarrow> bool" where
  "always_fails m \<longleftrightarrow> (\<forall>w. isl (fst (m w)))"

lemma wp_ask_succeeds:
  assumes "always_succeeds m"
  shows "wp (ask ev m) Q E s \<longleftrightarrow>
    (\<forall>x w. m (wr_world s) = (Inr x, w) \<longrightarrow> Q x (s\<lparr>wr_world := w, wr_events := wr_events s @ [(ev, True)]\<rparr>))"
  using assms unfolding wp_ask always_succeeds_def by (metis fst_conv sum.disc(1))

lemma wp_checkpoint_fails:
  assumes "\<And>st. always_fails (we_persist env st)"
  shows "wp (checkpoint env) Q E s \<longleftrightarrow>
    (\<forall>e w. we_persist env (wr_state s) (wr_world s) = (Inl e, w) \<longrightarrow>
       E (Environment e) (s\<lparr>wr_world := w, wr_events := wr_events s @ [(EPersist (wr_state s), False)]\<rparr>))"
  using assms unfolding wp_checkpoint always_fails_def by (metis fst_conv sum.disc(2))

lemmas wp_structure = wp_sreturn wp_sfail wp_supdate wp_sread wp_swhen wp_sbind wp_sthen wp_smatch wp_sattempt wp_required
  wp_if wp_updates

lemma wp_cleanup:
  "wp (cleanup_or_warn env) Q E s \<longleftrightarrow> (\<forall>r w. we_cleanup_mints env (wr_state s) (wr_world s) = (r, w) \<longrightarrow>
     Q () (s\<lparr>wr_world := w, wr_events := wr_events s @ [(EOther, \<not> isl r)]\<rparr>))"
  by (auto simp: wp_def cleanup_or_warn_def sattempt_def ask_def split: sum.splits prod.splits)

text \<open>C17: A failed checkpoint at the end of a shared full import is not undone.  If the import into both
  groups succeeds and only the checkpoint after it fails, the turn goes on with \<open>_bak\<close> reset by the clean-up, while
  the state in memory says that staging holds the complete snapshot and only waits for its merges; the shared
  import is gone from that state, so that nothing repeats it.\<close>

theorem shared_completion_failure:
  assumes shared: "wt_shared (wr_state s) = Some sh" and wf: "state_wf (wr_state s)"
    and idle: "wr_build s = None" "\<not> wr_incremental_handle s"
    and mints: "wr_staging_mints s = Some sm" "wr_output_mints s = Some om"
    and found: "find_recorded_full fulls (sh_snapshot sh) = Some snapshot"
    and requests: "\<And>g on. always_succeeds (we_set_merges env g on)" "\<And>g. always_succeeds (we_reset env g)"
      "\<And>c slot. always_succeeds (we_new_loader env c slot)" "\<And>c slot a b. always_succeeds (we_fanout env c slot a b)"
    and journal: "\<And>st. always_fails (we_persist env st)"
  shows "\<exists>s'. run_shared_full env fulls s = (Inr True, s') \<and>
    ln_phase (wt_staging (wr_state s')) = FullMerging \<and> ln_max_slot (wt_staging (wr_state s')) = Some (fs_slot snapshot) \<and>
    wt_shared (wr_state s') = None \<and> ln_phase (wt_active (wr_state s')) = Ready \<and>
    wr_events s' = wr_events s @ [(ESetMerges Backup False, True), (EReset Backup, True), (EOther, True),
      (EFanout (WFull snapshot) (sh_active_resume_slot sh), True), (EPersist (wr_state s'), False),
      (ESetMerges Backup False, True), (EReset Backup, True)]"
proof -
  note T = wf_facts(1) [OF wf shared]
  have same: "same_archive snapshot (sh_snapshot sh)"
    using found by (auto simp: find_recorded_full_def find_Some_iff same_archive_def)
  have "wp (run_shared_full env fulls) (\<lambda>ends s'. ends \<and>
      ln_phase (wt_staging (wr_state s')) = FullMerging \<and> ln_max_slot (wt_staging (wr_state s')) = Some (fs_slot snapshot) \<and>
      wt_shared (wr_state s') = None \<and> ln_phase (wt_active (wr_state s')) = Ready \<and>
      wr_events s' = wr_events s @ [(ESetMerges Backup False, True), (EReset Backup, True), (EOther, True),
        (EFanout (WFull snapshot) (sh_active_resume_slot sh), True), (EPersist (wr_state s'), False),
        (ESetMerges Backup False, True), (EReset Backup, True)]) (\<lambda>_ _. False) s"
    unfolding run_shared_full_def complete_shared_full_load_def process_shared_full_fanout_def frozen_hot_mints_def
      reset_failed_staging_def
    by (simp add: wp_structure wp_checkpoint_fails [OF journal] wp_ask_succeeds requests shared idle mints found same T)
  then show ?thesis by (auto simp: wp_def split: prod.splits sum.splits)
qed

definition demo_shared :: "unit watcher" where
  "demo_shared = demo_start\<lparr>wr_state := (recovered_active_only 100)\<lparr>
     wt_active := \<lparr>ln_phase = IncrementalLoading, ln_full_snapshot = None, ln_max_slot = Some 100,
       ln_hot_mints_path = Some (''data'', ''mints''), ln_inflight = Some \<lparr>in_kind = PersistedFull\<rparr>\<rparr>,
     wt_staging := \<lparr>ln_phase = FullLoading, ln_full_snapshot = Some \<lparr>fs_path = ''f'', fs_slot = 200\<rparr>, ln_max_slot = None,
       ln_hot_mints_path = Some (''data'', ''mints''), ln_inflight = None\<rparr>,
     wt_shared := Some \<lparr>sh_snapshot = \<lparr>fs_path = ''f'', fs_slot = 200\<rparr>, sh_active_resume_slot = 100\<rparr>\<rparr>,
     wr_active_slot := 100, wr_output_mints := Some {''mint''}, wr_staging_mints := Some {''mint''}\<rparr>"

lemma shared_completion_failure_witness:
  "\<exists>s'. run_shared_full (demo_env\<lparr>we_persist := \<lambda>st w. (Inl ''disk full'', w)\<rparr>) [\<lparr>fs_path = ''f'', fs_slot = 200\<rparr>] demo_shared = (Inr True, s') \<and>
    ln_phase (wt_staging (wr_state s')) = FullMerging \<and> wt_shared (wr_state s') = None \<and>
    last (wr_events s') = (EReset Backup, True)"
proof -
  let ?env = "demo_env\<lparr>we_persist := \<lambda>st w. (Inl ''disk full'', w)\<rparr>" and ?f = "\<lparr>fs_path = ''f'', fs_slot = 200\<rparr> :: full_snapshot"
  have wf: "state_wf (wr_state demo_shared)"
    by (simp add: demo_shared_def demo_start_def recovered_active_only_def state_wf_defs lane_disabled_def)
  have fields: "wt_shared (wr_state demo_shared) = Some \<lparr>sh_snapshot = ?f, sh_active_resume_slot = 100\<rparr>"
    "wr_build demo_shared = None" "\<not> wr_incremental_handle demo_shared"
    "wr_staging_mints demo_shared = Some {''mint''}" "wr_output_mints demo_shared = Some {''mint''}"
    by (simp_all add: demo_shared_def demo_start_def)
  have found: "find_recorded_full [?f] (sh_snapshot \<lparr>sh_snapshot = ?f, sh_active_resume_slot = 100\<rparr>) = Some ?f"
    by (simp add: find_recorded_full_def)
  have ops: "always_succeeds (we_set_merges ?env g on)" "always_succeeds (we_reset ?env g)" "always_succeeds (we_new_loader ?env c slot)"
    "always_succeeds (we_fanout ?env c slot m m')" "always_fails (we_persist ?env st)" for g on c slot m m' st
    by (simp_all add: demo_env_def always_succeeds_def always_fails_def)
  from shared_completion_failure [OF fields(1) wf fields(2-5) found ops]
  obtain s' where "run_shared_full ?env [?f] demo_shared = (Inr True, s')" "ln_phase (wt_staging (wr_state s')) = FullMerging"
    "wt_shared (wr_state s') = None" "last (wr_events s') = (EReset Backup, True)" by auto
  then show ?thesis by (intro exI conjI)
qed



definition demo_cutover :: "unit watcher" where
  "demo_cutover = demo_start\<lparr>wr_state := (recovered_active_only 100)\<lparr>
     wt_active := \<lparr>ln_phase = CutoverPending, ln_full_snapshot = None, ln_max_slot = Some 100,
       ln_hot_mints_path = Some (''data'', ''old''), ln_inflight = None\<rparr>,
     wt_staging := \<lparr>ln_phase = CutoverPending, ln_full_snapshot = Some \<lparr>fs_path = ''f'', fs_slot = 200\<rparr>, ln_max_slot = Some 250,
       ln_hot_mints_path = Some (''data'', ''new''), ln_inflight = None\<rparr>\<rparr>\<rparr>"


end
