(* ===== verification/Import.thy ===== *)
theory Import
  imports Hot_State Parallel_Scan
begin

text \<open>
  A whole import, \<^verbatim>\<open>insert_all_sequential\<close> and \<^verbatim>\<open>insert_all_parallel\<close>: the scan of the archive, the merge of the
  metadata patches, the end of the sinks and the tombstones and refresh of \<open>finish_import\<close>.  What the
  server has after the streams of a sink is \<open>deliver\<close>, whose promise is the locale \<open>importer\<close>: the rows a
  stream has had confirmed are in its table.
\<close>

section \<open>The result\<close>

record index_stats =
  ix_accounts_total :: u64
  ix_token_accounts_total :: u64
  ix_zero_balance_omitted :: u64
  ix_skipped_append_vecs :: u64
  ix_append_vecs_total :: u64
  ix_nonempty_zero_account_append_vecs :: u64
  ix_spl_token_owner_accounts_seen :: u64
  ix_spl_token_accounts_parsed :: u64
  ix_spl_token_unexpected_size :: u64
  ix_spl_token_unpack_failed :: u64
  ix_token_2022_owner_accounts_seen :: u64
  ix_token_2022_accounts_parsed :: u64
  ix_token_2022_unexpected_size :: u64
  ix_token_2022_unpack_failed :: u64
  ix_token_account_close_candidates :: u64
  ix_token_accounts_marked_deleted :: u64

definition index_stats_of ::
  "(progress_counter \<Rightarrow> u64) \<Rightarrow> worker_stats \<Rightarrow> snapshot_kind \<Rightarrow> u64 \<Rightarrow> u64 \<Rightarrow> index_stats" where
  "index_stats_of progress st kind skipped marked = \<lparr>
     ix_accounts_total = progress ProgressAccounts,
     ix_token_accounts_total = progress ProgressTokens,
     ix_zero_balance_omitted = ws_count st ZeroBalanceOmitted,
     ix_skipped_append_vecs = skipped,
     ix_append_vecs_total = ws_count st AppendVecsTotal,
     ix_nonempty_zero_account_append_vecs = ws_count st NonemptyZeroAccount,
     ix_spl_token_owner_accounts_seen = ws_count st SplOwnerSeen,
     ix_spl_token_accounts_parsed = ws_count st SplParsed,
     ix_spl_token_unexpected_size = ws_count st SplUnexpectedSize,
     ix_spl_token_unpack_failed = ws_count st SplUnpackFailed,
     ix_token_2022_owner_accounts_seen = ws_count st T22OwnerSeen,
     ix_token_2022_accounts_parsed = ws_count st T22Parsed,
     ix_token_2022_unexpected_size = ws_count st T22UnexpectedSize,
     ix_token_2022_unpack_failed = ws_count st T22UnpackFailed,
     ix_token_account_close_candidates =
       (if collect_close_tombstones kind then word_of_nat (length (ws_closed st)) else 0),
     ix_token_accounts_marked_deleted = marked\<rparr>"

section \<open>The metadata rows\<close>

definition write_merged_metadata_patches ::
  "'i ins_ops \<Rightarrow> metadata_query \<Rightarrow> metadata_patches \<Rightarrow> bool \<Rightarrow> u64 \<Rightarrow> ('i, u64) sink_op" where
  "write_merged_metadata_patches ops query patches preserve_existing snapshot_slot =
     (case merged_metadata_rows query patches preserve_existing snapshot_slot of
        Inl e \<Rightarrow> sfail e
      | Inr rows \<Rightarrow> sthen (sfor (write_token_metadata ops) rows) (sreturn (word_of_nat (length rows))))"

section \<open>The surroundings of an import\<close>

text \<open>
  \<open>im_metadata\<close> answers the lookup of stored metadata rows; \<open>im_deliver g s\<close> is the server after the
  streams of the sink \<open>s\<close> of the group \<open>g\<close>; \<open>im_nonce\<close> names the temporary tables.
\<close>

record ('i, 'd) import_env =
  im_ops :: "'i ins_ops"
  im_db :: "'d db_ops"
  im_ext :: externals
  im_metadata :: "'d \<Rightarrow> table_group \<Rightarrow> metadata_query"
  im_deliver :: "table_group \<Rightarrow> 'i sink \<Rightarrow> 'd \<Rightarrow> 'd"
  im_nonce :: string
  im_clock :: "nat \<Rightarrow> nat \<Rightarrow> nat"
  im_gate :: insert_gate

record indexer =
  ci_group :: table_group
  ci_hot_mints :: "string set"
  ci_snapshot_slot :: u64

text \<open>What follows the scan, with the main sink and the totals of the workers.\<close>

definition finish_index ::
  "('i, 'd) import_env \<Rightarrow> indexer \<Rightarrow> snapshot_kind \<Rightarrow> metadata_patches \<Rightarrow> worker_stats \<Rightarrow> 'i sink \<Rightarrow> ('d, u64) db_op" where
  "finish_index env ix kind patches st sink d =
     (case sthen (write_merged_metadata_patches (im_ops env) (im_metadata env d (ci_group ix)) patches
                    (kind = Incremental) (ci_snapshot_slot ix))
             (sink_end (im_ops env)) sink of
        (Inl e, sink') \<Rightarrow> (Inl e, im_deliver env (ci_group ix) sink' d)
      | (Inr _, sink') \<Rightarrow>
          finish_import (im_db env) (im_nonce env) (ci_group ix) (ci_hot_mints ix) kind (ci_snapshot_slot ix)
            (ws_closed st) (ws_pairs st) (im_deliver env (ci_group ix) sink' d))"

section \<open>One worker\<close>

definition insert_all_sequential ::
  "('i, 'd) import_env \<Rightarrow> indexer \<Rightarrow> ('e + append_vec) list \<Rightarrow> snapshot_kind \<Rightarrow> ('d, index_stats) db_op" where
  "insert_all_sequential env ix items kind d =
     (case scan_sequential (im_ops env) (im_ext env) (worker_config_of kind (ci_snapshot_slot ix) (ci_hot_mints ix)) items 0
             (worker_new (sink_new (im_ops env) None (ci_group ix) (im_clock env 0)) [] (\<lambda>_. 0)) of
        (Inl e, w) \<Rightarrow> (Inl e, im_deliver env (ci_group ix) (wk_sink w) d)
      | (Inr skipped, w) \<Rightarrow>
          sbind (finish_index env ix kind (wk_patches w) (wk_stats w) (wk_sink w))
            (\<lambda>marked. sreturn (index_stats_of (wk_progress w) (wk_stats w) kind skipped marked)) d)"

section \<open>Several workers\<close>

text \<open>The end of the workers' sinks, in the order in which they are joined.\<close>

primrec end_workers :: "'i ins_ops \<Rightarrow> nat list \<Rightarrow> ('i pool, string, unit) op" where
  "end_workers ops [] = sreturn ()"
| "end_workers ops (i # is) =
     sthen (\<lambda>p. case sink_end ops (pl_sinks p i) of (r, s) \<Rightarrow> (r, p\<lparr>pl_sinks := (pl_sinks p)(i := s)\<rparr>))
       (end_workers ops is)"

definition run_workers ::
  "('i, 'd) import_env \<Rightarrow> worker_config \<Rightarrow> nat \<Rightarrow> (nat \<times> task) list \<Rightarrow> ('i pool, string, unit) op" where
  "run_workers env cfg workers sched =
     sthen (sfor (pool_step (im_ops env) (im_ext env) cfg) sched) (end_workers (im_ops env) [0..<workers])"

definition skipped_items :: "('e + append_vec) list \<Rightarrow> u64" where
  "skipped_items items = word_of_nat (length (filter (\<lambda>item. case item of Inl _ \<Rightarrow> True | Inr _ \<Rightarrow> False) items))"

definition deliver_workers :: "('i, 'd) import_env \<Rightarrow> table_group \<Rightarrow> (nat \<Rightarrow> 'i sink) \<Rightarrow> nat \<Rightarrow> 'd \<Rightarrow> 'd" where
  "deliver_workers env g sinks workers = fold (\<lambda>i. im_deliver env g (sinks i)) [0..<workers]"

text \<open>\<open>sched\<close> is the interleaving of the threads; thread \<open>i\<close> has the clock \<open>i + 1\<close>.\<close>

definition insert_all_parallel ::
  "('i, 'd) import_env \<Rightarrow> indexer \<Rightarrow> ('e + append_vec) list \<Rightarrow> snapshot_kind \<Rightarrow> nat \<Rightarrow> (nat \<times> task) list \<Rightarrow>
    ('d, index_stats) db_op" where
  "insert_all_parallel env ix items kind requested sched d =
     (let workers = max requested 2; g = ci_group ix;
          cfg = worker_config_of kind (ci_snapshot_slot ix) (ci_hot_mints ix)
      in case run_workers env cfg workers sched
             (pool_new (\<lambda>i. sink_new (im_ops env) (im_gate env) g (im_clock env (i + 1)))) of
           (Inl e, p) \<Rightarrow> (Inl (''parallel ClickHouse worker failed: '' @ e), deliver_workers env g (pl_sinks p) workers d)
         | (Inr _, p) \<Rightarrow>
             sbind (finish_index env ix kind (pl_patches p) (pool_totals workers p) (sink_new (im_ops env) None g (im_clock env 0)))
               (\<lambda>marked. sreturn (index_stats_of (pl_progress p) (pool_totals workers p) kind (skipped_items items) marked))
               (deliver_workers env g (pl_sinks p) workers d))"

definition insert_all ::
  "('i, 'd) import_env \<Rightarrow> indexer \<Rightarrow> ('e + append_vec) list \<Rightarrow> snapshot_kind \<Rightarrow> nat \<Rightarrow> (nat \<times> task) list \<Rightarrow>
    ('d, index_stats) db_op" where
  "insert_all env ix items kind workers sched =
     (if 1 < workers then insert_all_parallel env ix items kind workers sched
      else insert_all_sequential env ix items kind)"


section \<open>What the server promises\<close>

locale importer =
  srv: clickhouse "im_db env" tables + lib: inserter "im_ops env" committed pending
  for env :: "('i, 'd) import_env" and tables :: "'d \<Rightarrow> tables"
    and committed :: "'i \<Rightarrow> row list" and pending :: "'i \<Rightarrow> row list" +
  assumes deliver_rows: "tables d (sink_table_name g t) = Some v \<Longrightarrow>
      tables (im_deliver env g s d) (sink_table_name g t) =
        Some (v\<lparr>tv_rows := tv_rows v @ committed (sk_inserter s t)\<rparr>)"
    and deliver_other: "(\<And>t. n \<noteq> sink_table_name g t) \<Longrightarrow> tables (im_deliver env g s d) n = tables d n"

lemma state_rows_append: "state_rows (v\<lparr>tv_rows := tv_rows v @ rs\<rparr>) =
    state_rows v @ List.map_filter (\<lambda>r. case r of RTokenAccount t \<Rightarrow> Some t | _ \<Rightarrow> None) rs"
  by (simp add: state_rows_def map_filter_append)

text \<open>The token account rows among a stream's rows.\<close>

definition token_rows :: "row list \<Rightarrow> token_account_row list" where
  "token_rows rs = List.map_filter (\<lambda>r. case r of RTokenAccount t \<Rightarrow> Some t | _ \<Rightarrow> None) rs"

lemma token_rows_append [simp]: "token_rows (xs @ ys) = token_rows xs @ token_rows ys" "token_rows [] = []"
  by (simp_all add: token_rows_def map_filter_append)

lemma mset_token_rows: "mset xs = mset ys \<Longrightarrow> mset (token_rows xs) = mset (token_rows ys)"
proof -
  have "mset (token_rows zs) = image_mset (\<lambda>r. case r of RTokenAccount t \<Rightarrow> t | _ \<Rightarrow> undefined)
      (filter_mset (\<lambda>r. case r of RTokenAccount t \<Rightarrow> True | _ \<Rightarrow> False) (mset zs))" for zs
    by (induction zs) (auto simp: token_rows_def split: row.split)
  then show "mset xs = mset ys \<Longrightarrow> mset (token_rows xs) = mset (token_rows ys)" by simp
qed

lemma sink_table_name_inj: "sink_table_name g t = sink_table_name g t' \<longleftrightarrow> t = t'"
  by (cases t; cases t') (simp_all add: group_table_def ACCOUNT_TABLE_def TOKEN_MINT_TABLE_def TOKEN_METADATA_TABLE_def)

section \<open>The pairs of the rows of an archive\<close>

lemma pairs_of_fold: "ws_pairs (fold stats_effect es st) = ws_pairs st \<union> {(m, v). EPair m v \<in> set es}"
proof (induction es arbitrary: st)
  case (Cons e es)
  then show ?case by (cases e) (auto simp: bump_def)
qed simp

definition pairs_covered :: "worker_effect list \<Rightarrow> bool" where
  "pairs_covered es \<longleftrightarrow> (\<forall>t r. ERow t r \<in> set es \<longrightarrow>
     (\<forall>ta. r = RTokenAccount ta \<longrightarrow> EPair (ta_mint ta) (ta_owner ta) \<in> set es))"

lemma pairs_covered_append: "pairs_covered xs \<Longrightarrow> pairs_covered ys \<Longrightarrow> pairs_covered (xs @ ys)"
  by (fastforce simp: pairs_covered_def)

lemma pairs_covered_simps [simp]:
  "pairs_covered []" "pairs_covered (ECount c # es) = pairs_covered es" "pairs_covered (EProgress q # es) = pairs_covered es"
  "pairs_covered (EClose k s # es) = pairs_covered es" "pairs_covered (EStep x # es) = pairs_covered es"
  "pairs_covered (ERow u (RAccount ar) # es) = pairs_covered es"
  "pairs_covered (ERow u (RTokenMint tm) # es) = pairs_covered es"
  by (auto simp: pairs_covered_def)

lemma token_account_pairs:
  "wc_collect_affected_pairs cfg \<Longrightarrow> pairs_covered (token_account_effects ext cfg slot a ta)"
  by (simp add: token_account_effects_def Let_def) (simp add: pairs_covered_def token_account_row_of_def)

lemma mint_row_pairs: "pairs_covered (mint_row_effects ext cfg a tm)"
  by (simp add: mint_row_effects_def)

lemma metadata_pairs: "pairs_covered (metadata_effects ext cfg md expected slot source acct)"
  by (simp add: metadata_effects_def)

lemma extension_pairs: "pairs_covered (extension_effects ext cfg slot a)"
  by (auto simp: extension_effects_def intro!: pairs_covered_append metadata_pairs split: sum.split option.split)

lemma close_pairs: "pairs_covered (close_effects ext cfg slot a)"
  by (simp add: close_effects_def)

lemma account_effects_pairs:
  assumes "wc_collect_affected_pairs cfg"
  shows "pairs_covered (account_effects ext cfg slot a)"
proof -
  note cover = pairs_covered_append token_account_pairs [OF assms] mint_row_pairs metadata_pairs extension_pairs close_pairs
  have "pairs_covered (spl_effects ext cfg slot a)"
    by (auto simp: spl_effects_def intro!: cover split: option.split)
  moreover have "pairs_covered (t22_effects ext cfg slot a)"
    by (auto simp: t22_effects_def Let_def intro!: cover split: option.split token_2022_base_state.split sum.split)
  moreover have "pairs_covered (metaplex_effects ext cfg slot a)"
    by (auto simp: metaplex_effects_def split: option.split)
  ultimately show ?thesis
    by (auto simp: account_effects_def intro!: cover)
qed

lemma all_effects_pairs:
  assumes "wc_collect_affected_pairs cfg"
  shows "pairs_covered (all_effects ext cfg ts)"
proof (induction ts)
  case (Cons t ts)
  have "pairs_covered (task_effects ext cfg t)" by (cases t) (simp_all add: account_effects_pairs [OF assms])
  then show ?case using Cons by (simp add: all_effects_def pairs_covered_append)
qed (simp add: all_effects_def)

lemma row_of_effect: "r \<in> set (rows_in t es) \<Longrightarrow> ERow t r \<in> set es"
proof (induction es)
  case (Cons e es)
  then show ?case by (cases e) (auto simp: rows_in_def split: if_splits)
qed simp

lemma in_token_rows: "ta \<in> set (token_rows rs) \<longleftrightarrow> RTokenAccount ta \<in> set rs"
proof (induction rs)
  case (Cons r rs)
  then show ?case by (cases r) (auto simp: token_rows_def)
qed (simp add: token_rows_def)

lemma token_rows_covered:
  assumes "pairs_covered es" "mset rs = mset (rows_in t es)" "ws_pairs st = {(m, v). EPair m v \<in> set es}"
  shows "row_pair ` set (token_rows rs) \<subseteq> ws_pairs st" "finite (ws_pairs st)"
proof -
  have same: "set rs = set (rows_in t es)" using assms(2) by (metis set_mset_mset)
  show "row_pair ` set (token_rows rs) \<subseteq> ws_pairs st"
  proof
    fix q assume "q \<in> row_pair ` set (token_rows rs)"
    then obtain ta where ta: "RTokenAccount ta \<in> set rs" "q = row_pair ta" by (auto simp: in_token_rows)
    then have "ERow t (RTokenAccount ta) \<in> set es" using same row_of_effect by blast
    then have "EPair (ta_mint ta) (ta_owner ta) \<in> set es" using assms(1) by (simp add: pairs_covered_def)
    then show "q \<in> ws_pairs st" using assms(3) ta(2) by (simp add: row_pair_def)
  qed
  have "{(m, v). EPair m v \<in> set es} \<subseteq> (\<lambda>e. case e of EPair m v \<Rightarrow> (m, v) | _ \<Rightarrow> undefined) ` set es"
    by (force simp: image_iff)
  then show "finite (ws_pairs st)" unfolding assms(3) by (rule finite_surj [OF finite_set])
qed


section \<open>Rows reach the tables\<close>

context importer
begin

abbreviation states :: "'d \<Rightarrow> string \<Rightarrow> token_account_row list" where
  "states d t \<equiv> rows_of state_rows (tables d) t"

abbreviation balances :: "'d \<Rightarrow> string \<Rightarrow> wallet_balance_row list" where
  "balances d t \<equiv> rows_of tv_balances (tables d) t"

lemma merged_rows_written:
  assumes "sthen (write_merged_metadata_patches (im_ops env) query patches preserve slot) (sink_end (im_ops env)) s = (Inr u, s')"
  shows "committed (sk_inserter s' TTokenAccount) = lib.taken s TTokenAccount \<and>
    committed (sk_inserter s' TAccount) = lib.taken s TAccount \<and>
    committed (sk_inserter s' TTokenMint) = lib.taken s TTokenMint \<and>
    (\<exists>rows. merged_metadata_rows query patches preserve slot = Inr rows \<and>
      committed (sk_inserter s' TTokenMetadata) = lib.taken s TTokenMetadata @ map RTokenMetadata rows)"
proof -
  obtain rows s1 where rows: "merged_metadata_rows query patches preserve slot = Inr rows"
    and s1: "sfor (write_token_metadata (im_ops env)) rows s = (Inr (), s1)" "sink_end (im_ops env) s1 = (Inr u, s')"
    using assms by (auto simp: op_success write_merged_metadata_patches_def split: sum.splits)
  let ?cs = "map (\<lambda>r. CWrite TTokenMetadata (RTokenMetadata r)) rows"
  have "sfor (run_sink_call (im_ops env)) ?cs s = (Inr (), s1)"
    using s1(1) by (simp add: sfor_map write_token_metadata_def [abs_def])
  note t = lib.sfor_calls(1) [OF this] and e = fun_cong [OF lib.sink_end_ok [OF s1(2)]]
  have c: "calls_to t ?cs = (if t = TTokenMetadata then map RTokenMetadata rows else [])" for t
    by (induction rows) (auto simp: calls_to_def)
  show ?thesis
    using e rows by (simp add: t c)
qed

lemma delivered_states:
  assumes "tables d (sink_table_name g TTokenAccount) = Some v"
  shows "states (im_deliver env g s d) (sink_table_name g TTokenAccount) =
      states d (sink_table_name g TTokenAccount) @ token_rows (committed (sk_inserter s TTokenAccount))"
    "\<exists>v'. tables (im_deliver env g s d) (sink_table_name g TTokenAccount) = Some v'"
  using assms deliver_rows [OF assms, of s]
  by (simp_all only: rows_of_def option.case state_rows_append token_rows_def) simp_all

lemma balance_table_no_sink: "group_table g ''hot_wallet_token_balance'' \<noteq> sink_table_name g t"
  by (cases t) (simp_all add: group_table_def ACCOUNT_TABLE_def TOKEN_MINT_TABLE_def TOKEN_METADATA_TABLE_def)

lemma delivered_balances:
  "balances (im_deliver env g s d) (group_table g ''hot_wallet_token_balance'') =
   balances d (group_table g ''hot_wallet_token_balance'')"
  unfolding rows_of_def by (simp add: deliver_other balance_table_no_sink)

lemma finish_index_incremental:
  assumes run: "finish_index env ix Incremental patches st sink d = (Inr marked, d')"
  defines "g \<equiv> ci_group ix"
  defines "tab \<equiv> group_table g ''hot_token_account_state''" and "bal \<equiv> group_table g ''hot_wallet_token_balance''"
  assumes tab: "tables d tab = Some v" and closed: "distinct (map fst (ws_closed st))" and fin: "finite (ws_pairs st)"
    and rows: "states d tab @ token_rows (lib.taken sink TTokenAccount) = old @ delta"
    and pairs: "row_pair ` set delta \<subseteq> ws_pairs st" and cons: "consistent (old @ delta)"
    and served: "\<forall>p. served_balance (balances d bal) p = true_balance old p"
    and slots: "\<forall>b \<in> set (balances d bal). wb_updated_slot b \<le> ci_snapshot_slot ix"
  shows "(\<forall>p. served_balance (balances d' bal) p = true_balance (states d' tab) p) \<and>
    (\<forall>b \<in> set (balances d' bal). wb_updated_slot b \<le> ci_snapshot_slot ix) \<and> consistent (states d' tab) \<and>
    states d' tab = old @ delta @ tombstones_of (old @ delta) (ws_closed st) (sort (map fst (ws_closed st))) \<and>
    marked = word_of_nat (length (tombstones_of (old @ delta) (ws_closed st) (sort (map fst (ws_closed st)))))"
proof -
  obtain u s' where s': "sthen (write_merged_metadata_patches (im_ops env) (im_metadata env d g) patches True (ci_snapshot_slot ix))
      (sink_end (im_ops env)) sink = (Inr u, s')"
    and fi: "finish_import (im_db env) (im_nonce env) g (ci_hot_mints ix) Incremental (ci_snapshot_slot ix)
      (ws_closed st) (ws_pairs st) (im_deliver env g s' d) = (Inr marked, d')"
    using run by (auto simp: finish_index_def g_def split: prod.splits sum.splits)
  let ?d = "im_deliver env g s' d"
  have st: "states ?d tab = old @ delta"
    using delivered_states(1) [of d g v s'] tab rows merged_rows_written [OF s'] by (simp add: tab_def)
  have b: "balances ?d bal = balances d bal" unfolding bal_def by (rule delivered_balances)
  show ?thesis
    using srv.finish_incremental_spec [OF fi closed fin, of old delta] cons pairs served slots
    unfolding tab_def [symmetric] bal_def [symmetric] st b append_assoc by blast
qed

end


section \<open>The scan of the sequential import\<close>

definition archive_effects :: "externals \<Rightarrow> worker_config \<Rightarrow> append_vec list \<Rightarrow> worker_effect list" where
  "archive_effects ext cfg avs = all_effects ext cfg (concat (map tasks_of avs))"

definition archive_rows :: "externals \<Rightarrow> worker_config \<Rightarrow> append_vec list \<Rightarrow> token_account_row list" where
  "archive_rows ext cfg avs = token_rows (rows_in TTokenAccount (archive_effects ext cfg avs))"

definition archive_candidates :: "externals \<Rightarrow> worker_config \<Rightarrow> append_vec list \<Rightarrow> string \<Rightarrow> u64 option" where
  "archive_candidates ext cfg avs = map_of (ws_closed (fold stats_effect (archive_effects ext cfg avs) stats_default))"

text \<open>The outcome of either scan, with the state of the server when it ends: the workers' rows are in the table or
  with the main sink.\<close>

definition scan_outcome ::
  "('d \<Rightarrow> tables) \<Rightarrow> (sink_table \<Rightarrow> row list) \<Rightarrow> worker_effect list \<Rightarrow> table_group \<Rightarrow> 'd \<Rightarrow> 'd \<Rightarrow> worker_stats \<Rightarrow> bool" where
  "scan_outcome tables taken es g d0 d st \<longleftrightarrow>
     (\<exists>delta v. tables d (group_table g ''hot_token_account_state'') = Some v \<and>
        rows_of state_rows (tables d) (group_table g ''hot_token_account_state'') @ token_rows (taken TTokenAccount) =
          rows_of state_rows (tables d0) (group_table g ''hot_token_account_state'') @ delta \<and>
        mset delta = mset (token_rows (rows_in TTokenAccount es))) \<and>
     rows_of tv_balances (tables d) (group_table g ''hot_wallet_token_balance'') =
       rows_of tv_balances (tables d0) (group_table g ''hot_wallet_token_balance'') \<and>
     distinct (map fst (ws_closed st)) \<and> stats_view st = stats_view (fold stats_effect es stats_default)"

lemma consistent_set: "set xs = set ys \<Longrightarrow> consistent xs \<longleftrightarrow> consistent ys"
  by (simp add: consistent_def)

context importer
begin

text \<open>What an incremental import promises, from the outcome of its scan.\<close>

lemma finish_index_outcome:
  assumes run: "finish_index env ix Incremental patches st sink d = (Inr marked, d')"
  defines "g \<equiv> ci_group ix"
  defines "tab \<equiv> group_table g ''hot_token_account_state''" and "bal \<equiv> group_table g ''hot_wallet_token_balance''"
  assumes scan: "scan_outcome tables (lib.taken sink) es g d0 d st"
    and covered: "pairs_covered es" and cons: "consistent (states d0 tab @ token_rows (rows_in TTokenAccount es))"
    and served: "\<forall>p. served_balance (balances d0 bal) p = true_balance (states d0 tab) p"
    and slots: "\<forall>b \<in> set (balances d0 bal). wb_updated_slot b \<le> ci_snapshot_slot ix"
  shows "(\<forall>p. served_balance (balances d' bal) p = true_balance (states d' tab) p) \<and>
    (\<forall>b \<in> set (balances d' bal). wb_updated_slot b \<le> ci_snapshot_slot ix) \<and> consistent (states d' tab) \<and>
    (\<exists>delta. mset delta = mset (token_rows (rows_in TTokenAccount es)) \<and>
      states d' tab = states d0 tab @ delta @ tombstones_of (states d0 tab @ delta) (ws_closed st) (sort (map fst (ws_closed st))) \<and>
      marked = word_of_nat (length (tombstones_of (states d0 tab @ delta) (ws_closed st) (sort (map fst (ws_closed st))))))"
proof -
  obtain delta v where v: "tables d tab = Some v"
    and delta: "states d tab @ token_rows (lib.taken sink TTokenAccount) = states d0 tab @ delta"
      "mset delta = mset (token_rows (rows_in TTokenAccount es))"
    and b: "balances d bal = balances d0 bal" and closed: "distinct (map fst (ws_closed st))"
    and view: "stats_view st = stats_view (fold stats_effect es stats_default)"
    using scan unfolding scan_outcome_def tab_def [symmetric] bal_def [symmetric] by blast
  have p: "ws_pairs st = {(m, v). EPair m v \<in> set es}"
    using view by (simp add: stats_view_def pairs_of_fold) (simp add: stats_default_def)
  note cover = token_rows_covered [OF covered refl p]
  have s: "set delta = set (token_rows (rows_in TTokenAccount es))" using delta(2) by (metis set_mset_mset)
  have "consistent (states d0 tab @ delta)" using cons consistent_set [of "states d0 tab @ delta" "states d0 tab @ token_rows (rows_in TTokenAccount es)"] s by simp
  note f = finish_index_incremental [OF run, folded g_def, folded tab_def bal_def, OF v closed cover(2) delta(1) _ this]
  show ?thesis using f cover(1) served slots delta(2) s unfolding b by blast
qed

lemma sequential_outcome:
  assumes scan: "scan_sequential (im_ops env) (im_ext env) cfg items 0
      (worker_new (sink_new (im_ops env) gate g clock) [] (\<lambda>_. 0)) = (Inr skipped, w)"
    and wf: "\<forall>av \<in> set (scanned items). av_wf av"
    and tab: "tables d (group_table g ''hot_token_account_state'') = Some v"
  shows "scan_outcome tables (lib.taken (wk_sink w)) (archive_effects (im_ext env) cfg (scanned items)) g d d (wk_stats w)"
proof -
  have "lib.effects_done (worker_new (sink_new (im_ops env) gate g clock) [] (\<lambda>_. 0))
      (archive_effects (im_ext env) cfg (scanned items)) w"
    using lib.scan_sequential_done [OF scan wf] by (simp add: archive_effects_def)
  then have e: "lib.taken (wk_sink w) = (\<lambda>t. rows_in t (archive_effects (im_ext env) cfg (scanned items)))"
    "wk_stats w = fold stats_effect (archive_effects (im_ext env) cfg (scanned items)) stats_default"
    by (simp_all add: lib.effects_done_def worker_new_def lib.taken_new)
  have "distinct (map fst (ws_closed (wk_stats w)))"
    unfolding e(2) by (rule distinct_closed_fold) (simp add: stats_default_def)
  then show ?thesis unfolding scan_outcome_def using tab e by simp
qed

end


section \<open>The scan of the parallel import\<close>

context importer
begin

lemma end_workers_ok:
  assumes "end_workers (im_ops env) is p = (Inr u, p')" "distinct is"
  shows "(\<forall>i \<in> set is. (\<lambda>t. committed (sk_inserter (pl_sinks p' i) t)) = lib.taken (pl_sinks p i)) \<and>
    (\<forall>i. i \<notin> set is \<longrightarrow> pl_sinks p' i = pl_sinks p i) \<and>
    pl_stats p' = pl_stats p \<and> pl_patches p' = pl_patches p \<and> pl_progress p' = pl_progress p"
  using assms
proof (induction "is" arbitrary: p)
  case (Cons i "is")
  obtain s where s: "sink_end (im_ops env) (pl_sinks p i) = (Inr (), s)"
    "end_workers (im_ops env) is (p\<lparr>pl_sinks := (pl_sinks p)(i := s)\<rparr>) = (Inr u, p')"
    using Cons.prems(1) by (auto simp: op_success split: prod.splits)
  have d: "distinct is" "i \<notin> set is" using Cons.prems(2) by simp_all
  note e = lib.sink_end_ok [OF s(1)]
  from Cons.IH [OF s(2) d(1)] d(2) e show ?case by (auto split: if_splits)
qed (simp add: sreturn_def)

lemma deliver_workers_states:
  assumes "tables d (sink_table_name g TTokenAccount) = Some v"
  shows "states (deliver_workers env g sinks n d) (sink_table_name g TTokenAccount) =
      states d (sink_table_name g TTokenAccount) @
        concat (map (\<lambda>i. token_rows (committed (sk_inserter (sinks i) TTokenAccount))) [0..<n]) \<and>
    (\<exists>v'. tables (deliver_workers env g sinks n d) (sink_table_name g TTokenAccount) = Some v') \<and>
    balances (deliver_workers env g sinks n d) (group_table g ''hot_wallet_token_balance'') =
      balances d (group_table g ''hot_wallet_token_balance'')"
proof (induction n)
  case 0
  then show ?case using assms by (simp add: deliver_workers_def)
next
  case (Suc n)
  then obtain v' where v': "tables (deliver_workers env g sinks n d) (sink_table_name g TTokenAccount) = Some v'"
    by blast
  have st: "deliver_workers env g sinks (Suc n) d = im_deliver env g (sinks n) (deliver_workers env g sinks n d)"
    by (simp add: deliver_workers_def)
  show ?case
    unfolding st using delivered_states [OF v', of "sinks n"] Suc delivered_balances [of g "sinks n"] by simp
qed

lemma token_rows_concat: "token_rows (concat rss) = concat (map token_rows rss)"
  by (induction rss) simp_all

lemma parallel_outcome:
  assumes run: "run_workers env cfg workers sched (pool_new (\<lambda>i. sink_new (im_ops env) gate g (clocks i))) = (Inr u, p)"
    and tab: "tables d (group_table g ''hot_token_account_state'') = Some v"
    and threads: "\<forall>(i, t) \<in> set sched. i < workers"
    and once: "mset (filter (\<lambda>t. t \<noteq> TaskFlush) (map snd sched)) = mset (concat (map tasks_of avs))"
  shows "scan_outcome tables (lib.taken (sink_new (im_ops env) gate' g clock)) (archive_effects (im_ext env) cfg avs) g d
    (deliver_workers env g (pl_sinks p) workers d) (pool_totals workers p)"
proof -
  let ?es = "archive_effects (im_ext env) cfg avs"
  let ?of = "\<lambda>i. effects_of (im_ext env) cfg i sched"
  obtain p1 where p1: "sfor (pool_step (im_ops env) (im_ext env) cfg) sched
      (pool_new (\<lambda>i. sink_new (im_ops env) gate g (clocks i))) = (Inr (), p1)"
    and ended: "end_workers (im_ops env) [0..<workers] p1 = (Inr u, p)"
    using run by (auto simp: run_workers_def op_success)
  note ran = lib.pool_done [OF p1] and e = end_workers_ok [OF ended distinct_upt]
  have taken: "lib.taken (pl_sinks p1 i) t = rows_in t (?of i)" for i t
    using ran by (simp add: pool_new_def lib.taken_new)
  have stats: "pl_stats p i = fold stats_effect (?of i) stats_default" for i
    using ran e by (simp add: pool_new_def)
  have whole: "mset (concat (map ?of [0..<workers])) = mset ?es"
    using effects_of_partition [OF threads] mset_all_effects [OF once] by (simp add: archive_effects_def)
  let ?delta = "concat (map (\<lambda>i. token_rows (committed (sk_inserter (pl_sinks p i) TTokenAccount))) [0..<workers])"
  have "committed (sk_inserter (pl_sinks p i) TTokenAccount) = rows_in TTokenAccount (?of i)" if "i < workers" for i
    using e taken [of i TTokenAccount] that by (metis atLeastLessThan_iff set_upt zero_le)
  then have "map (\<lambda>i. token_rows (committed (sk_inserter (pl_sinks p i) TTokenAccount))) [0..<workers] =
      map (\<lambda>i. token_rows (rows_in TTokenAccount (?of i))) [0..<workers]"
    by simp
  then have "?delta = token_rows (rows_in TTokenAccount (concat (map ?of [0..<workers])))"
    by (simp only: rows_in_concat token_rows_concat map_map o_def)
  moreover have "mset (rows_in TTokenAccount (concat (map ?of [0..<workers]))) = mset (rows_in TTokenAccount ?es)"
    by (simp only: mset_rows_in whole)
  ultimately have delta: "mset ?delta = mset (token_rows (rows_in TTokenAccount ?es))"
    using mset_token_rows [of "rows_in TTokenAccount (concat (map ?of [0..<workers]))"] by presburger
  have view: "stats_view (pool_totals workers p) = stats_view (fold stats_effect ?es stats_default)"
    using pool_totals_view [of p ?of workers] stats fold_view_perm [OF whole] by (simp add: stats_view_fold)
  have "distinct (map fst (ws_closed (pool_totals workers p)))"
    unfolding pool_totals_def
    by (induction workers) (simp_all add: stats_default_def stats_merge_def distinct_merge_max)
  then show ?thesis
    using deliver_workers_states [of d g v "pl_sinks p" workers] tab delta view
    unfolding scan_outcome_def by (auto simp: lib.taken_new)
qed

end


section \<open>Properties\<close>

lemma in_tombstones_of:
  "r \<in> set (tombstones_of rows closed (sort (map fst closed))) \<longleftrightarrow> (\<exists>k slot q. map_of closed k = Some slot \<and>
     latest ta_pubkey ta_updated_slot rows k = Some q \<and> ta_is_deleted q = 0 \<and> ta_mint q \<noteq> [] \<and>
     ta_owner q \<noteq> [] \<and> ta_updated_slot q < slot \<and> r = tombstone_row k q slot)"
proof -
  have "r \<in> set (tombstones_of rows closed (sort (map fst closed))) \<longleftrightarrow> (\<exists>k. tombstone_for rows closed k = Some r)"
    unfolding tombstones_of_def set_map_filter_iff
    by (auto simp: tombstone_for_def map_of_eq_None_iff [of closed] split: option.splits)
  moreover have "tombstone_for rows closed k = Some r \<longleftrightarrow> (\<exists>slot q. map_of closed k = Some slot \<and>
      latest ta_pubkey ta_updated_slot rows k = Some q \<and> ta_is_deleted q = 0 \<and> ta_mint q \<noteq> [] \<and>
      ta_owner q \<noteq> [] \<and> ta_updated_slot q < slot \<and> r = tombstone_row k q slot)" for k
    by (auto simp: tombstone_for_def split: option.split)
  ultimately show ?thesis by blast
qed

context importer
begin

lemma insert_all_scans:
  assumes run: "insert_all env ix items Incremental workers sched d = (Inr stats, d')"
    and wf: "\<forall>av \<in> set (scanned items). av_wf av"
    and threads: "1 < workers \<longrightarrow> (\<forall>(i, t) \<in> set sched. i < workers)"
    and once: "1 < workers \<longrightarrow>
      mset (filter (\<lambda>t. t \<noteq> TaskFlush) (map snd sched)) = mset (concat (map tasks_of (scanned items)))"
    and tab: "tables d (group_table (ci_group ix) ''hot_token_account_state'') = Some v"
  defines "cfg \<equiv> worker_config_of Incremental (ci_snapshot_slot ix) (ci_hot_mints ix)"
  shows "\<exists>patches st sink d1 marked. finish_index env ix Incremental patches st sink d1 = (Inr marked, d') \<and>
    ix_token_accounts_marked_deleted stats = marked \<and>
    scan_outcome tables (lib.taken sink) (archive_effects (im_ext env) cfg (scanned items)) (ci_group ix) d d1 st"
proof (cases "1 < workers")
  case True
  then have m: "max workers 2 = workers" by simp
  obtain u p marked where p: "run_workers env cfg workers sched
      (pool_new (\<lambda>i. sink_new (im_ops env) (im_gate env) (ci_group ix) (im_clock env (i + 1)))) = (Inr u, p)"
    "finish_index env ix Incremental (pl_patches p) (pool_totals workers p) (sink_new (im_ops env) None (ci_group ix) (im_clock env 0))
      (deliver_workers env (ci_group ix) (pl_sinks p) workers d) = (Inr marked, d')"
    "stats = index_stats_of (pl_progress p) (pool_totals workers p) Incremental (skipped_items items) marked"
    using run True m
    by (auto simp: insert_all_def insert_all_parallel_def Let_def cfg_def op_success sreturn_def split: prod.splits sum.splits)
  show ?thesis
    by (intro exI conjI, rule p(2), simp add: p(3) index_stats_of_def,
        rule parallel_outcome [OF p(1) tab mp [OF threads True] mp [OF once True]])
next
  case False
  obtain skipped w marked where w: "scan_sequential (im_ops env) (im_ext env) cfg items 0
      (worker_new (sink_new (im_ops env) None (ci_group ix) (im_clock env 0)) [] (\<lambda>_. 0)) = (Inr skipped, w)"
    "finish_index env ix Incremental (wk_patches w) (wk_stats w) (wk_sink w) d = (Inr marked, d')"
    "stats = index_stats_of (wk_progress w) (wk_stats w) Incremental skipped marked"
    using run False
    by (auto simp: insert_all_def insert_all_sequential_def cfg_def op_success sreturn_def split: prod.splits sum.splits)
  show ?thesis
    by (intro exI conjI, rule w(2), simp add: w(3) index_stats_of_def, rule sequential_outcome [OF w(1) wf tab])
qed

lemma insert_all_outcome:
  assumes run: "insert_all env ix items Incremental workers sched d = (Inr stats, d')"
    and wf: "\<forall>av \<in> set (scanned items). av_wf av"
    and threads: "1 < workers \<longrightarrow> (\<forall>(i, t) \<in> set sched. i < workers)"
    and once: "1 < workers \<longrightarrow>
      mset (filter (\<lambda>t. t \<noteq> TaskFlush) (map snd sched)) = mset (concat (map tasks_of (scanned items)))"
  defines "cfg \<equiv> worker_config_of Incremental (ci_snapshot_slot ix) (ci_hot_mints ix)"
    and "tab \<equiv> group_table (ci_group ix) ''hot_token_account_state''"
    and "bal \<equiv> group_table (ci_group ix) ''hot_wallet_token_balance''"
  assumes tab: "tables d tab \<noteq> None"
    and cons: "consistent (states d tab @ archive_rows (im_ext env) cfg (scanned items))"
    and served: "\<forall>p. served_balance (balances d bal) p = true_balance (states d tab) p"
    and slots: "\<forall>b \<in> set (balances d bal). wb_updated_slot b \<le> ci_snapshot_slot ix"
  shows "(\<forall>p. served_balance (balances d' bal) p = true_balance (states d' tab) p) \<and>
    (\<forall>b \<in> set (balances d' bal). wb_updated_slot b \<le> ci_snapshot_slot ix) \<and> consistent (states d' tab) \<and>
    (\<exists>closed delta. map_of closed = archive_candidates (im_ext env) cfg (scanned items) \<and>
      mset delta = mset (archive_rows (im_ext env) cfg (scanned items)) \<and>
      states d' tab = states d tab @ delta @ tombstones_of (states d tab @ delta) closed (sort (map fst closed)) \<and>
      ix_token_accounts_marked_deleted stats =
        word_of_nat (length (tombstones_of (states d tab @ delta) closed (sort (map fst closed)))))"
proof -
  obtain v where v: "tables d tab = Some v" using tab by blast
  note scans = insert_all_scans [OF run, OF wf threads, OF once v [unfolded tab_def]]
  obtain patches st sink d1 marked where
    f: "finish_index env ix Incremental patches st sink d1 = (Inr marked, d')" "ix_token_accounts_marked_deleted stats = marked"
    and scan: "scan_outcome tables (lib.taken sink) (archive_effects (im_ext env) cfg (scanned items)) (ci_group ix) d d1 st"
    using scans unfolding cfg_def by (elim exE conjE)
  have covered: "pairs_covered (archive_effects (im_ext env) cfg (scanned items))"
    unfolding archive_effects_def by (rule all_effects_pairs) (simp add: cfg_def worker_config_of_def)
  have cands: "map_of (ws_closed st) = archive_candidates (im_ext env) cfg (scanned items)"
    using scan by (simp add: scan_outcome_def stats_view_def archive_candidates_def)
  note r = finish_index_outcome [OF f(1) scan covered, folded tab_def bal_def, OF cons [unfolded archive_rows_def] served slots]
  obtain delta where delta: "mset delta = mset (archive_rows (im_ext env) cfg (scanned items))"
    "states d' tab = states d tab @ delta @ tombstones_of (states d tab @ delta) (ws_closed st) (sort (map fst (ws_closed st)))"
    "marked = word_of_nat (length (tombstones_of (states d tab @ delta) (ws_closed st) (sort (map fst (ws_closed st)))))"
    using conjunct2 [OF conjunct2 [OF conjunct2 [OF r]]] unfolding archive_rows_def by (elim exE conjE)
  show ?thesis
    by (rule conjI [OF conjunct1 [OF r] conjI [OF conjunct1 [OF conjunct2 [OF r]] conjI [OF conjunct1 [OF conjunct2 [OF conjunct2 [OF r]]]]]],
        intro exI conjI, rule cands, rule delta(1), rule delta(2)) (simp only: f(2) delta(3))
qed

end

text \<open>C3: A whole incremental import, sequential or parallel under any interleaving of its threads, keeps the balances
  true: when every pair was served its balance before and the token accounts of the table and the archive are
  consistent, then after a successful import every pair is served its balance over the table, which is the old
  table, the archive's rows of hot token accounts, each once, and one delete version for every close candidate of
  the archive that is live and older.\<close>

theorem import_balances:
  assumes lib: "importer env tables committed pending"
    and run: "insert_all env ix items Incremental workers sched d = (Inr stats, d')"
    and wf: "\<forall>av \<in> set (scanned items). av_wf av"
    and threads: "1 < workers \<longrightarrow> (\<forall>(i, t) \<in> set sched. i < workers)"
    and once: "1 < workers \<longrightarrow>
      mset (filter (\<lambda>t. t \<noteq> TaskFlush) (map snd sched)) = mset (concat (map tasks_of (scanned items)))"
    and tab: "tables d (group_table (ci_group ix) ''hot_token_account_state'') \<noteq> None"
    and consistent: "consistent (rows_of state_rows (tables d) (group_table (ci_group ix) ''hot_token_account_state'') @
      archive_rows (im_ext env) (worker_config_of Incremental (ci_snapshot_slot ix) (ci_hot_mints ix)) (scanned items))"
    and served: "\<forall>p. served_balance (rows_of tv_balances (tables d) (group_table (ci_group ix) ''hot_wallet_token_balance'')) p =
      true_balance (rows_of state_rows (tables d) (group_table (ci_group ix) ''hot_token_account_state'')) p"
    and slots: "\<forall>b \<in> set (rows_of tv_balances (tables d) (group_table (ci_group ix) ''hot_wallet_token_balance'')).
      wb_updated_slot b \<le> ci_snapshot_slot ix"
  shows "(\<forall>p. served_balance (rows_of tv_balances (tables d') (group_table (ci_group ix) ''hot_wallet_token_balance'')) p =
      true_balance (rows_of state_rows (tables d') (group_table (ci_group ix) ''hot_token_account_state'')) p) \<and>
    (\<exists>delta tombs. rows_of state_rows (tables d') (group_table (ci_group ix) ''hot_token_account_state'') =
        rows_of state_rows (tables d) (group_table (ci_group ix) ''hot_token_account_state'') @ delta @ tombs \<and>
      mset delta = mset (archive_rows (im_ext env)
        (worker_config_of Incremental (ci_snapshot_slot ix) (ci_hot_mints ix)) (scanned items)) \<and>
      ix_token_accounts_marked_deleted stats = word_of_nat (length tombs) \<and>
      (\<forall>r. r \<in> set tombs \<longleftrightarrow> (\<exists>k slot q. archive_candidates (im_ext env)
          (worker_config_of Incremental (ci_snapshot_slot ix) (ci_hot_mints ix)) (scanned items) k = Some slot \<and>
        latest ta_pubkey ta_updated_slot (rows_of state_rows (tables d)
          (group_table (ci_group ix) ''hot_token_account_state'') @ delta) k = Some q \<and>
        ta_is_deleted q = 0 \<and> ta_mint q \<noteq> [] \<and> ta_owner q \<noteq> [] \<and> ta_updated_slot q < slot \<and> r = tombstone_row k q slot)))"
proof -
  note r = importer.insert_all_outcome [OF lib run, OF wf threads, OF once tab, OF consistent served, OF slots]
  obtain closed delta where
    closed: "map_of closed = archive_candidates (im_ext env) (worker_config_of Incremental (ci_snapshot_slot ix) (ci_hot_mints ix)) (scanned items)"
    and delta: "mset delta = mset (archive_rows (im_ext env) (worker_config_of Incremental (ci_snapshot_slot ix) (ci_hot_mints ix)) (scanned items))"
    "rows_of state_rows (tables d') (group_table (ci_group ix) ''hot_token_account_state'') =
      rows_of state_rows (tables d) (group_table (ci_group ix) ''hot_token_account_state'') @ delta @
      tombstones_of (rows_of state_rows (tables d) (group_table (ci_group ix) ''hot_token_account_state'') @ delta)
        closed (sort (map fst closed))"
    "ix_token_accounts_marked_deleted stats = word_of_nat (length (tombstones_of (rows_of state_rows (tables d)
        (group_table (ci_group ix) ''hot_token_account_state'') @ delta) closed (sort (map fst closed))))"
    using conjunct2 [OF conjunct2 [OF conjunct2 [OF r]]] by (elim exE conjE)
  show ?thesis
    by (rule conjI [OF conjunct1 [OF r]], intro exI conjI, rule delta(2), rule delta(1))
      (simp_all add: delta(3) in_tombstones_of closed)
qed


section \<open>The server in memory\<close>

definition memory_deliver :: "table_group \<Rightarrow> buffered sink \<Rightarrow> memory_server \<Rightarrow> memory_server" where
  "memory_deliver g s d = d\<lparr>ms_tables := (\<lambda>n. map_option (\<lambda>v. v\<lparr>tv_rows := tv_rows v @
     concat (map (\<lambda>t. if sink_table_name g t = n then bf_committed (sk_inserter s t) else []) sink_tables)\<rparr>) (ms_tables d n))\<rparr>"

definition memory_env :: "externals \<Rightarrow> (buffered, memory_server) import_env" where
  "memory_env ext = \<lparr>im_ops = buffered_ops, im_db = memory_db, im_ext = ext,
     im_metadata = (\<lambda>d g mints. Inr (filter (\<lambda>r. md_mint r \<in> set mints)
       (final_rows md_mint md_updated_slot (rows_of metadata_rows (ms_tables d) (sink_table_name g TTokenMetadata))))),
     im_deliver = memory_deliver, im_nonce = ''1_1'', im_clock = (\<lambda>_ n. n), im_gate = Some False\<rparr>"

lemma memory_deliver_rows:
  "ms_tables d (sink_table_name g t) = Some v \<Longrightarrow>
   ms_tables (memory_deliver g s d) (sink_table_name g t) = Some (v\<lparr>tv_rows := tv_rows v @ bf_committed (sk_inserter s t)\<rparr>)"
  by (cases t) (simp_all add: memory_deliver_def sink_table_name_inj sink_tables_def del: sink_table_name.simps)

lemma memory_deliver_other:
  assumes "\<And>t. n \<noteq> sink_table_name g t"
  shows "ms_tables (memory_deliver g s d) n = ms_tables d n"
  using assms [of TAccount] assms [of TTokenAccount] assms [of TTokenMint] assms [of TTokenMetadata]
  by (cases "ms_tables d n") (simp_all add: memory_deliver_def sink_tables_def not_sym del: sink_table_name.simps)

interpretation memory_importer: importer "memory_env ext" ms_tables bf_committed bf_pending for ext
  using memory.clickhouse_axioms buffered.inserter_axioms memory_deliver_rows memory_deliver_other
  by (simp add: importer_def importer_axioms_def memory_env_def)


section \<open>Witness\<close>

definition import_state_row :: "string \<Rightarrow> token_account_row" where
  "import_state_row k = \<lparr>ta_pubkey = k, ta_mint = ''m'', ta_owner = ''w'', ta_amount = 5, ta_delegate = None,
     ta_delegated_amount = 0, ta_state = 1, ta_close_authority = None, ta_is_deleted = 0, ta_updated_slot = 3\<rparr>"

definition import_server :: "string \<Rightarrow> memory_server" where
  "import_server k = \<lparr>ms_tables = (\<lambda>n. Some \<lparr>tv_uuid = n,
       tv_rows = (if n = ''hot_token_account_state'' then [RTokenAccount (import_state_row k)] else []),
       tv_balances = (if n = ''hot_wallet_token_balance''
         then [\<lparr>wb_mint = ''m'', wb_owner = ''w'', wb_amount_raw = 5, wb_updated_slot = 3\<rparr>] else []), tv_infos = []\<rparr>),
     ms_requests = 0, ms_fault = (\<lambda>_. Fine), ms_hot_mints = [''m'']\<rparr>"

definition import_indexer :: indexer where
  "import_indexer = \<lparr>ci_group = Active, ci_hot_mints = {''m''}, ci_snapshot_slot = 9\<rparr>"

definition empty_account :: stored_account_meta where
  "empty_account = hd (accounts_spec (replicate 136 0) 136 0)"

lemma sample_scan_accounts: "accounts_spec (replicate 136 0) 136 0 = [empty_account] \<and>
    data_len (meta empty_account) = 0 \<and> lamports (account_meta empty_account) = 0 \<and>
    am_owner (account_meta empty_account) = replicate 32 0 \<and> \<not> executable (account_meta empty_account) \<and>
    sm_pubkey (meta empty_account) = replicate 32 0"
  unfolding empty_account_def by code_simp


lemma sample_archive_effects: "archive_effects sample_externals (worker_config_of Incremental 9 {''m''}) [sample_scan_av] =
    [ECount AppendVecsTotal,
     ERow TAccount (RAccount (account_row_of sample_externals 9 empty_account)),
     EClose (bytes_string (replicate 32 0)) 9, EProgress ProgressAccounts]"
proof -
  have "append_vec_accounts sample_scan_av = Some (Done [empty_account])"
    using append_vec_accounts_total [OF sample_scan_av_wf] sample_scan_accounts by (simp add: sample_scan_av_def)
  then have t: "tasks_of sample_scan_av = [TaskBegin, TaskAccount 9 empty_account]"
    by (simp add: tasks_of_def sample_scan_av_def)
  show ?thesis
    using sample_scan_accounts
    by (simp add: archive_effects_def all_effects_def t account_effects_def close_effects_def is_canonical_empty_account_def
        worker_config_of_def default_pubkey_def sample_externals_def account_pubkey_def)
qed

lemma sample_finish:
  assumes "ms_fault d = (\<lambda>_. Fine)" "ms_tables d ''hot_token_account_state'' = Some v"
    "tv_rows v = [RTokenAccount (import_state_row k)]" "ms_tables d ''hot_wallet_token_balance'' = Some b"
  shows "\<exists>d'. finish_import memory_db nonce Active {''m''} Incremental 9 [(k, 9)] {} d = (Inr 1, d') \<and>
    ms_fault d' = (\<lambda>_. Fine) \<and> ms_tables d' ''hot_token_account_state'' \<noteq> None"
  using assms
  by (simp add: finish_import_def memory_run tombstone_run refresh_hot_indexes_def import_state_row_def
      refresh_wallet_balance_incremental_def mem_aggregate_def is_live_def)


lemma sink_end_buffered: "gate_open s \<Longrightarrow> \<exists>s'. sink_end buffered_ops s = (Inr (), s')"
  by (simp add: gate_open_def sink_end_def sink_tables_def sink_end_one_def end_with_gate_def acquire_insert_permit_def buffered_ops_def
      sthen_def sbind_def sreturn_def split: prod.splits)


lemma sample_tables_of_server:
  "ms_tables (import_server k) ''hot_token_account_state'' =
     Some \<lparr>tv_uuid = ''hot_token_account_state'', tv_rows = [RTokenAccount (import_state_row k)], tv_balances = [], tv_infos = []\<rparr>"
  "ms_tables (import_server k) ''hot_wallet_token_balance'' = Some \<lparr>tv_uuid = ''hot_wallet_token_balance'', tv_rows = [],
     tv_balances = [\<lparr>wb_mint = ''m'', wb_owner = ''w'', wb_amount_raw = 5, wb_updated_slot = 3\<rparr>], tv_infos = []\<rparr>"
  by (simp_all add: import_server_def)

lemma sample_hypotheses:
  "consistent (rows_of state_rows (ms_tables (import_server k)) ''hot_token_account_state'')"
  "served_balance (rows_of tv_balances (ms_tables (import_server k)) ''hot_wallet_token_balance'') p =
     true_balance (rows_of state_rows (ms_tables (import_server k)) ''hot_token_account_state'') p"
  "\<forall>b \<in> set (rows_of tv_balances (ms_tables (import_server k)) ''hot_wallet_token_balance''). wb_updated_slot b \<le> 9"
  by (auto simp: rows_of_def sample_tables_of_server state_rows_def consistent_def served_balance_def true_balance_def
      final_rows_def import_state_row_def group_sum_def is_live_def row_pair_def)

lemma sample_import_runs_whole:
  "\<exists>stats d'. insert_all (memory_env sample_externals) import_indexer [Inr sample_scan_av, Inl ()] Incremental 1 []
     (import_server (bytes_string (replicate 32 0))) = (Inr stats, d') \<and> ix_token_accounts_marked_deleted stats = 1 \<and>
     ms_fault d' = (\<lambda>_. Fine) \<and> ms_tables d' ''hot_token_account_state'' \<noteq> None"
proof -
  let ?k = "bytes_string (replicate 32 0)" and ?cfg = "worker_config_of Incremental 9 {''m''}"
  let ?items = "[Inr sample_scan_av, Inl ()]"
  let ?init = "worker_new (sink_new buffered_ops None Active (\<lambda>n. n)) [] (\<lambda>_. 0)"
  have sc: "scanned ?items = [sample_scan_av]" by (simp add: scanned_def)
  then have wf: "\<forall>av \<in> set (scanned ?items). av_wf av" using sample_scan_av_wf by simp
  have "gate_open (wk_sink ?init)" by (simp add: gate_open_def worker_new_def sink_new_def)
  then obtain n w where w: "scan_sequential buffered_ops sample_externals ?cfg ?items 0 ?init = (Inr n, w)"
    and g: "gate_open (wk_sink w)"
    using scan_sequential_succeeds [OF buffered_never_fails wf] unfolding succeeds_def by blast
  have "buffered.effects_done ?init (archive_effects sample_externals ?cfg [sample_scan_av]) w"
    using buffered.scan_sequential_done [OF w wf] by (simp add: archive_effects_def sc)
  then have e: "buffered.taken (wk_sink w) TTokenAccount = []" "wk_patches w = []" "ws_closed (wk_stats w) = [(?k, 9)]"
      "ws_pairs (wk_stats w) = {}"
    by (simp_all add: buffered.effects_done_def sample_archive_effects worker_new_def buffered.taken_new rows_in_def steps_in_def
        bump_def stats_default_def upsert_max_def)
  obtain s where s: "sink_end buffered_ops (wk_sink w) = (Inr (), s)" using sink_end_buffered [OF g] by blast
  have "bf_committed (sk_inserter s TTokenAccount) = []" using fun_cong [OF buffered.sink_end_ok [OF s], of TTokenAccount] e(1) by simp
  then have t: "ms_tables (memory_deliver Active s (import_server ?k)) ''hot_token_account_state'' =
      ms_tables (import_server ?k) ''hot_token_account_state''"
    "ms_tables (memory_deliver Active s (import_server ?k)) ''hot_wallet_token_balance'' =
      ms_tables (import_server ?k) ''hot_wallet_token_balance''"
    using memory_deliver_rows [of "import_server ?k" Active TTokenAccount _ s] 
      memory_deliver_other [of "''hot_wallet_token_balance''" Active s] memory_importer.balance_table_no_sink [of Active]
    by (simp_all add: sample_tables_of_server group_table_def)
  obtain d' where f: "finish_import memory_db ''1_1'' Active {''m''} Incremental 9 [(?k, 9)] {} (memory_deliver Active s (import_server ?k)) =
      (Inr 1, d')" "ms_fault d' = (\<lambda>_. Fine)" "ms_tables d' ''hot_token_account_state'' \<noteq> None"
  proof -
    have "ms_fault (memory_deliver Active s (import_server ?k)) = (\<lambda>_. Fine)" by (simp add: memory_deliver_def import_server_def)
    from sample_finish [OF this t(1) [unfolded sample_tables_of_server] table_view.select_convs(2) t(2) [unfolded sample_tables_of_server]]
    show thesis using that by blast
  qed
  then have d': "finish_index (memory_env sample_externals) import_indexer Incremental (wk_patches w) (wk_stats w) (wk_sink w)
      (import_server ?k) = (Inr 1, d')"
    using s by (simp add: finish_index_def memory_env_def import_indexer_def write_merged_metadata_patches_def e
        merged_metadata_rows_def sthen_def sbind_def sreturn_def)
  have env: "im_ops (memory_env sample_externals) = buffered_ops" "im_ext (memory_env sample_externals) = sample_externals"
    "im_clock (memory_env sample_externals) 0 = (\<lambda>n. n)" "ci_group import_indexer = Active"
    "ci_hot_mints import_indexer = {''m''}" "ci_snapshot_slot import_indexer = 9"
    by (simp_all add: memory_env_def import_indexer_def)
  show ?thesis
    using f(2,3) by (simp add: insert_all_def insert_all_sequential_def env w d' sbind_def sreturn_def index_stats_of_def
        del: scan_sequential.simps)
qed


lemma import_balances_witness:
  "\<exists>stats d' delta tombs. insert_all (memory_env sample_externals) import_indexer [Inr sample_scan_av, Inl ()] Incremental 1 []
     (import_server (bytes_string (replicate 32 0))) = (Inr stats, d') \<and>
    (\<forall>p. served_balance (rows_of tv_balances (ms_tables d') ''hot_wallet_token_balance'') p =
      true_balance (rows_of state_rows (ms_tables d') ''hot_token_account_state'') p) \<and>
    rows_of state_rows (ms_tables d') ''hot_token_account_state'' =
      rows_of state_rows (ms_tables (import_server (bytes_string (replicate 32 0)))) ''hot_token_account_state'' @ delta @ tombs \<and>
    delta = [] \<and> (1 :: u64) = word_of_nat (length tombs)"
proof -
  let ?k = "bytes_string (replicate 32 0)" and ?items = "[Inr sample_scan_av, Inl ()]"
  obtain stats d' where run: "insert_all (memory_env sample_externals) import_indexer ?items Incremental 1 []
      (import_server ?k) = (Inr stats, d')" and one: "ix_token_accounts_marked_deleted stats = 1"
    using sample_import_runs_whole by (elim exE conjE)
  have sc: "scanned ?items = [sample_scan_av]" by (simp add: scanned_def)
  have ix: "ci_group import_indexer = Active" "ci_hot_mints import_indexer = {''m''}" "ci_snapshot_slot import_indexer = 9"
    "im_ext (memory_env sample_externals) = sample_externals"
    by (simp_all add: import_indexer_def memory_env_def)
  have none: "archive_rows sample_externals (worker_config_of Incremental 9 {''m''}) [sample_scan_av] = []"
    by (simp add: archive_rows_def sample_archive_effects rows_in_def)
  have g: "group_table Active t = t" for t by (simp add: group_table_def)
  note T = import_balances [OF memory_importer.importer_axioms run]
  have "(\<forall>p. served_balance (rows_of tv_balances (ms_tables d') ''hot_wallet_token_balance'') p =
      true_balance (rows_of state_rows (ms_tables d') ''hot_token_account_state'') p) \<and>
    (\<exists>delta tombs. rows_of state_rows (ms_tables d') ''hot_token_account_state'' =
      rows_of state_rows (ms_tables (import_server ?k)) ''hot_token_account_state'' @ delta @ tombs \<and>
      mset delta = mset [] \<and> (1 :: u64) = word_of_nat (length tombs))"
    using T [unfolded ix sc none g append_Nil2 one] sample_hypotheses [of ?k] sample_scan_av_wf
    by (simp add: sample_tables_of_server) blast
  then show ?thesis using run by auto
qed

end
