(* ===== verification/Close_Repair.thy ===== *)
theory Close_Repair
  imports Import
begin

text \<open>
  \<^verbatim>\<open>mark_close_tombstones\<close>, which repairs the delete versions of an archive that has been imported already, and
  what is left behind by an import that is interrupted between its delete versions and its balances.
\<close>

section \<open>The scan\<close>

record close_scan =
  cs_closed :: "(string \<times> u64) list"
  cs_skipped :: u64
  cs_append_vecs :: u64
  cs_canonical_empty :: u64

record close_tombstone_stats =
  ct_append_vecs_total :: u64
  ct_skipped_append_vecs :: u64
  ct_canonical_empty_accounts :: u64
  ct_token_accounts_marked_deleted :: u64

definition close_account :: "externals \<Rightarrow> u64 \<Rightarrow> stored_account_meta \<Rightarrow> close_scan \<Rightarrow> close_scan" where
  "close_account ext slot a s =
     (if is_canonical_empty_account (data_len (meta a)) (lamports (account_meta a)) (am_owner (account_meta a))
           (executable (account_meta a))
      then s\<lparr>cs_canonical_empty := cs_canonical_empty s + 1,
             cs_closed := remember_close_candidate ext a slot (cs_closed s)\<rparr>
      else s)"

fun scan_closed :: "externals \<Rightarrow> ('e + append_vec) list \<Rightarrow> close_scan \<Rightarrow> string + close_scan" where
  "scan_closed ext [] s = Inr s"
| "scan_closed ext (Inl _ # items) s = scan_closed ext items (s\<lparr>cs_skipped := cs_skipped s + 1\<rparr>)"
| "scan_closed ext (Inr av # items) s =
     (case append_vec_accounts av of
        Some (Done as) \<Rightarrow> scan_closed ext items
          (fold (close_account ext (av_slot av)) as (s\<lparr>cs_append_vecs := cs_append_vecs s + 1\<rparr>))
      | _ \<Rightarrow> Inl ''append vec iteration does not return'')"

definition mark_close_tombstones ::
  "('i, 'd) import_env \<Rightarrow> indexer \<Rightarrow> ('e + append_vec) list \<Rightarrow> ('d, close_tombstone_stats) db_op" where
  "mark_close_tombstones env ix items d =
     (case scan_closed (im_ext env) items \<lparr>cs_closed = [], cs_skipped = 0, cs_append_vecs = 0, cs_canonical_empty = 0\<rparr> of
        Inl e \<Rightarrow> (Inl e, d)
      | Inr s \<Rightarrow>
          sbind (write_close_token_account_tombstones (im_db env) (ci_group ix) (cs_closed s)) (\<lambda>(marked_deleted, pairs).
          sthen (swhen (0 < marked_deleted)
                   (refresh_hot_indexes (im_db env) (im_nonce env) (ci_group ix) (ci_hot_mints ix) Incremental
                      (ci_snapshot_slot ix) pairs False))
            (sreturn \<lparr>ct_append_vecs_total = cs_append_vecs s, ct_skipped_append_vecs = cs_skipped s,
               ct_canonical_empty_accounts = cs_canonical_empty s, ct_token_accounts_marked_deleted = marked_deleted\<rparr>)) d)"

section \<open>Candidates of the two scans\<close>

definition bounded_by :: "('k \<Rightarrow> u64 option) \<Rightarrow> ('k \<Rightarrow> u64 option) \<Rightarrow> bool" where
  "bounded_by f g \<longleftrightarrow> (\<forall>k s. f k = Some s \<longrightarrow> (\<exists>s'. g k = Some s' \<and> s \<le> s'))"

lemma closed_mono: "map_of (ws_closed st) k = Some s \<Longrightarrow>
    \<exists>s'. map_of (ws_closed (fold stats_effect es st)) k = Some s' \<and> s \<le> s'"
proof (induction es arbitrary: st s)
  case (Cons e es)
  have "\<exists>s'. map_of (ws_closed (stats_effect e st)) k = Some s' \<and> s \<le> s'"
    using Cons.prems by (cases e) (auto simp: bump_def map_of_upsert_max)
  then obtain s1 where s1: "map_of (ws_closed (stats_effect e st)) k = Some s1" "s \<le> s1" by blast
  from Cons.IH [OF s1(1)] s1(2) show ?case by fastforce
qed auto

lemma close_effect_recorded:
  assumes "EClose k s \<in> set es"
  shows "\<exists>s'. map_of (ws_closed (fold stats_effect es st)) k = Some s' \<and> s \<le> s'"
  using assms
proof (induction es arbitrary: st)
  case (Cons e es)
  show ?case
  proof (cases "e = EClose k s")
    case True
    have "\<exists>s1. map_of (ws_closed (stats_effect e st)) k = Some s1 \<and> s \<le> s1"
      by (cases "map_of (ws_closed st) k") (auto simp: True map_of_upsert_max)
    then obtain s1 where s1: "map_of (ws_closed (stats_effect e st)) k = Some s1" "s \<le> s1" by blast
    from closed_mono [OF s1(1), of es] s1(2) show ?thesis by fastforce
  next
    case False
    then show ?thesis using Cons by simp
  qed
qed simp

lemma close_account_closed:
  assumes "map_of (cs_closed (close_account ext slot a s)) k = Some v"
  shows "map_of (cs_closed s) k = Some v \<or>
    (k = account_pubkey ext a \<and> v = slot \<and> is_canonical_empty_account (data_len (meta a)) (lamports (account_meta a))
      (am_owner (account_meta a)) (executable (account_meta a)))"
  using assms
  by (cases "map_of (cs_closed s) k")
    (auto simp: close_account_def remember_close_candidate_def map_of_upsert_max max_def split: if_splits)

lemma close_accounts_bounded:
  assumes "\<forall>a \<in> set as. \<forall>e \<in> set (account_effects ext cfg slot a). e \<in> E" "wc_collect_close_tombstones cfg"
    and "\<forall>k v. map_of (cs_closed s) k = Some v \<longrightarrow> EClose k v \<in> E" "distinct (map fst (cs_closed s))"
  shows "(\<forall>k v. map_of (cs_closed (fold (close_account ext slot) as s)) k = Some v \<longrightarrow> EClose k v \<in> E) \<and>
    distinct (map fst (cs_closed (fold (close_account ext slot) as s)))"
  using assms(1,3,4)
proof (induction as arbitrary: s)
  case (Cons a as)
  have "EClose k v \<in> E" if "map_of (cs_closed (close_account ext slot a s)) k = Some v" for k v
    using close_account_closed [OF that]
  proof
    assume c: "k = account_pubkey ext a \<and> v = slot \<and> is_canonical_empty_account (data_len (meta a)) (lamports (account_meta a))
      (am_owner (account_meta a)) (executable (account_meta a))"
    then have "EClose k v \<in> set (account_effects ext cfg slot a)"
      using assms(2) by (simp add: account_effects_def close_effects_def is_canonical_empty_account_def)
    then show ?thesis using Cons.prems(1) by simp
  qed (use Cons.prems(2) in blast)
  moreover have "distinct (map fst (cs_closed (close_account ext slot a s)))"
    using Cons.prems(3) by (simp add: close_account_def remember_close_candidate_def distinct_upsert_max)
  ultimately show ?case using Cons.IH [of "close_account ext slot a s"] Cons.prems(1) by simp
qed simp

lemma scan_closed_bounded:
  assumes "scan_closed ext items s = Inr s'" "wc_collect_close_tombstones cfg"
    and "set (archive_effects ext cfg (scanned items)) \<subseteq> E"
    and "\<forall>k v. map_of (cs_closed s) k = Some v \<longrightarrow> EClose k v \<in> E" "distinct (map fst (cs_closed s))"
  shows "(\<forall>k v. map_of (cs_closed s') k = Some v \<longrightarrow> EClose k v \<in> E) \<and> distinct (map fst (cs_closed s'))"
  using assms(1,3,4,5)
proof (induction ext items s rule: scan_closed.induct)
  case (1 ext s)
  then show ?case by simp
next
  case (2 ext e items s)
  then show ?case by (simp add: scanned_def)
next
  case (3 ext av items s)
  obtain as where as: "append_vec_accounts av = Some (Done as)"
    using "3.prems"(1) by (auto split: option.splits outcome.splits)
  have sc: "archive_effects ext cfg (scanned (Inr av # items)) =
      all_effects ext cfg (tasks_of av) @ archive_effects ext cfg (scanned items)"
    by (simp add: archive_effects_def scanned_def all_effects_def)
  have e: "\<forall>a \<in> set as. \<forall>e \<in> set (account_effects ext cfg (av_slot av) a). e \<in> E"
    using "3.prems"(2) by (auto simp: sc tasks_of_def as all_effects_def)
  show ?case
    using "3.IH" [OF as refl] "3.prems" close_accounts_bounded [OF e assms(2), of "s\<lparr>cs_append_vecs := cs_append_vecs s + 1\<rparr>"]
    by (simp add: as sc)
qed

lemma repair_candidates:
  assumes "scan_closed ext items \<lparr>cs_closed = [], cs_skipped = 0, cs_append_vecs = 0, cs_canonical_empty = 0\<rparr> = Inr s"
    and "wc_collect_close_tombstones cfg"
  shows "bounded_by (map_of (cs_closed s)) (archive_candidates ext cfg (scanned items))" "distinct (map fst (cs_closed s))"
  using scan_closed_bounded [OF assms subset_refl] close_effect_recorded [where st = stats_default]
  by (auto simp: bounded_by_def archive_candidates_def)

section \<open>No account is deleted twice\<close>

lemma no_tombstones_again:
  assumes "consistent rows" "set again \<subseteq> set rows" "bounded_by (map_of closed') (map_of closed)"
  shows "tombstones_of (rows @ tombstones_of rows closed (sort (map fst closed)) @ again) closed' ks = []"
proof -
  let ?tombs = "tombstones_of rows closed (sort (map fst closed))"
  have "tombstone_for (rows @ ?tombs @ again) closed' k = None" for k
  proof (rule ccontr)
    assume "tombstone_for (rows @ ?tombs @ again) closed' k \<noteq> None"
    then obtain s q where s: "map_of closed' k = Some s"
      and q: "latest ta_pubkey ta_updated_slot (rows @ ?tombs @ again) k = Some q" "ta_is_deleted q = 0" "ta_mint q \<noteq> []"
        "ta_owner q \<noteq> []" "ta_updated_slot q < s"
      by (auto simp: tombstone_for_def split: option.splits if_splits)
    obtain s' where s': "map_of closed k = Some s'" "s \<le> s'" using assms(3) s by (auto simp: bounded_by_def)
    note l = latest_SomeD [OF q(1)]
    have "q \<notin> set ?tombs" 
    proof
      assume "q \<in> set ?tombs"
      then obtain k0 slot p where "q = tombstone_row k0 p slot" unfolding in_tombstones_of by blast
      then show False using q(2) by (simp add: tombstone_row_def)
    qed
    then have qr: "q \<in> set rows" using l assms(2) by auto
    obtain q0 where q0: "latest ta_pubkey ta_updated_slot rows k = Some q0" "q0 \<in> set rows" "ta_pubkey q0 = k"
      "ta_updated_slot q \<le> ta_updated_slot q0"
      using latest_exists [OF qr, of ta_pubkey ta_updated_slot] l by auto
    have "ta_updated_slot q0 = ta_updated_slot q" using l q0 by (simp add: order_antisym)
    then have "q0 = q" using consistentD(2) [OF assms(1) q0(2) qr] q0(3) l by simp
    then have t: "tombstone_row k q s' \<in> set ?tombs"
      unfolding in_tombstones_of using s'(1) q(2-4) q0(1) order.strict_trans2 [OF q(5) s'(2)] by blast
    then have "tombstone_row k q s' \<in> set (rows @ ?tombs @ again)" by simp
    moreover have "ta_pubkey (tombstone_row k q s') = k" by (simp add: tombstone_row_def)
    ultimately have "ta_updated_slot (tombstone_row k q s') \<le> ta_updated_slot q" using l by blast
    then show False using q(5) s'(2) by (simp add: tombstone_row_def)
  qed
  then show ?thesis by (simp add: tombstones_of_def map_filter_def)
qed


context importer
begin

lemma write_tombstones_again:
  assumes run: "write_close_token_account_tombstones (im_db env) g closed' d = (Inr (marked, pairs), d')"
    and rows: "states d (group_table g ''hot_token_account_state'') =
      rows @ tombstones_of rows closed (sort (map fst closed)) @ again"
    and "consistent rows" "set again \<subseteq> set rows" "bounded_by (map_of closed') (map_of closed)" "distinct (map fst closed')"
  shows "marked = 0 \<and> pairs = {} \<and>
    states d' (group_table g ''hot_token_account_state'') = states d (group_table g ''hot_token_account_state'') \<and>
    only_at (group_table g ''hot_token_account_state'') (tables d) (tables d')"
  using srv.write_tombstones_spec [OF run assms(6)] unfolding rows no_tombstones_again [OF assms(3,4,5)] by simp

lemma repair_writes_nothing:
  assumes run: "insert_all env ix items Incremental workers sched d = (Inr stats, d1)"
    and wf: "\<forall>av \<in> set (scanned items). av_wf av"
    and threads: "1 < workers \<longrightarrow> (\<forall>(i, t) \<in> set sched. i < workers)"
    and once: "1 < workers \<longrightarrow>
      mset (filter (\<lambda>t. t \<noteq> TaskFlush) (map snd sched)) = mset (concat (map tasks_of (scanned items)))"
    and tab: "tables d (group_table (ci_group ix) ''hot_token_account_state'') \<noteq> None"
    and consistent: "consistent (states d (group_table (ci_group ix) ''hot_token_account_state'') @
      archive_rows (im_ext env) (worker_config_of Incremental (ci_snapshot_slot ix) (ci_hot_mints ix)) (scanned items))"
    and served: "\<forall>p. served_balance (balances d (group_table (ci_group ix) ''hot_wallet_token_balance'')) p =
      true_balance (states d (group_table (ci_group ix) ''hot_token_account_state'')) p"
    and slots: "\<forall>b \<in> set (balances d (group_table (ci_group ix) ''hot_wallet_token_balance'')).
      wb_updated_slot b \<le> ci_snapshot_slot ix"
    and scan: "scan_closed (im_ext env) items
      \<lparr>cs_closed = [], cs_skipped = 0, cs_append_vecs = 0, cs_canonical_empty = 0\<rparr> = Inr s"
    and wr: "write_close_token_account_tombstones (im_db env) (ci_group ix) (cs_closed s) d1 = (Inr (marked, pairs), d3)"
  shows "marked = 0 \<and> pairs = {} \<and>
    states d3 (group_table (ci_group ix) ''hot_token_account_state'') = states d1 (group_table (ci_group ix) ''hot_token_account_state'') \<and>
    only_at (group_table (ci_group ix) ''hot_token_account_state'') (tables d1) (tables d3)"
proof -
  let ?cfg = "worker_config_of Incremental (ci_snapshot_slot ix) (ci_hot_mints ix)"
  let ?tab = "group_table (ci_group ix) ''hot_token_account_state''"
  note r = insert_all_outcome [OF run, OF wf threads, OF once tab, OF consistent served, OF slots]
  obtain closed delta where closed: "map_of closed = archive_candidates (im_ext env) ?cfg (scanned items)"
    and delta: "mset delta = mset (archive_rows (im_ext env) ?cfg (scanned items))"
    "states d1 ?tab = states d ?tab @ delta @ tombstones_of (states d ?tab @ delta) closed (sort (map fst closed))"
    using conjunct2 [OF conjunct2 [OF conjunct2 [OF r]]] by (elim exE conjE)
  have "set delta = set (archive_rows (im_ext env) ?cfg (scanned items))" using delta(1) by (metis set_mset_mset)
  then have cons: "consistent (states d ?tab @ delta)"
    using consistent consistent_set [of "states d ?tab @ delta"] by (metis set_append)
  have cfg: "wc_collect_close_tombstones ?cfg" by (simp add: worker_config_of_def)
  note c = repair_candidates [OF scan cfg]
  show ?thesis
    by (rule write_tombstones_again [OF wr, of "states d ?tab @ delta" closed "[]", unfolded append_Nil2 closed, OF _ cons _ c])
      (simp_all add: delta(2))
qed

end

section \<open>Properties\<close>

text \<open>C23: Repairing the delete versions of an archive that has just been imported changes nothing: the repair marks no
  account, adds no row to the account state and changes no other table, so every pair is still served its balance.\<close>

theorem repair_after_import:
  assumes lib: "importer env tables committed pending"
    and run: "insert_all env ix items Incremental workers sched d = (Inr stats, d1)"
    and wf: "\<forall>av \<in> set (scanned items). av_wf av"
    and threads: "1 < workers \<longrightarrow> (\<forall>(i, t) \<in> set sched. i < workers)"
    and once: "1 < workers \<longrightarrow>
      mset (filter (\<lambda>t. t \<noteq> TaskFlush) (map snd sched)) = mset (concat (map tasks_of (scanned items)))"
    and tab: "tables d (group_table (ci_group ix) ''hot_token_account_state'') \<noteq> None"
    and consistent: "consistent (rows_of state_rows (tables d) (group_table (ci_group ix) ''hot_token_account_state'') @
      archive_rows (im_ext env) (worker_config_of Incremental (ci_snapshot_slot ix) (ci_hot_mints ix)) (scanned items))"
    and served: "\<forall>p. served_balance (rows_of tv_balances (tables d) (group_table (ci_group ix) ''hot_wallet_token_balance'')) p =
      true_balance (rows_of state_rows (tables d) (group_table (ci_group ix) ''hot_token_account_state'')) p"
    and slots: "\<forall>b \<in> set (rows_of tv_balances (tables d) (group_table (ci_group ix) ''hot_wallet_token_balance'')).
      wb_updated_slot b \<le> ci_snapshot_slot ix"
    and repair: "mark_close_tombstones env ix items d1 = (Inr result, d2)"
  shows "ct_token_accounts_marked_deleted result = 0 \<and>
    rows_of state_rows (tables d2) (group_table (ci_group ix) ''hot_token_account_state'') =
      rows_of state_rows (tables d1) (group_table (ci_group ix) ''hot_token_account_state'') \<and>
    (\<forall>t. t \<noteq> group_table (ci_group ix) ''hot_token_account_state'' \<longrightarrow> tables d2 t = tables d1 t)"
proof -
  obtain s where s: "scan_closed (im_ext env) items
      \<lparr>cs_closed = [], cs_skipped = 0, cs_append_vecs = 0, cs_canonical_empty = 0\<rparr> = Inr s"
    using repair by (auto simp: mark_close_tombstones_def split: sum.splits)
  obtain marked pairs d3 where w: "write_close_token_account_tombstones (im_db env) (ci_group ix) (cs_closed s) d1 = (Inr (marked, pairs), d3)"
    and rest: "sthen (swhen (0 < marked) (refresh_hot_indexes (im_db env) (im_nonce env) (ci_group ix) (ci_hot_mints ix) Incremental
        (ci_snapshot_slot ix) pairs False))
      (sreturn \<lparr>ct_append_vecs_total = cs_append_vecs s, ct_skipped_append_vecs = cs_skipped s,
         ct_canonical_empty_accounts = cs_canonical_empty s, ct_token_accounts_marked_deleted = marked\<rparr>) d3 = (Inr result, d2)"
    using repair s by (auto simp: mark_close_tombstones_def op_success split: prod.splits)
  note none = importer.repair_writes_nothing [OF lib run, OF wf threads, OF once tab, OF consistent served, OF slots s, OF w]
  show ?thesis using none rest by (auto simp: swhen_def op_success sreturn_def only_at_def)
qed


context clickhouse
begin

lemma retry_spec:
  assumes first: "write_close_token_account_tombstones db g closed d = (Inr r, d1)"
  defines "tab \<equiv> group_table g ''hot_token_account_state''" and "bal \<equiv> group_table g ''hot_wallet_token_balance''"
  assumes rows: "states d2 tab = states d1 tab @ again" "set again \<subseteq> set (states d tab)"
    and retry: "finish_import db nonce g hot Incremental slot closed pairs d2 = (Inr marked, d3)"
    and closed: "distinct (map fst closed)" and cons: "consistent (states d tab)" and fin: "finite pairs"
    and slots: "\<forall>b \<in> set (balances d2 bal). wb_updated_slot b \<le> slot"
  shows "marked = 0 \<and> states d3 tab = states d2 tab \<and>
    (\<forall>p. p \<notin> pairs \<longrightarrow> served_balance (balances d3 bal) p = served_balance (balances d2 bal) p)"
proof -
  let ?tombs = "tombstones_of (states d tab) closed (sort (map fst closed))"
  have st2: "states d2 tab = states d tab @ ?tombs @ again"
    using write_tombstones_spec [OF first closed] rows(1) by (simp add: tab_def)
  obtain r2 d4 where w: "write_close_token_account_tombstones db g closed d2 = (Inr r2, d4)"
    and rest: "(case r2 of (marked_deleted, tombstone_pairs) \<Rightarrow>
       sthen (refresh_hot_indexes db nonce g hot Incremental slot (pairs \<union> tombstone_pairs) False)
         (sreturn marked_deleted)) d4 = (Inr marked, d3)"
    using retry by (auto simp: finish_import_def op_success)
  have b: "bounded_by (map_of closed) (map_of closed)" by (auto simp: bounded_by_def)
  have w2: "states d4 tab = states d2 tab" "r2 = (0, {})" "only_at tab (tables d2) (tables d4)"
    using write_tombstones_spec [OF w closed, folded tab_def] unfolding st2 no_tombstones_again [OF cons rows(2) b] by simp_all
  obtain d5 where ref: "refresh_wallet_balance_incremental db tab bal pairs slot d4 = (Inr (), d5)"
    and d3: "tables d3 = tables d5" and m: "marked = 0"
    using rest w2(2) count_reads
    by (auto simp: refresh_hot_indexes_def Let_def op_success tab_def bal_def) (metis snd_conv)+
  have neq: "tab \<noteq> bal" unfolding tab_def bal_def by (rule hot_tables_neq)
  have bal4: "balances d4 bal = balances d2 bal" using w2(3) neq by (simp add: only_at_def rows_of_def)
  have "set (states d tab @ ?tombs @ again) = set (states d tab @ ?tombs)" using rows(2) by auto
  then have "consistent (states d4 tab)"
    unfolding w2(1) st2 using consistent_tombstones [OF cons] consistent_set by blast
  note R = refresh_incremental_spec [OF ref fin neq this slots [folded bal4]]
  have "states d3 tab = states d2 tab" using R(3) neq w2(1) by (simp add: d3 only_at_def rows_of_def)
  then show ?thesis using R(1) m by (simp add: d3 bal4)
qed

end


text \<open>C5: An import that fails between its delete versions and its balance refresh is not repaired by importing the
  archive again: the second import, with the archive's rows inserted once more, finds the accounts deleted
  already, reports none, and leaves the balance of the pair of a deleted account as it was served before,
  unless a live row of the archive names the pair.\<close>

theorem interrupted_refresh_not_repaired:
  assumes "clickhouse db tables"
    and "write_close_token_account_tombstones db g closed d = (Inr (deleted, deleted_pairs), d1)"
    and "rows_of state_rows (tables d2) (group_table g ''hot_token_account_state'') =
      rows_of state_rows (tables d1) (group_table g ''hot_token_account_state'') @ again"
    and "set again \<subseteq> set (rows_of state_rows (tables d) (group_table g ''hot_token_account_state''))"
    and "finish_import db nonce g hot Incremental slot closed pairs d2 = (Inr marked, d3)"
    and "distinct (map fst closed)" "consistent (rows_of state_rows (tables d) (group_table g ''hot_token_account_state''))"
      "finite pairs"
    and "\<forall>b \<in> set (rows_of tv_balances (tables d2) (group_table g ''hot_wallet_token_balance'')). wb_updated_slot b \<le> slot"
    and "rows_of tv_balances (tables d2) (group_table g ''hot_wallet_token_balance'') =
      rows_of tv_balances (tables d) (group_table g ''hot_wallet_token_balance'')"
    and "p \<in> deleted_pairs" "p \<notin> pairs"
  shows "marked = 0 \<and> served_balance (rows_of tv_balances (tables d3) (group_table g ''hot_wallet_token_balance'')) p =
    served_balance (rows_of tv_balances (tables d) (group_table g ''hot_wallet_token_balance'')) p"
  using clickhouse.retry_spec [OF assms(1-9)] assms(10,12) by (cases p) simp

section \<open>Witnesses\<close>

definition faulty_server :: memory_server where
  "faulty_server = sample_server\<lparr>ms_fault := (\<lambda>n. if n = 3 then Refused else Fine)\<rparr>"

definition interrupted_server :: memory_server where
  "interrupted_server = snd (finish_import memory_db ''n'' Active {''m''} Incremental 9 [(''acc'', 7)] {} faulty_server)"

lemma interrupted_run:
  "fst (finish_import memory_db ''n'' Active {''m''} Incremental 9 [(''acc'', 7)] {} faulty_server) = Inl ''refused''"
  "fst (write_close_token_account_tombstones memory_db Active [(''acc'', 7)] faulty_server) = Inr (1, {(''m'', ''w'')})"
  "rows_of state_rows (ms_tables interrupted_server) ''hot_token_account_state'' =
    rows_of state_rows (ms_tables (snd (write_close_token_account_tombstones memory_db Active [(''acc'', 7)] faulty_server)))
      ''hot_token_account_state''"
  "rows_of tv_balances (ms_tables interrupted_server) ''hot_wallet_token_balance'' =
    rows_of tv_balances (ms_tables faulty_server) ''hot_wallet_token_balance''"
  "fst (finish_import memory_db ''n'' Active {''m''} Incremental 9 [(''acc'', 7)] {} interrupted_server) = Inr 0"
  by (simp_all add: interrupted_server_def faulty_server_def finish_import_def memory_run tombstone_run refresh_hot_indexes_def
      refresh_wallet_balance_incremental_def mem_aggregate_def is_live_def)

lemma interrupted_refresh_not_repaired_witness:
  "\<exists>d2 d3. finish_import memory_db ''n'' Active {''m''} Incremental 9 [(''acc'', 7)] {} faulty_server = (Inl ''refused'', d2) \<and>
    finish_import memory_db ''n'' Active {''m''} Incremental 9 [(''acc'', 7)] {} d2 = (Inr 0, d3) \<and>
    served_balance (rows_of tv_balances (ms_tables d3) ''hot_wallet_token_balance'') (''m'', ''w'') = 5 \<and>
    true_balance (rows_of state_rows (ms_tables d2) ''hot_token_account_state'') (''m'', ''w'') = 0"
proof -
  let ?run = "finish_import memory_db ''n'' Active {''m''} Incremental 9 [(''acc'', 7)] {}"
  have g: "group_table Active t = t" for t by (simp add: group_table_def)
  have w: "write_close_token_account_tombstones memory_db Active [(''acc'', 7)] faulty_server =
      (Inr (1, {(''m'', ''w'')}), snd (write_close_token_account_tombstones memory_db Active [(''acc'', 7)] faulty_server))"
    using interrupted_run(2) by (metis prod.collapse)
  have r: "?run interrupted_server = (Inr 0, snd (?run interrupted_server))" using interrupted_run(5) by (metis prod.collapse)
  have first: "?run faulty_server = (Inl ''refused'', interrupted_server)"
    using interrupted_run(1) by (metis prod.collapse interrupted_server_def)
  have c: "consistent (rows_of state_rows (ms_tables faulty_server) ''hot_token_account_state'')"
    by (auto simp: consistent_def faulty_server_def sample_server_def rows_of_def state_rows_def)
  have s: "\<forall>b \<in> set (rows_of tv_balances (ms_tables interrupted_server) ''hot_wallet_token_balance''). wb_updated_slot b \<le> 9"
    unfolding interrupted_run(4) by (simp add: faulty_server_def sample_server_def rows_of_def)
  note T = interrupted_refresh_not_repaired [OF memory.clickhouse_axioms w, unfolded g, where again = "[]", unfolded append_Nil2,
      OF interrupted_run(3) _ r]
  have "served_balance (rows_of tv_balances (ms_tables (snd (?run interrupted_server))) ''hot_wallet_token_balance'') (''m'', ''w'') =
      served_balance (rows_of tv_balances (ms_tables faulty_server) ''hot_wallet_token_balance'') (''m'', ''w'')"
    using T [OF _ _ c _ s interrupted_run(4)] by simp
  then have "served_balance (rows_of tv_balances (ms_tables (snd (?run interrupted_server))) ''hot_wallet_token_balance'') (''m'', ''w'') = 5"
    by (simp add: faulty_server_def sample_server_def rows_of_def served_balance_def)
  moreover have "true_balance (rows_of state_rows (ms_tables interrupted_server) ''hot_token_account_state'') (''m'', ''w'') = 0"
    unfolding interrupted_run(3) true_balance_def
    by (simp add: faulty_server_def memory_run tombstone_run group_sum_def is_live_def)
  ultimately show ?thesis using first r by blast
qed


lemma sample_scan_closed:
  "scan_closed sample_externals [Inr sample_scan_av, Inl ()] \<lparr>cs_closed = [], cs_skipped = 0, cs_append_vecs = 0, cs_canonical_empty = 0\<rparr> =
     Inr \<lparr>cs_closed = [(bytes_string (replicate 32 0), 9)], cs_skipped = 1, cs_append_vecs = 1, cs_canonical_empty = 1\<rparr>"
proof -
  have "append_vec_accounts sample_scan_av = Some (Done [empty_account])"
    using append_vec_accounts_total [OF sample_scan_av_wf] sample_scan_accounts by (simp add: sample_scan_av_def)
  then show ?thesis
    using sample_scan_accounts
    by (simp add: close_account_def is_canonical_empty_account_def default_pubkey_def remember_close_candidate_def upsert_max_def
        account_pubkey_def sample_externals_def sample_scan_av_def)
qed

lemma memory_read_runs: "ms_fault d = (\<lambda>_. Fine) \<Longrightarrow>
    mem_read f d = (Inr (f (ms_tables d)), d\<lparr>ms_requests := Suc (ms_requests d)\<rparr>)"
  by (simp add: mem_read_def mem_request_def Let_def)

lemma memory_write_runs:
  assumes "ms_fault d = (\<lambda>_. Fine)" "ms_tables d ''hot_token_account_state'' \<noteq> None"
  shows "\<exists>marked pairs d'. write_close_token_account_tombstones memory_db Active [(k, 9)] d = (Inr (marked, pairs), d')"
proof -
  obtain v where "ms_tables d ''hot_token_account_state'' = Some v" using assms(2) by blast
  then show ?thesis
    using assms(1)
    by (simp add: write_close_token_account_tombstones_def CLOSE_TOMBSTONE_BATCH_SIZE_def chunks.simps [of _ "[_]"] sbind_def sthen_def
        sreturn_def memory_ops memory_read_runs mem_alter_def mem_request_def Let_def group_table_def split: option.split)
qed

lemma repair_after_import_witness:
  "\<exists>stats d1 result d2. insert_all (memory_env sample_externals) import_indexer [Inr sample_scan_av, Inl ()] Incremental 1 []
      (import_server (bytes_string (replicate 32 0))) = (Inr stats, d1) \<and> ix_token_accounts_marked_deleted stats = 1 \<and>
    mark_close_tombstones (memory_env sample_externals) import_indexer [Inr sample_scan_av, Inl ()] d1 = (Inr result, d2) \<and>
    ct_token_accounts_marked_deleted result = 0"
proof -
  let ?k = "bytes_string (replicate 32 0)" and ?items = "[Inr sample_scan_av, Inl ()]"
  obtain stats d1 where run: "insert_all (memory_env sample_externals) import_indexer ?items Incremental 1 []
      (import_server ?k) = (Inr stats, d1)" and one: "ix_token_accounts_marked_deleted stats = 1"
    and d1: "ms_fault d1 = (\<lambda>_. Fine)" "ms_tables d1 ''hot_token_account_state'' \<noteq> None"
    using sample_import_runs_whole by (elim exE conjE)
  have sc: "scanned ?items = [sample_scan_av]" by (simp add: scanned_def)
  have ix: "ci_group import_indexer = Active" "ci_hot_mints import_indexer = {''m''}" "ci_snapshot_slot import_indexer = 9"
    "im_ext (memory_env sample_externals) = sample_externals" "im_db (memory_env sample_externals) = memory_db"
    by (simp_all add: import_indexer_def memory_env_def)
  have empty: "archive_rows sample_externals (worker_config_of Incremental 9 {''m''}) [sample_scan_av] = []"
    by (simp add: archive_rows_def sample_archive_effects rows_in_def)
  have g: "group_table Active t = t" for t by (simp add: group_table_def)
  obtain marked pairs d3 where w: "write_close_token_account_tombstones memory_db Active [(?k, 9)] d1 = (Inr (marked, pairs), d3)"
    using memory_write_runs [OF d1] by blast
  have wf: "\<forall>av \<in> set (scanned ?items). av_wf av" using sample_scan_av_wf by (simp add: sc)
  have one_worker: "1 < (1 :: nat) \<longrightarrow> P" for P by simp
  have tab: "ms_tables (import_server ?k) ''hot_token_account_state'' \<noteq> None" by (simp add: sample_tables_of_server)
  have served: "\<forall>p. served_balance (rows_of tv_balances (ms_tables (import_server ?k)) ''hot_wallet_token_balance'') p =
      true_balance (rows_of state_rows (ms_tables (import_server ?k)) ''hot_token_account_state'') p"
    using sample_hypotheses(2) by blast
  have scan: "scan_closed sample_externals ?items \<lparr>cs_closed = [], cs_skipped = 0, cs_append_vecs = 0, cs_canonical_empty = 0\<rparr> =
      Inr \<lparr>cs_closed = [(?k, 9)], cs_skipped = 1, cs_append_vecs = 1, cs_canonical_empty = 1\<rparr>"
    by (rule sample_scan_closed)
  note none = memory_importer.repair_writes_nothing [OF run, OF wf one_worker, OF one_worker, unfolded ix sc empty g append_Nil2,
      OF tab sample_hypotheses(1), OF served sample_hypotheses(3), OF scan, unfolded close_scan.select_convs, OF w]
  then have "\<exists>result d2. mark_close_tombstones (memory_env sample_externals) import_indexer ?items d1 = (Inr result, d2)"
    by (simp add: mark_close_tombstones_def ix scan sbind_def w sthen_def swhen_def sreturn_def del: scan_closed.simps)
  then obtain result d2 where repair: "mark_close_tombstones (memory_env sample_externals) import_indexer ?items d1 = (Inr result, d2)"
    by blast
  note T = repair_after_import [OF memory_importer.importer_axioms run wf, OF one_worker one_worker,
      unfolded ix sc empty g append_Nil2, OF tab sample_hypotheses(1), OF served sample_hypotheses(3), OF repair]
  show ?thesis using run one repair T by blast
qed

end
