(* ===== verification/Schema.thy ===== *)
theory Schema
  imports Rows
begin

text \<open>
  The schema validation of \<^verbatim>\<open>clickhouse.rs\<close> that runs before any snapshot is read, and the connection
  URL.  The rows of ClickHouse's system tables are what the server answers; \<^verbatim>\<open>Url\<close> and
  \<^verbatim>\<open>percent_decode_str\<close> are parameters.
\<close>

section \<open>System tables\<close>

record system_table_row =
  st_name :: string
  st_engine :: string
  st_sorting_key :: string
  st_engine_full :: string
  st_create_table_query :: string

record system_column_row =
  sc_table :: string
  sc_name :: string
  sc_type :: string

record system_projection_row =
  sp_table :: string
  sp_name :: string
  sp_sorting_key :: string

record required_table_spec =
  rs_name :: string
  rs_engine :: string
  rs_engine_full_prefix :: string
  rs_sorting_key :: string

text \<open>The three queries; the argument is the list of table names in the statement.\<close>

record 'd schema_queries =
  fetch_tables :: "string \<Rightarrow> ('d, string, system_table_row list) op"
  fetch_columns :: "string \<Rightarrow> ('d, string, system_column_row list) op"
  fetch_projections :: "string \<Rightarrow> ('d, string, system_projection_row list) op"

section \<open>What is required\<close>

definition replacing :: "string \<Rightarrow> string \<Rightarrow> string \<Rightarrow> required_table_spec" where
  "replacing name arguments key = \<lparr>rs_name = name, rs_engine = ''ReplacingMergeTree'',
     rs_engine_full_prefix = ''ReplacingMergeTree('' @ arguments @ '')'', rs_sorting_key = key\<rparr>"

definition required_table_specs :: "required_table_spec list" where
  "required_table_specs = [
     replacing ''raw_account'' ''updated_slot'' ''owner, pubkey'',
     replacing ''raw_token_mint'' ''updated_slot'' ''mint'',
     replacing ''raw_token_metadata'' ''updated_slot'' ''mint'',
     replacing ''raw_account_bak'' ''updated_slot'' ''owner, pubkey'',
     replacing ''raw_token_mint_bak'' ''updated_slot'' ''mint'',
     replacing ''raw_token_metadata_bak'' ''updated_slot'' ''mint'',
     replacing ''hot_token'' ''version'' ''mint'',
     \<lparr>rs_name = ''hot_token_enabled'', rs_engine = ''View'', rs_engine_full_prefix = '''', rs_sorting_key = ''''\<rparr>,
     replacing ''hot_token_account_state'' ''updated_slot, is_deleted'' ''pubkey'',
     replacing ''hot_token_account_state_bak'' ''updated_slot, is_deleted'' ''pubkey'',
     replacing ''hot_wallet_token_balance'' ''updated_slot'' ''mint, owner'',
     replacing ''hot_wallet_token_balance_bak'' ''updated_slot'' ''mint, owner'',
     replacing ''hot_token_info'' ''updated_slot'' ''mint'',
     replacing ''hot_token_info_bak'' ''updated_slot'' ''mint'']"

definition required_table_names :: "string list" where
  "required_table_names = map rs_name required_table_specs"

definition RAW_ACCOUNT_COLUMNS :: "(string \<times> string) list" where
  "RAW_ACCOUNT_COLUMNS = [(''pubkey'', ''String''), (''owner'', ''LowCardinality(String)''), (''lamports'', ''UInt64''),
     (''data_len'', ''UInt64''), (''executable'', ''Bool''), (''updated_slot'', ''UInt64'')]"

definition RAW_TOKEN_MINT_COLUMNS :: "(string \<times> string) list" where
  "RAW_TOKEN_MINT_COLUMNS = [(''mint'', ''String''), (''mint_authority'', ''Nullable(String)''), (''supply'', ''UInt64''),
     (''decimals'', ''UInt8''), (''is_initialized'', ''Bool''), (''freeze_authority'', ''Nullable(String)''),
     (''updated_slot'', ''UInt64'')]"

definition RAW_TOKEN_METADATA_COLUMNS :: "(string \<times> string) list" where
  "RAW_TOKEN_METADATA_COLUMNS = [(''mint'', ''String''), (''name'', ''String''), (''symbol'', ''String''), (''uri'', ''String''),
     (''update_authority'', ''LowCardinality(String)''), (''is_mutable'', ''Bool''), (''token_standard'', ''Nullable(UInt8)''),
     (''seller_fee_basis_points'', ''UInt16''), (''creators'', ''Array(String)''), (''extensions'', ''String''),
     (''updated_slot'', ''UInt64'')]"

definition HOT_TOKEN_COLUMNS :: "(string \<times> string) list" where
  "HOT_TOKEN_COLUMNS = [(''mint'', ''String''), (''enable'', ''UInt8''), (''version'', ''UInt64'')]"

definition HOT_TOKEN_ACCOUNT_STATE_COLUMNS :: "(string \<times> string) list" where
  "HOT_TOKEN_ACCOUNT_STATE_COLUMNS = [(''pubkey'', ''String''), (''mint'', ''String''), (''owner'', ''String''),
     (''amount'', ''UInt64''), (''delegate'', ''Nullable(String)''), (''delegated_amount'', ''UInt64''), (''state'', ''Enum8''),
     (''close_authority'', ''Nullable(String)''), (''is_deleted'', ''UInt8''), (''updated_slot'', ''UInt64'')]"

definition HOT_WALLET_TOKEN_BALANCE_COLUMNS :: "(string \<times> string) list" where
  "HOT_WALLET_TOKEN_BALANCE_COLUMNS = [(''mint'', ''String''), (''owner'', ''String''), (''amount_raw'', ''UInt64''),
     (''updated_slot'', ''UInt64'')]"

definition HOT_TOKEN_INFO_COLUMNS :: "(string \<times> string) list" where
  "HOT_TOKEN_INFO_COLUMNS = [(''mint'', ''String''), (''decimals'', ''UInt8''), (''supply_raw'', ''UInt64''), (''name'', ''String''),
     (''symbol'', ''String''), (''uri'', ''String''), (''token_standard'', ''Nullable(UInt8)''), (''extensions'', ''String''),
     (''mint_updated_slot'', ''UInt64''), (''metadata_updated_slot'', ''UInt64''), (''updated_slot'', ''UInt64'')]"

definition columns_of_tables :: "string list \<Rightarrow> (string \<times> string) list \<Rightarrow> (string \<times> string \<times> string) list" where
  "columns_of_tables tables columns = concat (map (\<lambda>t. map (\<lambda>(c, e). (t, c, e)) columns) tables)"

definition required_columns :: "(string \<times> string \<times> string) list" where
  "required_columns =
     columns_of_tables [''raw_account'', ''raw_account_bak''] RAW_ACCOUNT_COLUMNS @
     columns_of_tables [''raw_token_mint'', ''raw_token_mint_bak''] RAW_TOKEN_MINT_COLUMNS @
     columns_of_tables [''raw_token_metadata'', ''raw_token_metadata_bak''] RAW_TOKEN_METADATA_COLUMNS @
     columns_of_tables [''hot_token''] HOT_TOKEN_COLUMNS @
     columns_of_tables [''hot_token_account_state'', ''hot_token_account_state_bak''] HOT_TOKEN_ACCOUNT_STATE_COLUMNS @
     columns_of_tables [''hot_wallet_token_balance'', ''hot_wallet_token_balance_bak''] HOT_WALLET_TOKEN_BALANCE_COLUMNS @
     columns_of_tables [''hot_token_info'', ''hot_token_info_bak''] HOT_TOKEN_INFO_COLUMNS @
     [(''hot_token_enabled'', ''mint'', ''String''), (''hot_token_enabled'', ''version'', ''UInt64'')]"

definition required_projections :: "(string \<times> string \<times> string) list" where
  "required_projections =
     map (\<lambda>t. (t, ''proj_by_pair'', ''mint, owner, pubkey'')) [''hot_token_account_state'', ''hot_token_account_state_bak''] @
     concat (map (\<lambda>t. [(t, ''proj_by_mint_amount'', ''mint, amount_raw, owner''), (t, ''proj_by_owner'', ''owner, mint'')])
       [''hot_wallet_token_balance'', ''hot_wallet_token_balance_bak''])"

section \<open>Comparisons\<close>

definition is_ascii_whitespace :: "char \<Rightarrow> bool" where
  "is_ascii_whitespace c \<longleftrightarrow> c \<in> set [CHR '' '', CHR 0x09, CHR 0x0A, CHR 0x0C, CHR 0x0D]"

definition to_ascii_lowercase :: "char \<Rightarrow> char" where
  "to_ascii_lowercase c = (if 65 \<le> (of_char c :: nat) \<and> (of_char c :: nat) \<le> 90 then char_of ((of_char c :: nat) + 32) else c)"

fun contains :: "string \<Rightarrow> string \<Rightarrow> bool" where
  "contains pattern [] = (pattern = [])"
| "contains pattern (c # cs) = (take (length pattern) (c # cs) = pattern \<or> contains pattern cs)"

definition starts_with :: "string \<Rightarrow> string \<Rightarrow> bool" where
  "starts_with prefix s \<longleftrightarrow> take (length prefix) s = prefix"

definition requires_rebuild_projection_mode :: "string \<Rightarrow> bool" where
  "requires_rebuild_projection_mode table \<longleftrightarrow> table \<in> set [''hot_token_account_state'', ''hot_token_account_state_bak'',
     ''hot_wallet_token_balance'', ''hot_wallet_token_balance_bak'']"

definition table_has_rebuild_projection_mode :: "string \<Rightarrow> bool" where
  "table_has_rebuild_projection_mode query =
     contains (''deduplicate_merge_projection_mode='' @ [CHR 0x27] @ ''rebuild'' @ [CHR 0x27])
       (filter (\<lambda>c. \<not> is_ascii_whitespace c) (map to_ascii_lowercase query))"

definition normalize_sorting_key :: "string \<Rightarrow> string" where
  "normalize_sorting_key s = filter (\<lambda>c. \<not> is_ascii_whitespace c \<and> c \<notin> set [CHR ''('', CHR '')'', CHR ''['', CHR '']'', CHR 0x27, CHR 0x22]) s"

definition actual_type_matches :: "string \<Rightarrow> string \<Rightarrow> bool" where
  "actual_type_matches actual expected =
     (if expected = ''Enum8'' then starts_with ''Enum8'' actual
      else if expected = ''DateTime64'' then starts_with ''DateTime64'' actual
      else actual = expected)"

definition sql_string_literal :: "string \<Rightarrow> string" where
  "sql_string_literal value = [CHR 0x27] @ concat (map (\<lambda>c. if c = CHR 0x27 then [CHR 0x27, CHR 0x27] else [c]) value) @ [CHR 0x27]"

fun join :: "string \<Rightarrow> string list \<Rightarrow> string" where
  "join sep [] = []"
| "join sep [x] = x"
| "join sep (x # y # xs) = x @ sep @ join sep (y # xs)"

definition sql_string_list :: "string list \<Rightarrow> string" where
  "sql_string_list values = join '', '' (map sql_string_literal values)"

section \<open>The check\<close>

datatype schema_error =
    MissingTable string
  | WrongEngine string string string
  | WrongDefinition string string string
  | WrongSortingKey string string string
  | NoRebuildMode string
  | MissingColumn string string
  | WrongColumnType string string string string
  | MissingProjection string string
  | WrongProjectionKey string string string string

fun schema_error_text :: "schema_error \<Rightarrow> string" where
  "schema_error_text (MissingTable t) = ''missing table solana.'' @ t"
| "schema_error_text (WrongEngine t actual expected) =
     ''table solana.'' @ t @ '' uses engine '' @ actual @ '', expected '' @ expected"
| "schema_error_text (WrongDefinition t actual prefix) =
     ''table solana.'' @ t @ '' uses engine definition '' @ actual @ '', expected prefix '' @ prefix"
| "schema_error_text (WrongSortingKey t actual expected) =
     ''table solana.'' @ t @ '' uses sorting key '' @ actual @ '', expected '' @ expected"
| "schema_error_text (NoRebuildMode t) =
     ''table solana.'' @ t @ '' must set deduplicate_merge_projection_mode = '' @ [CHR 0x27] @ ''rebuild'' @ [CHR 0x27]"
| "schema_error_text (MissingColumn t c) = ''missing column solana.'' @ t @ ''.'' @ c"
| "schema_error_text (WrongColumnType t c actual expected) =
     ''column solana.'' @ t @ ''.'' @ c @ '' uses type '' @ actual @ '', expected '' @ expected"
| "schema_error_text (MissingProjection t p) = ''missing projection solana.'' @ t @ ''.'' @ p"
| "schema_error_text (WrongProjectionKey t p actual expected) =
     ''projection solana.'' @ t @ ''.'' @ p @ '' uses sorting key '' @ actual @ '', expected '' @ expected"

text \<open>A \<^verbatim>\<open>HashMap\<close> collected from rows: a later row replaces an earlier one.\<close>

definition collect_rows :: "('r \<Rightarrow> 'k) \<Rightarrow> ('r \<Rightarrow> 'v) \<Rightarrow> 'r list \<Rightarrow> 'k \<Rightarrow> 'v option" where
  "collect_rows key val rows = map_of (rev (map (\<lambda>r. (key r, val r)) rows))"

definition table_errors :: "system_table_row list \<Rightarrow> required_table_spec \<Rightarrow> schema_error list" where
  "table_errors rows spec =
     (case collect_rows st_name (\<lambda>r. r) rows (rs_name spec) of
        None \<Rightarrow> [MissingTable (rs_name spec)]
      | Some d \<Rightarrow>
          (if st_engine d \<noteq> rs_engine spec then [WrongEngine (rs_name spec) (st_engine d) (rs_engine spec)] else []) @
          (if rs_engine_full_prefix spec \<noteq> '''' \<and> \<not> starts_with (rs_engine_full_prefix spec) (st_engine_full d)
           then [WrongDefinition (rs_name spec) (st_engine_full d) (rs_engine_full_prefix spec)] else []) @
          (if rs_sorting_key spec \<noteq> '''' \<and> normalize_sorting_key (st_sorting_key d) \<noteq> normalize_sorting_key (rs_sorting_key spec)
           then [WrongSortingKey (rs_name spec) (st_sorting_key d) (rs_sorting_key spec)] else []) @
          (if requires_rebuild_projection_mode (rs_name spec) \<and> \<not> table_has_rebuild_projection_mode (st_create_table_query d)
           then [NoRebuildMode (rs_name spec)] else []))"

definition column_errors :: "system_column_row list \<Rightarrow> string \<times> string \<times> string \<Rightarrow> schema_error list" where
  "column_errors rows = (\<lambda>(table, column, expected).
     case collect_rows (\<lambda>r. (sc_table r, sc_name r)) sc_type rows (table, column) of
       None \<Rightarrow> [MissingColumn table column]
     | Some actual \<Rightarrow> if actual_type_matches actual expected then [] else [WrongColumnType table column actual expected])"

definition projection_errors :: "system_projection_row list \<Rightarrow> string \<times> string \<times> string \<Rightarrow> schema_error list" where
  "projection_errors rows = (\<lambda>(table, projection, expected).
     case collect_rows (\<lambda>r. (sp_table r, sp_name r)) sp_sorting_key rows (table, projection) of
       None \<Rightarrow> [MissingProjection table projection]
     | Some actual \<Rightarrow>
         if normalize_sorting_key actual \<noteq> normalize_sorting_key expected
         then [WrongProjectionKey table projection actual expected] else [])"

definition with_context :: "string \<Rightarrow> ('d, string, 'a) op \<Rightarrow> ('d, string, 'a) op" where
  "with_context context m d = (case m d of (Inl e, d') \<Rightarrow> (Inl (context @ e), d') | (Inr x, d') \<Rightarrow> (Inr x, d'))"

definition schema_verdict :: "schema_error list \<Rightarrow> string + unit" where
  "schema_verdict errors =
     (if errors = [] then Inr ()
      else Inl (''ClickHouse schema validation failed; refusing to process snapshots:'' @ [CHR 0x0A] @
        join [CHR 0x0A] (map (\<lambda>e. ''  - '' @ e) (sort (map schema_error_text errors)))))"

definition validate_clickhouse_schema :: "'d schema_queries \<Rightarrow> ('d, string, unit) op" where
  "validate_clickhouse_schema q =
     (let table_list = sql_string_list required_table_names in
      sbind (with_context ''ClickHouse schema check failed while reading system.tables: '' (fetch_tables q table_list)) (\<lambda>tables.
      sbind (with_context ''ClickHouse schema check failed while reading system.columns: '' (fetch_columns q table_list)) (\<lambda>columns.
      sbind (with_context ''ClickHouse schema check failed while reading system.projections: '' (fetch_projections q table_list))
        (\<lambda>projections d.
          (schema_verdict
             (concat (map (table_errors tables) required_table_specs) @
              concat (map (column_errors columns) required_columns) @
              concat (map (projection_errors projections) required_projections)), d)))))"

section \<open>What an accepted schema is\<close>

text \<open>The layout of a group, without the names of the two groups: engine arguments, sorting key, columns and
  projections of a base table.\<close>

record table_layout =
  tl_arguments :: string
  tl_key :: string
  tl_columns :: "(string \<times> string) list"
  tl_projections :: "(string \<times> string) list"

definition group_layout :: "(string \<times> table_layout) list" where
  "group_layout = [
     (''raw_account'', \<lparr>tl_arguments = ''updated_slot'', tl_key = ''owner, pubkey'', tl_columns = RAW_ACCOUNT_COLUMNS, tl_projections = []\<rparr>),
     (''raw_token_mint'', \<lparr>tl_arguments = ''updated_slot'', tl_key = ''mint'', tl_columns = RAW_TOKEN_MINT_COLUMNS, tl_projections = []\<rparr>),
     (''raw_token_metadata'', \<lparr>tl_arguments = ''updated_slot'', tl_key = ''mint'', tl_columns = RAW_TOKEN_METADATA_COLUMNS, tl_projections = []\<rparr>),
     (''hot_token_account_state'', \<lparr>tl_arguments = ''updated_slot, is_deleted'', tl_key = ''pubkey'',
        tl_columns = HOT_TOKEN_ACCOUNT_STATE_COLUMNS, tl_projections = [(''proj_by_pair'', ''mint, owner, pubkey'')]\<rparr>),
     (''hot_token_info'', \<lparr>tl_arguments = ''updated_slot'', tl_key = ''mint'', tl_columns = HOT_TOKEN_INFO_COLUMNS, tl_projections = []\<rparr>),
     (''hot_wallet_token_balance'', \<lparr>tl_arguments = ''updated_slot'', tl_key = ''mint, owner'',
        tl_columns = HOT_WALLET_TOKEN_BALANCE_COLUMNS,
        tl_projections = [(''proj_by_mint_amount'', ''mint, amount_raw, owner''), (''proj_by_owner'', ''owner, mint'')]\<rparr>)]"

definition table_conforms :: "system_table_row list \<Rightarrow> string \<Rightarrow> table_layout \<Rightarrow> bool" where
  "table_conforms tables name l \<longleftrightarrow>
     (\<exists>d. collect_rows st_name (\<lambda>r. r) tables name = Some d \<and> st_engine d = ''ReplacingMergeTree'' \<and>
        starts_with (''ReplacingMergeTree('' @ tl_arguments l @ '')'') (st_engine_full d) \<and>
        normalize_sorting_key (st_sorting_key d) = normalize_sorting_key (tl_key l) \<and>
        (tl_projections l \<noteq> [] \<longrightarrow> table_has_rebuild_projection_mode (st_create_table_query d)))"

definition columns_conform :: "system_column_row list \<Rightarrow> string \<Rightarrow> (string \<times> string) list \<Rightarrow> bool" where
  "columns_conform columns name required \<longleftrightarrow>
     (\<forall>(c, e) \<in> set required. \<exists>t. collect_rows (\<lambda>r. (sc_table r, sc_name r)) sc_type columns (name, c) = Some t \<and>
        actual_type_matches t e)"

definition projections_conform :: "system_projection_row list \<Rightarrow> string \<Rightarrow> (string \<times> string) list \<Rightarrow> bool" where
  "projections_conform projections name required \<longleftrightarrow>
     (\<forall>(p, k) \<in> set required. \<exists>a. collect_rows (\<lambda>r. (sp_table r, sp_name r)) sp_sorting_key projections (name, p) = Some a \<and>
        normalize_sorting_key a = normalize_sorting_key k)"

definition conforms ::
  "system_table_row list \<Rightarrow> system_column_row list \<Rightarrow> system_projection_row list \<Rightarrow> string \<Rightarrow> table_layout \<Rightarrow> bool" where
  "conforms tables columns projections name l \<longleftrightarrow> table_conforms tables name l \<and>
     columns_conform columns name (tl_columns l) \<and> projections_conform projections name (tl_projections l)"

definition hot_token_layout :: table_layout where
  "hot_token_layout = \<lparr>tl_arguments = ''version'', tl_key = ''mint'', tl_columns = HOT_TOKEN_COLUMNS, tl_projections = []\<rparr>"

definition view_conforms :: "system_table_row list \<Rightarrow> system_column_row list \<Rightarrow> bool" where
  "view_conforms tables columns \<longleftrightarrow>
     (\<exists>d. collect_rows st_name (\<lambda>r. r) tables ''hot_token_enabled'' = Some d \<and> st_engine d = ''View'') \<and>
     columns_conform columns ''hot_token_enabled'' [(''mint'', ''String''), (''version'', ''UInt64'')]"

definition accepted :: "system_table_row list \<Rightarrow> system_column_row list \<Rightarrow> system_projection_row list \<Rightarrow> bool" where
  "accepted tables columns projections \<longleftrightarrow>
     (\<forall>g. \<forall>(base, l) \<in> set group_layout. conforms tables columns projections (group_table g base) l) \<and>
     conforms tables columns projections ''hot_token'' hot_token_layout \<and> view_conforms tables columns"

lemma table_errors_replacing:
  assumes "tl_key l \<noteq> ''''" "requires_rebuild_projection_mode name \<longleftrightarrow> tl_projections l \<noteq> []"
  shows "table_errors tables (replacing name (tl_arguments l) (tl_key l)) = [] \<longleftrightarrow> table_conforms tables name l"
  using assms by (auto simp: table_errors_def replacing_def table_conforms_def split: option.splits)

lemma table_errors_view:
  "table_errors tables \<lparr>rs_name = ''hot_token_enabled'', rs_engine = ''View'', rs_engine_full_prefix = '''', rs_sorting_key = ''''\<rparr> = [] \<longleftrightarrow>
    (\<exists>d. collect_rows st_name (\<lambda>r. r) tables ''hot_token_enabled'' = Some d \<and> st_engine d = ''View'')"
  by (auto simp: table_errors_def requires_rebuild_projection_mode_def split: option.splits)

lemma column_errors_nil:
  "column_errors rows (t, c, e) = [] \<longleftrightarrow>
    (\<exists>a. collect_rows (\<lambda>r. (sc_table r, sc_name r)) sc_type rows (t, c) = Some a \<and> actual_type_matches a e)"
  by (auto simp: column_errors_def split: option.splits)

lemma columns_of_tables_nil:
  "concat (map (column_errors rows) (columns_of_tables ts cs)) = [] \<longleftrightarrow> (\<forall>t \<in> set ts. columns_conform rows t cs)"
  by (fastforce simp: columns_of_tables_def column_errors_nil columns_conform_def)

lemma projection_errors_nil:
  "projection_errors rows (t, p, k) = [] \<longleftrightarrow>
    (\<exists>a. collect_rows (\<lambda>r. (sp_table r, sp_name r)) sp_sorting_key rows (t, p) = Some a \<and>
      normalize_sorting_key a = normalize_sorting_key k)"
  by (auto simp: projection_errors_def split: option.splits)

lemma all_groups: "(\<forall>g. P g) \<longleftrightarrow> P Active \<and> P Backup"
  by (metis table_group.exhaust)

text \<open>The flat lists of the code say the same as the layout.\<close>

lemma specs_from_layout:
  "set required_table_specs =
     (\<lambda>(g, base, l). replacing (group_table g base) (tl_arguments l) (tl_key l)) ` ({Active, Backup} \<times> set group_layout) \<union>
     {replacing ''hot_token'' (tl_arguments hot_token_layout) (tl_key hot_token_layout),
      \<lparr>rs_name = ''hot_token_enabled'', rs_engine = ''View'', rs_engine_full_prefix = '''', rs_sorting_key = ''''\<rparr>}"
  by (simp add: required_table_specs_def group_layout_def group_table_def hot_token_layout_def image_Un insert_commute
      insert_Times_insert)

lemma layout_facts_list:
  "\<forall>(base, l) \<in> set group_layout. tl_key l \<noteq> '''' \<and> (\<forall>g \<in> set [Active, Backup].
     requires_rebuild_projection_mode (group_table g base) \<longleftrightarrow> tl_projections l \<noteq> [])"
  by code_simp

lemma layout_facts:
  assumes "(base, l) \<in> set group_layout"
  shows "tl_key l \<noteq> '''' \<and> (requires_rebuild_projection_mode (group_table g base) \<longleftrightarrow> tl_projections l \<noteq> [])"
  using bspec [OF layout_facts_list assms] by (cases g) simp_all

lemma columns_from_layout:
  "concat (map (column_errors rows) required_columns) = [] \<longleftrightarrow>
     (\<forall>g. \<forall>(base, l) \<in> set group_layout. columns_conform rows (group_table g base) (tl_columns l)) \<and>
     columns_conform rows ''hot_token'' (tl_columns hot_token_layout) \<and>
     columns_conform rows ''hot_token_enabled'' [(''mint'', ''String''), (''version'', ''UInt64'')]"
proof -
  have "concat (map (column_errors rows) [(''hot_token_enabled'', ''mint'', ''String''), (''hot_token_enabled'', ''version'', ''UInt64'')]) = [] \<longleftrightarrow>
      columns_conform rows ''hot_token_enabled'' [(''mint'', ''String''), (''version'', ''UInt64'')]"
    by (simp add: column_errors_nil columns_conform_def)
  then show ?thesis
    unfolding required_columns_def map_append concat_append append_is_Nil_conv columns_of_tables_nil
    by (simp add: all_groups group_layout_def group_table_def hot_token_layout_def) blast
qed

lemma projections_from_layout:
  "concat (map (projection_errors rows) required_projections) = [] \<longleftrightarrow>
     (\<forall>g. \<forall>(base, l) \<in> set group_layout. projections_conform rows (group_table g base) (tl_projections l))"
  by (simp add: required_projections_def projection_errors_nil projections_conform_def all_groups group_layout_def group_table_def) blast

lemma tables_from_layout:
  "concat (map (table_errors rows) required_table_specs) = [] \<longleftrightarrow>
     (\<forall>g. \<forall>(base, l) \<in> set group_layout. table_conforms rows (group_table g base) l) \<and>
     table_conforms rows ''hot_token'' hot_token_layout \<and>
     (\<exists>d. collect_rows st_name (\<lambda>r. r) rows ''hot_token_enabled'' = Some d \<and> st_engine d = ''View'')"
proof -
  have hot: "table_errors rows (replacing ''hot_token'' (tl_arguments hot_token_layout) (tl_key hot_token_layout)) = [] \<longleftrightarrow>
      table_conforms rows ''hot_token'' hot_token_layout"
    by (rule table_errors_replacing) (simp_all add: hot_token_layout_def requires_rebuild_projection_mode_def)
  have "concat (map (table_errors rows) required_table_specs) = [] \<longleftrightarrow> (\<forall>s \<in> set required_table_specs. table_errors rows s = [])"
    by simp
  also have "\<dots> \<longleftrightarrow> (\<forall>g. \<forall>(base, l) \<in> set group_layout.
        table_errors rows (replacing (group_table g base) (tl_arguments l) (tl_key l)) = []) \<and>
      table_conforms rows ''hot_token'' hot_token_layout \<and>
      (\<exists>d. collect_rows st_name (\<lambda>r. r) rows ''hot_token_enabled'' = Some d \<and> st_engine d = ''View'')"
    unfolding specs_from_layout ball_Un all_groups using hot table_errors_view [of rows] by auto
  also have "(\<forall>g. \<forall>(base, l) \<in> set group_layout.
        table_errors rows (replacing (group_table g base) (tl_arguments l) (tl_key l)) = []) \<longleftrightarrow>
      (\<forall>g. \<forall>(base, l) \<in> set group_layout. table_conforms rows (group_table g base) l)"
  proof -
    have "table_errors rows (replacing (group_table g base) (tl_arguments l) (tl_key l)) = [] \<longleftrightarrow> table_conforms rows (group_table g base) l"
      if "(base, l) \<in> set group_layout" for g base l
      using layout_facts [OF that, of g] by (intro table_errors_replacing) simp_all
    then show ?thesis by (intro all_cong1 ball_cong) auto
  qed
  finally show ?thesis .
qed

lemma projections_conform_nil [simp]: "projections_conform rows name []"
  by (simp add: projections_conform_def)

lemma no_errors_iff_accepted:
  "concat (map (table_errors tables) required_table_specs) @ concat (map (column_errors columns) required_columns) @
     concat (map (projection_errors projections) required_projections) = [] \<longleftrightarrow> accepted tables columns projections"
  unfolding append_is_Nil_conv tables_from_layout columns_from_layout projections_from_layout
  by (auto simp: accepted_def conforms_def view_conforms_def hot_token_layout_def)


section \<open>Exchange of the groups\<close>

text \<open>\<^verbatim>\<open>EXCHANGE TABLES\<close> exchanges the names of a base table and its \<^verbatim>\<open>_bak\<close> table in the answers of the server.\<close>

definition exchange_pairs :: "(string \<times> string) list" where
  "exchange_pairs = concat (map (\<lambda>b. [(group_table Active b, group_table Backup b), (group_table Backup b, group_table Active b)])
     GROUP_MERGE_TABLES)"

definition exchanged_name :: "string \<Rightarrow> string" where
  "exchanged_name name = (case map_of exchange_pairs name of None \<Rightarrow> name | Some n \<Rightarrow> n)"

definition exchanged_tables :: "system_table_row list \<Rightarrow> system_table_row list" where
  "exchanged_tables = map (\<lambda>r. r\<lparr>st_name := exchanged_name (st_name r)\<rparr>)"

definition exchanged_columns :: "system_column_row list \<Rightarrow> system_column_row list" where
  "exchanged_columns = map (\<lambda>r. r\<lparr>sc_table := exchanged_name (sc_table r)\<rparr>)"

definition exchanged_projections :: "system_projection_row list \<Rightarrow> system_projection_row list" where
  "exchanged_projections = map (\<lambda>r. r\<lparr>sp_table := exchanged_name (sp_table r)\<rparr>)"

lemma exchange_pairs_symmetric: "\<forall>(a, b) \<in> set exchange_pairs. exchanged_name b = a"
  by code_simp

lemma exchanged_involution [simp]: "exchanged_name (exchanged_name name) = name"
proof (cases "map_of exchange_pairs name")
  case None
  then show ?thesis by (simp add: exchanged_name_def)
next
  case (Some n)
  then have "exchanged_name n = name" using exchange_pairs_symmetric by (auto dest: map_of_SomeD)
  then show ?thesis using Some by (simp add: exchanged_name_def)
qed

lemma exchanged_name_eq: "exchanged_name a = exchanged_name b \<longleftrightarrow> a = b"
  by (metis exchanged_involution)

lemma exchanged_groups:
  "\<forall>(base, l) \<in> set group_layout. exchanged_name (group_table Active base) = group_table Backup base \<and>
     exchanged_name (group_table Backup base) = group_table Active base"
  by code_simp

lemma exchanged_fixed: "exchanged_name ''hot_token'' = ''hot_token''" "exchanged_name ''hot_token_enabled'' = ''hot_token_enabled''"
  by code_simp+

lemma collect_rows_map:
  assumes "\<And>r k. key (ren r) = f k \<longleftrightarrow> key r = k" "\<And>r. val (ren r) = g (val r)"
  shows "collect_rows key val (map ren rows) (f k) = map_option g (collect_rows key val rows k)"
proof -
  have eq: "f k = key (ren r) \<longleftrightarrow> k = key r" for r k using assms(1) [of r k] by auto
  show ?thesis
    unfolding collect_rows_def by (induction rows rule: rev_induct) (simp_all add: eq assms(2))
qed

lemma lookup_exchanged:
  "collect_rows st_name (\<lambda>r. r) (exchanged_tables tables) (exchanged_name n) =
     map_option (\<lambda>r. r\<lparr>st_name := exchanged_name (st_name r)\<rparr>) (collect_rows st_name (\<lambda>r. r) tables n)"
  "collect_rows (\<lambda>r. (sc_table r, sc_name r)) sc_type (exchanged_columns columns) (exchanged_name n, c) =
     collect_rows (\<lambda>r. (sc_table r, sc_name r)) sc_type columns (n, c)"
  "collect_rows (\<lambda>r. (sp_table r, sp_name r)) sp_sorting_key (exchanged_projections projections) (exchanged_name n, c) =
     collect_rows (\<lambda>r. (sp_table r, sp_name r)) sp_sorting_key projections (n, c)"
proof -
  show "collect_rows st_name (\<lambda>r. r) (exchanged_tables tables) (exchanged_name n) =
     map_option (\<lambda>r. r\<lparr>st_name := exchanged_name (st_name r)\<rparr>) (collect_rows st_name (\<lambda>r. r) tables n)"
    unfolding exchanged_tables_def by (rule collect_rows_map) (simp_all add: exchanged_name_eq)
  show "collect_rows (\<lambda>r. (sc_table r, sc_name r)) sc_type (exchanged_columns columns) (exchanged_name n, c) =
     collect_rows (\<lambda>r. (sc_table r, sc_name r)) sc_type columns (n, c)"
    using collect_rows_map [where key = "\<lambda>r. (sc_table r, sc_name r)" and val = sc_type and g = "\<lambda>x. x" and k = "(n, c)"
        and f = "\<lambda>(t, c). (exchanged_name t, c)" and ren = "\<lambda>r. r\<lparr>sc_table := exchanged_name (sc_table r)\<rparr>" and rows = columns]
    by (auto simp: exchanged_columns_def exchanged_name_eq option.map_id0 [unfolded id_def])
  show "collect_rows (\<lambda>r. (sp_table r, sp_name r)) sp_sorting_key (exchanged_projections projections) (exchanged_name n, c) =
     collect_rows (\<lambda>r. (sp_table r, sp_name r)) sp_sorting_key projections (n, c)"
    using collect_rows_map [where key = "\<lambda>r. (sp_table r, sp_name r)" and val = sp_sorting_key and g = "\<lambda>x. x" and k = "(n, c)"
        and f = "\<lambda>(t, c). (exchanged_name t, c)" and ren = "\<lambda>r. r\<lparr>sp_table := exchanged_name (sp_table r)\<rparr>" and rows = projections]
    by (auto simp: exchanged_projections_def exchanged_name_eq option.map_id0 [unfolded id_def])
qed

lemma columns_conform_exchanged:
  "columns_conform (exchanged_columns columns) (exchanged_name n) required \<longleftrightarrow> columns_conform columns n required"
  by (simp add: columns_conform_def lookup_exchanged)

lemma conforms_exchanged:
  "conforms (exchanged_tables tables) (exchanged_columns columns) (exchanged_projections projections) (exchanged_name n) l \<longleftrightarrow>
     conforms tables columns projections n l"
  by (auto simp: conforms_def table_conforms_def columns_conform_exchanged projections_conform_def lookup_exchanged)

lemma view_conforms_exchanged:
  "view_conforms (exchanged_tables tables) (exchanged_columns columns) \<longleftrightarrow> view_conforms tables columns"
  using columns_conform_exchanged [of columns "''hot_token_enabled''"] lookup_exchanged(1) [of tables "''hot_token_enabled''"]
  by (auto simp: view_conforms_def exchanged_fixed)

lemma accepted_exchanged:
  "accepted (exchanged_tables tables) (exchanged_columns columns) (exchanged_projections projections) \<longleftrightarrow>
     accepted tables columns projections"
proof -
  let ?E = "conforms (exchanged_tables tables) (exchanged_columns columns) (exchanged_projections projections)"
  have "?E (group_table Active base) l \<longleftrightarrow> conforms tables columns projections (group_table Backup base) l"
    "?E (group_table Backup base) l \<longleftrightarrow> conforms tables columns projections (group_table Active base) l"
    if "(base, l) \<in> set group_layout" for base l
    using bspec [OF exchanged_groups that] conforms_exchanged [of tables columns projections "group_table Backup base" l]
      conforms_exchanged [of tables columns projections "group_table Active base" l] by simp_all
  moreover have "?E ''hot_token'' hot_token_layout \<longleftrightarrow> conforms tables columns projections ''hot_token'' hot_token_layout"
    using conforms_exchanged [of tables columns projections "''hot_token''"] by (simp add: exchanged_fixed)
  ultimately show ?thesis
    by (auto simp: accepted_def all_groups view_conforms_exchanged)
qed

text \<open>C39: The validation accepts exactly the schemas in which both groups have the same required layout, so it
  accepts a schema before an exchange of the groups exactly when it accepts it afterwards; a rejected schema
  is reported with one line per deviation, in sorted order.\<close>

theorem schema_validation_symmetric:
  assumes "fetch_tables q (sql_string_list required_table_names) d = (Inr tables, d1)"
    and "fetch_columns q (sql_string_list required_table_names) d1 = (Inr columns, d2)"
    and "fetch_projections q (sql_string_list required_table_names) d2 = (Inr projections, d3)"
    and "fetch_tables q' (sql_string_list required_table_names) d = (Inr (exchanged_tables tables), d1)"
    and "fetch_columns q' (sql_string_list required_table_names) d1 = (Inr (exchanged_columns columns), d2)"
    and "fetch_projections q' (sql_string_list required_table_names) d2 = (Inr (exchanged_projections projections), d3)"
  shows "(fst (validate_clickhouse_schema q d) = Inr () \<longleftrightarrow> accepted tables columns projections) \<and>
    (fst (validate_clickhouse_schema q' d) = Inr () \<longleftrightarrow> accepted tables columns projections) \<and>
    snd (validate_clickhouse_schema q d) = d3 \<and>
    (\<not> accepted tables columns projections \<longrightarrow> (\<exists>lines. lines \<noteq> [] \<and> sorted lines \<and>
       mset lines = image_mset schema_error_text (mset (concat (map (table_errors tables) required_table_specs) @
         concat (map (column_errors columns) required_columns) @ concat (map (projection_errors projections) required_projections))) \<and>
       fst (validate_clickhouse_schema q d) = Inl (''ClickHouse schema validation failed; refusing to process snapshots:'' @
         [CHR 0x0A] @ join [CHR 0x0A] (map (\<lambda>e. ''  - '' @ e) lines))))"
proof -
  let ?errors = "concat (map (table_errors tables) required_table_specs) @ concat (map (column_errors columns) required_columns) @
     concat (map (projection_errors projections) required_projections)"
  have v: "validate_clickhouse_schema q d = (schema_verdict ?errors, d3)"
    using assms(1-3) by (simp add: validate_clickhouse_schema_def Let_def sbind_def with_context_def)
  have v': "fst (validate_clickhouse_schema q' d) = schema_verdict
      (concat (map (table_errors (exchanged_tables tables)) required_table_specs) @
       concat (map (column_errors (exchanged_columns columns)) required_columns) @
       concat (map (projection_errors (exchanged_projections projections)) required_projections))"
    using assms(4-6) by (simp add: validate_clickhouse_schema_def Let_def sbind_def with_context_def)
  have ok: "schema_verdict es = Inr () \<longleftrightarrow> es = []" for es by (simp add: schema_verdict_def)
  have "\<exists>lines. lines \<noteq> [] \<and> sorted lines \<and> mset lines = image_mset schema_error_text (mset ?errors) \<and>
       schema_verdict ?errors = Inl (''ClickHouse schema validation failed; refusing to process snapshots:'' @
         [CHR 0x0A] @ join [CHR 0x0A] (map (\<lambda>e. ''  - '' @ e) lines))"
    if "\<not> accepted tables columns projections"
  proof (intro exI conjI)
    have ne: "?errors \<noteq> []" using that no_errors_iff_accepted by blast
    show "sort (map schema_error_text ?errors) \<noteq> []" using ne by (metis length_0_conv length_map length_sort)
    show "sorted (sort (map schema_error_text ?errors))" by simp
    show "mset (sort (map schema_error_text ?errors)) = image_mset schema_error_text (mset ?errors)"
      by (simp only: mset_sort mset_map)
    show "schema_verdict ?errors = Inl (''ClickHouse schema validation failed; refusing to process snapshots:'' @
         [CHR 0x0A] @ join [CHR 0x0A] (map (\<lambda>e. ''  - '' @ e) (sort (map schema_error_text ?errors))))"
      using ne by (simp only: schema_verdict_def if_False)
  qed
  then show ?thesis
    unfolding v' ok v fst_conv snd_conv no_errors_iff_accepted accepted_exchanged by blast
qed

definition sample_table_rows :: "system_table_row list" where
  "sample_table_rows = map (\<lambda>s. \<lparr>st_name = rs_name s, st_engine = rs_engine s, st_sorting_key = ''('' @ rs_sorting_key s @ '')'',
     st_engine_full = rs_engine_full_prefix s @ '' ORDER BY pubkey'',
     st_create_table_query = ''SETTINGS Deduplicate_Merge_Projection_Mode = '' @ [CHR 0x27] @ ''rebuild'' @ [CHR 0x27]\<rparr>) required_table_specs"

definition sample_columns :: "system_column_row list" where
  "sample_columns = map (\<lambda>(t, c, e). \<lparr>sc_table = t, sc_name = c, sc_type = (if e = ''Enum8'' then ''Enum8(1 = 2)'' else e)\<rparr>) required_columns"

definition sample_projections :: "system_projection_row list" where
  "sample_projections = map (\<lambda>(t, p, k). \<lparr>sp_table = t, sp_name = p, sp_sorting_key = k\<rparr>) required_projections"

definition answers ::
  "system_table_row list \<Rightarrow> system_column_row list \<Rightarrow> system_projection_row list \<Rightarrow> unit schema_queries" where
  "answers ts cs ps = \<lparr>fetch_tables = \<lambda>_ d. (Inr ts, d), fetch_columns = \<lambda>_ d. (Inr cs, d), fetch_projections = \<lambda>_ d. (Inr ps, d)\<rparr>"

lemma answers_fetch:
  "fetch_tables (answers ts cs ps) l d = (Inr ts, d)" "fetch_columns (answers ts cs ps) l d = (Inr cs, d)"
  "fetch_projections (answers ts cs ps) l d = (Inr ps, d)"
  by (simp_all add: answers_def)

lemma collect_rows_distinct:
  assumes "distinct (map key rows)" "r \<in> set rows"
  shows "collect_rows key val rows (key r) = Some (val r)"
  unfolding collect_rows_def
  using assms by (intro map_of_is_SomeI) (auto simp: rev_map [symmetric] o_def)

lemma distinct_columns_of_tables:
  assumes "distinct ts" "distinct (map fst cs)"
  shows "distinct (map (\<lambda>(t, c, e). (t, c)) (columns_of_tables ts cs))"
  using assms(1)
proof (induction ts)
  case (Cons t ts)
  have "distinct (map (\<lambda>(t, c, e). (t, c)) (map (\<lambda>(c, e). (t, c, e)) cs))"
    using assms(2) by (auto simp: distinct_map inj_on_def) (metis fst_conv prod.inject)
  then show ?case
    using Cons by (auto simp: columns_of_tables_def)
qed (simp add: columns_of_tables_def)

lemma columns_of_tables_keys: "fst ` set (map (\<lambda>(t, c, e). (t, c)) (columns_of_tables ts cs)) \<subseteq> set ts"
  by (auto simp: columns_of_tables_def)

lemma distinct_append_keys:
  "distinct xs \<Longrightarrow> distinct ys \<Longrightarrow> fst ` set xs \<subseteq> A \<Longrightarrow> fst ` set ys \<subseteq> - A \<Longrightarrow> distinct (xs @ ys)"
  by fastforce

lemma required_distinct:
  "distinct (map rs_name required_table_specs)" "distinct (map (\<lambda>(t, p, k). (t, p)) required_projections)"
  by code_simp+

lemma required_columns_distinct: "distinct (map (\<lambda>(t, c, e). (t, c)) required_columns)"
proof -
  have cols: "distinct (map fst RAW_ACCOUNT_COLUMNS)" "distinct (map fst RAW_TOKEN_MINT_COLUMNS)"
    "distinct (map fst RAW_TOKEN_METADATA_COLUMNS)" "distinct (map fst HOT_TOKEN_COLUMNS)"
    "distinct (map fst HOT_TOKEN_ACCOUNT_STATE_COLUMNS)" "distinct (map fst HOT_WALLET_TOKEN_BALANCE_COLUMNS)"
    "distinct (map fst HOT_TOKEN_INFO_COLUMNS)"
    by code_simp+
  show ?thesis
    unfolding required_columns_def map_append
    by (intro distinct_append_keys [OF _ _ columns_of_tables_keys] distinct_columns_of_tables cols)
      (use columns_of_tables_keys in \<open>fastforce simp: image_Un\<close>)+
qed

lemma sample_accepted: "accepted sample_table_rows sample_columns sample_projections"
proof -
  have key: "normalize_sorting_key (''('' @ k @ '')'') = normalize_sorting_key k" for k
    by (simp add: normalize_sorting_key_def)
  have mode: "table_has_rebuild_projection_mode
      (''SETTINGS Deduplicate_Merge_Projection_Mode = '' @ [CHR 0x27] @ ''rebuild'' @ [CHR 0x27])"
    by code_simp
  have "table_errors sample_table_rows s = []" if s: "s \<in> set required_table_specs" for s
  proof -
    let ?r = "\<lparr>st_name = rs_name s, st_engine = rs_engine s, st_sorting_key = ''('' @ rs_sorting_key s @ '')'',
     st_engine_full = rs_engine_full_prefix s @ '' ORDER BY pubkey'',
     st_create_table_query = ''SETTINGS Deduplicate_Merge_Projection_Mode = '' @ [CHR 0x27] @ ''rebuild'' @ [CHR 0x27]\<rparr>"
    have "?r \<in> set sample_table_rows" using s by (auto simp: sample_table_rows_def)
    then have "collect_rows st_name (\<lambda>r. r) sample_table_rows (rs_name s) = Some ?r"
      using collect_rows_distinct [of st_name sample_table_rows ?r "\<lambda>r. r"] required_distinct(1)
      by (simp add: sample_table_rows_def o_def)
    then show ?thesis using mode by (simp add: table_errors_def starts_with_def key [simplified])
  qed
  moreover have "column_errors sample_columns x = []" if x: "x \<in> set required_columns" for x
  proof -
    obtain t c e where e: "x = (t, c, e)" by (cases x) auto
    let ?r = "\<lparr>sc_table = t, sc_name = c, sc_type = (if e = ''Enum8'' then ''Enum8(1 = 2)'' else e)\<rparr>"
    have "?r \<in> set sample_columns" using x by (force simp: sample_columns_def e)
    moreover have "distinct (map (\<lambda>r. (sc_table r, sc_name r)) sample_columns)"
      using required_columns_distinct by (simp add: sample_columns_def o_def split_def)
    ultimately show ?thesis
      using collect_rows_distinct [of "\<lambda>r. (sc_table r, sc_name r)" sample_columns ?r sc_type]
      by (simp add: e column_errors_def actual_type_matches_def starts_with_def)
  qed
  moreover have "projection_errors sample_projections x = []" if x: "x \<in> set required_projections" for x
  proof -
    obtain t p k where k: "x = (t, p, k)" by (cases x) auto
    let ?r = "\<lparr>sp_table = t, sp_name = p, sp_sorting_key = k\<rparr>"
    have "?r \<in> set sample_projections" using x by (force simp: sample_projections_def k)
    moreover have "distinct (map (\<lambda>r. (sp_table r, sp_name r)) sample_projections)"
      using required_distinct(2) by (simp add: sample_projections_def o_def split_def)
    ultimately show ?thesis
      using collect_rows_distinct [of "\<lambda>r. (sp_table r, sp_name r)" sample_projections ?r sp_sorting_key]
      by (simp add: k projection_errors_def)
  qed
  ultimately show ?thesis
    unfolding no_errors_iff_accepted [symmetric] by (simp only: append_is_Nil_conv concat_eq_Nil_conv set_map ball_simps) blast
qed

lemma schema_validation_symmetric_witness:
  "fst (validate_clickhouse_schema (answers (exchanged_tables sample_table_rows) (exchanged_columns sample_columns)
     (exchanged_projections sample_projections)) ()) = Inr () \<and>
   fst (validate_clickhouse_schema (answers sample_table_rows sample_columns sample_projections) ()) = Inr ()"
proof -
  note T = schema_validation_symmetric [OF answers_fetch answers_fetch, where tables = sample_table_rows and columns = sample_columns
    and projections = sample_projections and d = "()"]
  show ?thesis
    by (rule conjI [OF iffD2 [OF conjunct1 [OF conjunct2 [OF T]] sample_accepted] iffD2 [OF conjunct1 [OF T] sample_accepted]])
qed

section \<open>The connection URL\<close>

record 'u url_ops =
  url_parse :: "string \<Rightarrow> string + 'u"
  url_username :: "'u \<Rightarrow> string"
  url_password :: "'u \<Rightarrow> string option"
  url_set_username :: "'u \<Rightarrow> string \<Rightarrow> unit + 'u"
  url_set_password :: "'u \<Rightarrow> string option \<Rightarrow> unit + 'u"
  url_to_string :: "'u \<Rightarrow> string"
  url_decode_component :: "string \<Rightarrow> string + string"

record clickhouse_connection =
  cc_endpoint :: string
  cc_user :: "string option"
  cc_password :: "string option"

definition decode_optional :: "'u url_ops \<Rightarrow> string option \<Rightarrow> string + string option" where
  "decode_optional ops x = (case x of None \<Rightarrow> Inr None | Some v \<Rightarrow> try_bind (url_decode_component ops v) (\<lambda>d. Inr (Some d)))"

definition or_message :: "string \<Rightarrow> unit + 'a \<Rightarrow> string + 'a" where
  "or_message m r = (case r of Inl _ \<Rightarrow> Inl m | Inr x \<Rightarrow> Inr x)"

definition parse_clickhouse_connection_url :: "'u url_ops \<Rightarrow> string \<Rightarrow> string + clickhouse_connection" where
  "parse_clickhouse_connection_url ops connection_url =
     try_bind (url_parse ops connection_url) (\<lambda>endpoint.
     let has_userinfo = url_username ops endpoint \<noteq> '''' \<or> url_password ops endpoint \<noteq> None in
     try_bind (decode_optional ops (if url_username ops endpoint \<noteq> '''' then Some (url_username ops endpoint) else None)) (\<lambda>user.
     try_bind (decode_optional ops (url_password ops endpoint)) (\<lambda>password.
     try_bind (if has_userinfo then
         try_bind (or_message ''CLICKHOUSE_URL has invalid username information'' (url_set_username ops endpoint '''')) (\<lambda>e.
         or_message ''CLICKHOUSE_URL has invalid password information'' (url_set_password ops e None))
       else Inr endpoint) (\<lambda>endpoint.
     Inr \<lparr>cc_endpoint = url_to_string ops endpoint, cc_user = user, cc_password = password\<rparr>))))"

end
