(* ===== verification/Opcode_Stats.thy ===== *)
theory Opcode_Stats
  imports Rows
begin

text \<open>
  The tool \<^verbatim>\<open>solana-opcode-stats\<close>: how often each eBPF opcode occurs in the programs of an archive.  The ELF
  reader of \<^verbatim>\<open>solana_rbpf\<close> and the values of its opcode constants are parameters.
\<close>

section \<open>Counters\<close>

record opcode_stat =
  os_num_programs :: u64
  os_num_instructions :: u64

type_synonym opcode_stats = "u8 \<Rightarrow> opcode_stat"

definition stat_default :: opcode_stat where
  "stat_default = \<lparr>os_num_programs = 0, os_num_instructions = 0\<rparr>"

definition opcode_stats_default :: opcode_stats where
  "opcode_stats_default = (\<lambda>_. stat_default)"

definition stat_add :: "opcode_stat \<Rightarrow> opcode_stat \<Rightarrow> opcode_stat" where
  "stat_add a b = \<lparr>os_num_programs = os_num_programs a + os_num_programs b,
     os_num_instructions = os_num_instructions a + os_num_instructions b\<rparr>"

definition opcode_stats_add :: "opcode_stats \<Rightarrow> opcode_stats \<Rightarrow> opcode_stats" where
  "opcode_stats_add a b = (\<lambda>i. stat_add (a i) (b i))"

section \<open>One program\<close>

definition count_insn :: "u8 \<Rightarrow> opcode_stats \<Rightarrow> opcode_stats" where
  "count_insn opc stats = stats(opc := \<lparr>os_num_programs = os_num_programs (stats opc) OR 1,
     os_num_instructions = os_num_instructions (stats opc) + 1\<rparr>)"

text \<open>The loop over the text section; a slice that is too short panics.\<close>

function count_text :: "u8 \<Rightarrow> u8 list \<Rightarrow> opcode_stats \<Rightarrow> opcode_stats outcome" where
  "count_text ld_dw_imm text stats =
     (case text of
        [] \<Rightarrow> Done stats
      | opc # _ \<Rightarrow>
          (let op_size = (if opc \<noteq> ld_dw_imm then 8 else 16) in
           if length text < op_size then Panic
           else count_text ld_dw_imm (drop op_size text) (count_insn opc stats)))"
  by pat_completeness auto
termination by (relation "measure (\<lambda>(_, text, _). length text)") auto

definition from_program :: "u8 \<Rightarrow> (u8 list \<Rightarrow> string + u8 list) \<Rightarrow> u8 list \<Rightarrow> (string + opcode_stats) outcome" where
  "from_program ld_dw_imm text_of elf =
     (case text_of elf of
        Inl e \<Rightarrow> Done (Inl e)
      | Inr text \<Rightarrow> outcome_bind (count_text ld_dw_imm text opcode_stats_default) (\<lambda>stats. Done (Inr stats)))"

section \<open>The archive\<close>

text \<open>What the tar reader gives for an entry: its path and its contents, each of which may fail.\<close>

record tool_entry =
  te_path :: "string + string"
  te_contents :: "string + u8 list"

definition process_tool_entry ::
  "u8 \<Rightarrow> (u8 list \<Rightarrow> string + u8 list) \<Rightarrow> opcode_stats \<Rightarrow> tool_entry \<Rightarrow> (string + opcode_stats) outcome" where
  "process_tool_entry ld_dw_imm text_of stats entry =
     (case te_contents entry of
        Inl e \<Rightarrow> Done (Inl e)
      | Inr elf \<Rightarrow> outcome_bind (from_program ld_dw_imm text_of elf) (\<lambda>r.
          case r of Inl e \<Rightarrow> Done (Inl e) | Inr program \<Rightarrow> Done (Inr (opcode_stats_add stats program))))"

fun process_entries ::
  "u8 \<Rightarrow> (u8 list \<Rightarrow> string + u8 list) \<Rightarrow> opcode_stats \<Rightarrow> (string + tool_entry) list \<Rightarrow> (string + opcode_stats) outcome" where
  "process_entries ld_dw_imm text_of stats [] = Done (Inr stats)"
| "process_entries ld_dw_imm text_of stats (Inl e # entries) = Done (Inl e)"
| "process_entries ld_dw_imm text_of stats (Inr entry # entries) =
     (case te_path entry of
        Inl e \<Rightarrow> Done (Inl e)
      | Inr path \<Rightarrow> outcome_bind (process_tool_entry ld_dw_imm text_of stats entry) (\<lambda>r.
          case r of
            Inl e \<Rightarrow> Done (Inl (path @ '': '' @ e))
          | Inr stats \<Rightarrow> process_entries ld_dw_imm text_of stats entries))"

definition create_stats ::
  "u8 \<Rightarrow> (u8 list \<Rightarrow> string + u8 list) \<Rightarrow> string + (string + tool_entry) list \<Rightarrow> (string + opcode_stats) outcome" where
  "create_stats ld_dw_imm text_of archive =
     (case archive of Inl e \<Rightarrow> Done (Inl e) | Inr entries \<Rightarrow> process_entries ld_dw_imm text_of opcode_stats_default entries)"

section \<open>The report\<close>

definition opcode_names :: "string list" where
  "opcode_names = [
    ''LD_ABS_B'', ''LD_ABS_H'', ''LD_ABS_W'', ''LD_ABS_DW'', ''LD_IND_B'', ''LD_IND_H'', ''LD_IND_W'', ''LD_IND_DW'',
     ''LD_DW_IMM'', ''LD_B_REG'', ''LD_H_REG'', ''LD_W_REG'', ''LD_DW_REG'', ''ST_B_IMM'', ''ST_H_IMM'',
     ''ST_W_IMM'', ''ST_DW_IMM'', ''ST_B_REG'', ''ST_H_REG'', ''ST_W_REG'', ''ST_DW_REG'', ''ST_W_XADD'',
     ''ST_DW_XADD'', ''ADD32_IMM'', ''ADD32_REG'', ''SUB32_IMM'', ''SUB32_REG'', ''MUL32_IMM'', ''MUL32_REG'',
     ''DIV32_IMM'', ''DIV32_REG'', ''OR32_IMM'', ''OR32_REG'', ''AND32_IMM'', ''AND32_REG'', ''LSH32_IMM'',
     ''LSH32_REG'', ''RSH32_IMM'', ''RSH32_REG'', ''NEG32'', ''MOD32_IMM'', ''MOD32_REG'', ''XOR32_IMM'',
     ''XOR32_REG'', ''MOV32_IMM'', ''MOV32_REG'', ''ARSH32_IMM'', ''ARSH32_REG'', ''SDIV32_IMM'', ''SDIV32_REG'',
     ''LE'', ''BE'', ''ADD64_IMM'', ''ADD64_REG'', ''SUB64_IMM'', ''SUB64_REG'', ''MUL64_IMM'', ''MUL64_REG'',
     ''DIV64_IMM'', ''DIV64_REG'', ''OR64_IMM'', ''OR64_REG'', ''AND64_IMM'', ''AND64_REG'', ''LSH64_IMM'',
     ''LSH64_REG'', ''RSH64_IMM'', ''RSH64_REG'', ''NEG64'', ''MOD64_IMM'', ''MOD64_REG'', ''XOR64_IMM'',
     ''XOR64_REG'', ''MOV64_IMM'', ''MOV64_REG'', ''ARSH64_IMM'', ''ARSH64_REG'', ''SDIV64_IMM'', ''SDIV64_REG'',
     ''JA'', ''JEQ_IMM'', ''JEQ_REG'', ''JGT_IMM'', ''JGT_REG'', ''JGE_IMM'', ''JGE_REG'', ''JLT_IMM'', ''JLT_REG'',
     ''JLE_IMM'', ''JLE_REG'', ''JSET_IMM'', ''JSET_REG'', ''JNE_IMM'', ''JNE_REG'', ''JSGT_IMM'', ''JSGT_REG'',
     ''JSGE_IMM'', ''JSGE_REG'', ''JSLT_IMM'', ''JSLT_REG'', ''JSLE_IMM'', ''JSLE_REG'', ''CALL_IMM'', ''CALL_REG'',
     ''EXIT'']"

text \<open>\<open>value\<close> gives the library's constant of a name; the arms of the match are tried in order.\<close>

definition opcode_mnemonic :: "(string \<Rightarrow> u8) \<Rightarrow> u8 \<Rightarrow> string" where
  "opcode_mnemonic const opc = (case find (\<lambda>n. const n = opc) opcode_names of None \<Rightarrow> ''invalid'' | Some n \<Rightarrow> n)"

definition hex_digit :: "nat \<Rightarrow> char" where
  "hex_digit n = (''0123456789abcdef'' ! n)"

definition hex_byte :: "u8 \<Rightarrow> string" where
  "hex_byte b = ''0x'' @ [hex_digit (unat b div 16), hex_digit (unat b mod 16)]"

text \<open>The records handed to the CSV writer.\<close>

definition csv_records :: "(string \<Rightarrow> u8) \<Rightarrow> opcode_stats \<Rightarrow> string list list" where
  "csv_records const stats =
     [''opcode'', ''mnemonic'', ''num_programs'', ''num_insns''] #
     concat (map (\<lambda>i. let opc = word_of_nat i; stat = stats opc in
        if os_num_instructions stat = 0 then []
        else [[hex_byte opc, opcode_mnemonic const opc, display_nat (unat (os_num_programs stat)),
               display_nat (unat (os_num_instructions stat))]]) [0..<256])"

section \<open>Correctness\<close>

text \<open>A text section as a list of instructions: the opcode and the rest of its 8 or 16 bytes.\<close>

definition instruction_wf :: "u8 \<Rightarrow> u8 \<times> u8 list \<Rightarrow> bool" where
  "instruction_wf ld_dw_imm i \<longleftrightarrow> length (snd i) = (if fst i \<noteq> ld_dw_imm then 7 else 15)"

definition text_bytes :: "(u8 \<times> u8 list) list \<Rightarrow> u8 list" where
  "text_bytes is = concat (map (\<lambda>(opc, rest). opc # rest) is)"

declare count_text.simps [simp del]

lemma count_text_bytes:
  assumes "\<forall>i \<in> set is. instruction_wf ld_dw_imm i"
  shows "count_text ld_dw_imm (text_bytes is) stats = Done (fold count_insn (map fst is) stats)"
  using assms
proof (induction "is" arbitrary: stats)
  case Nil
  then show ?case by (simp add: text_bytes_def count_text.simps)
next
  case (Cons i "is")
  obtain opc rest where i: "i = (opc, rest)" by (cases i)
  have l: "length rest = (if opc \<noteq> ld_dw_imm then 7 else 15)" using Cons.prems by (simp add: i instruction_wf_def)
  have "text_bytes (i # is) = opc # rest @ text_bytes is" by (simp add: i text_bytes_def)
  then show ?case
    using Cons l by (subst count_text.simps) (simp add: i Let_def)
qed

lemma fold_count_insn:
  "fold count_insn opcs stats op =
     \<lparr>os_num_programs = (if op \<in> set opcs then os_num_programs (stats op) OR 1 else os_num_programs (stats op)),
      os_num_instructions = os_num_instructions (stats op) + of_nat (count_list opcs op)\<rparr>"
  by (induction opcs arbitrary: stats) (auto simp: count_insn_def or.assoc)

lemma process_entries_sum:
  assumes "\<forall>p \<in> set programs. text_of (snd p) = Inr (text_bytes (fst p)) \<and> (\<forall>i \<in> set (fst p). instruction_wf ld_dw_imm i)"
  shows "process_entries ld_dw_imm text_of stats (map (\<lambda>p. Inr \<lparr>te_path = Inr path, te_contents = Inr (snd p)\<rparr>) programs) =
    Done (Inr (\<lambda>op. stat_add (stats op)
      \<lparr>os_num_programs = of_nat (length (filter (\<lambda>p. op \<in> fst ` set (fst p)) programs)),
       os_num_instructions = of_nat (\<Sum>p\<leftarrow>programs. count_list (map fst (fst p)) op)\<rparr>))"
  using assms
proof (induction programs arbitrary: stats)
  case Nil
  then show ?case by (simp add: stat_add_def fun_eq_iff)
next
  case (Cons p programs)
  have p: "from_program ld_dw_imm text_of (snd p) = Done (Inr (fold count_insn (map fst (fst p)) opcode_stats_default))"
    using Cons.prems by (simp add: from_program_def count_text_bytes)
  show ?case
    using Cons
    by (simp add: process_tool_entry_def p opcode_stats_add_def fold_count_insn)
      (auto simp: fun_eq_iff stat_add_def opcode_stats_default_def stat_default_def ac_simps)
qed

text \<open>C40: The report of \<^verbatim>\<open>solana-opcode-stats\<close> counts, for each opcode, its instructions in all programs and the
  programs that contain it, up to the width of the counters, for an archive of programs whose text sections
  consist of whole instructions.\<close>

theorem opcode_stats_exact:
  assumes "\<forall>p \<in> set programs. text_of (snd p) = Inr (text_bytes (fst p)) \<and> (\<forall>i \<in> set (fst p). instruction_wf ld_dw_imm i)"
  shows "\<exists>stats. create_stats ld_dw_imm text_of (Inr (map (\<lambda>p. Inr \<lparr>te_path = Inr path, te_contents = Inr (snd p)\<rparr>) programs)) =
      Done (Inr stats) \<and>
    (\<forall>op. os_num_programs (stats op) = of_nat (length (filter (\<lambda>p. op \<in> fst ` set (fst p)) programs)) \<and>
      os_num_instructions (stats op) = of_nat (\<Sum>p\<leftarrow>programs. count_list (map fst (fst p)) op))"
  using process_entries_sum [OF assms]
  by (auto simp: create_stats_def stat_add_def opcode_stats_default_def stat_default_def)

lemma opcode_stats_exact_witness:
  "\<exists>stats. create_stats 0x18 (\<lambda>elf. Inr elf) (Inr [Inr \<lparr>te_path = Inr ''a.so'', te_contents = Inr ([0x95] @ replicate 7 0 @ [0x18] @ replicate 15 1)\<rparr>]) =
      Done (Inr stats) \<and> os_num_programs (stats 0x18) = 1 \<and> os_num_instructions (stats 0x95) = 1 \<and> os_num_instructions (stats 1) = 0"
  using opcode_stats_exact [of "[([(0x95, replicate 7 0), (0x18, replicate 15 1)], [0x95] @ replicate 7 0 @ [0x18] @ replicate 15 1)]"
      "\<lambda>elf. Inr elf" "0x18" "''a.so''"]
  by (auto simp: text_bytes_def instruction_wf_def)

end
