(* ===== verification/Spec2Isabelle.thy ===== *)
theory Spec2Isabelle
  imports Fanout Watcher_Loop Close_Repair Schema Opcode_Stats
begin

text \<open>
  A verification development for \<^verbatim>\<open>solana-snapshot-etl\<close>.
\<close>

end
